(* ===== verification/Prelude.thy ===== *)
theory Prelude
  imports Main "HOL-Library.Word" "HOL-Library.Multiset" "HOL-Library.While_Combinator"
    "HOL-Library.Monad_Syntax"
begin

text \<open>
  What every other theory of the development shares: the machine integers of the sources by
  their C names, the collections of facts the component proofs draw on, the loop combinator
  \<open>loop\<close> for C loops that may run forever and that are left by more than one exit, and a few
  generic lemmas on options, lists and words.
\<close>

section \<open>Types\<close>

type_synonym byte = "8 word"
type_synonym u16 = "16 word"
type_synonym i32 = "32 word"
type_synonym u64 = "64 word"

section \<open>Collections of facts\<close>

text \<open>
  \<open>monitor_simps\<close>: how the resource monitor reacts to the events of a run.
  \<open>frame_simps\<close>: the parts of the state an operation leaves alone.
  \<open>memory_simps\<close>: loads and stores on the heap of blocks.
  \<open>run_simps\<close>: the definitions to unfold when a run on a concrete input is evaluated by \<open>simp\<close>.
\<close>

named_theorems monitor_simps
named_theorems frame_simps
named_theorems memory_simps
named_theorems run_simps

section \<open>Loops\<close>

text \<open>
  A C loop with several exits: the body maps a loop state to \<open>Inl\<close> the next state or to
  \<open>Inr\<close> the value the loop is left with. \<open>None\<close> means "does not return", either because
  a call in the body does not return or because the loop goes on forever.
\<close>

partial_function (option) loop :: "('s \<Rightarrow> ('s + 'r) option) \<Rightarrow> 's \<Rightarrow> 'r option" where
  "loop b s = do { x \<leftarrow> b s; (case x of Inl s' \<Rightarrow> loop b s' | Inr r \<Rightarrow> Some r) }"

lemma loop_exit: "b s = Some (Inr r) \<Longrightarrow> loop b s = Some r"
  by (subst loop.simps) simp

lemma loop_next: "b s = Some (Inl s') \<Longrightarrow> loop b s = loop b s'"
  by (subst loop.simps) simp

text \<open>Partial correctness: an invariant of the body holds of whatever the loop is left with.\<close>

lemma loop_rule:
  fixes b :: "'s \<Rightarrow> ('s + 'r) option"
  assumes ret: "loop b s = Some r"
    and init: "P s"
    and next_step: "\<And>t t'. P t \<Longrightarrow> b t = Some (Inl t') \<Longrightarrow> P t'"
    and exit_step: "\<And>t q. P t \<Longrightarrow> b t = Some (Inr q) \<Longrightarrow> Q q"
  shows "Q r"
proof -
  have "P s \<longrightarrow> Q r"
  proof (rule loop.raw_induct [where P = "\<lambda>b' s r. b' = b \<longrightarrow> P s \<longrightarrow> Q r", THEN mp, OF _ ret refl])
    fix rec :: "('s \<Rightarrow> ('s + 'r) option) \<Rightarrow> 's \<Rightarrow> 'r option" and b' t q
    assume IH: "\<And>b' t q. rec b' t = Some q \<Longrightarrow> b' = b \<longrightarrow> P t \<longrightarrow> Q q"
      and eq: "(b' t \<bind> (\<lambda>x. case x of Inl s' \<Rightarrow> rec b' s' | Inr r \<Rightarrow> Some r)) = Some q"
    show "b' = b \<longrightarrow> P t \<longrightarrow> Q q"
    proof (intro impI)
      assume b: "b' = b" and P: "P t"
      from eq b obtain x where x: "b t = Some x"
          and rest: "(case x of Inl s' \<Rightarrow> rec b s' | Inr r \<Rightarrow> Some r) = Some q"
        by (auto simp: bind_eq_Some_conv)
      show "Q q"
      proof (cases x)
        case (Inl t')
        with next_step [OF P] x have "P t'" by simp
        moreover from Inl rest have "rec b t' = Some q" by simp
        ultimately show ?thesis using IH by blast
      next
        case (Inr r)
        with exit_step [OF P] x rest show ?thesis by simp
      qed
    qed
  qed
  with init show ?thesis by blast
qed

text \<open>
  Total correctness: with a measure that every further round decreases, the loop returns, with what
  its last round is left with.
\<close>

lemma loop_ends:
  fixes m :: "'s \<Rightarrow> nat"
  assumes init: "P s"
    and body: "\<And>t. P t \<Longrightarrow> (\<exists>q. b t = Some (Inr q) \<and> Q q) \<or> (\<exists>t'. b t = Some (Inl t') \<and> P t' \<and> m t' < m t)"
  shows "\<exists>r. loop b s = Some r \<and> Q r"
  using init
proof (induction "m s" arbitrary: s rule: less_induct)
  case less
  from body [OF less.prems] show ?case
  proof
    assume "\<exists>q. b s = Some (Inr q) \<and> Q q"
    then show ?thesis by (auto simp: loop_exit)
  next
    assume "\<exists>t'. b s = Some (Inl t') \<and> P t' \<and> m t' < m s"
    then obtain t' where "b s = Some (Inl t')" "P t'" "m t' < m s" by blast
    with less.hyps [of t'] show ?thesis by (simp add: loop_next)
  qed
qed

lemma loop_returns:
  fixes m :: "'s \<Rightarrow> nat"
  assumes "P s"
    and "\<And>t. P t \<Longrightarrow> (\<exists>q. b t = Some (Inr q)) \<or> (\<exists>t'. b t = Some (Inl t') \<and> P t' \<and> m t' < m t)"
  shows "\<exists>r. loop b s = Some r"
  using loop_ends [where P = P and Q = "\<lambda>_. True" and m = m, OF assms(1)] assms(2) by auto

text \<open>\<open>while_option\<close> for the busy-wait loops: one step and the stop.\<close>

lemma while_option_done: "\<not> b s \<Longrightarrow> while_option b c s = Some s"
  by (subst while_option_unfold) simp

lemma while_option_step: "b s \<Longrightarrow> while_option b c s = while_option b c (c s)"
  by (subst while_option_unfold) simp

lemma while_option_rel:
  assumes "while_option b c s = Some t" and "\<And>u. R u u"
    and "\<And>u v w. R u v \<Longrightarrow> R v w \<Longrightarrow> R u w" and "\<And>u. R u (c u)"
  shows "R s t"
  using while_option_rule [of "R s" b c s t] assms by blast

section \<open>Words\<close>

lemma sint_ucast_size: "unat (len :: u64) = n \<Longrightarrow> n < 2 ^ 31 \<Longrightarrow> sint (ucast len :: i32) = int n"
proof -
  assume u: "unat len = n" and n: "n < 2 ^ 31"
  from u have ui: "uint len = int n" by (metis uint_nat)
  have "sint (ucast len :: i32) = signed_take_bit 31 (uint len)"
    by (simp add: sint_uint unsigned_ucast_eq signed_take_bit_take_bit)
  also have "\<dots> = int n" using n by (simp add: ui signed_take_bit_int_eq_self)
  finally show ?thesis .
qed

lemma unat_of_nat_u64: "k < 2 ^ 64 \<Longrightarrow> unat (of_nat k :: u64) = k"
  by (simp add: unsigned_of_nat take_bit_nat_eq_self)

lemma word_of_unat: "unat (x :: 'a::len word) = n \<Longrightarrow> x = of_nat n"
  by auto

section \<open>Lists\<close>

lemma fold_rel:
  assumes "\<And>u. R u u" and "\<And>u v w. R u v \<Longrightarrow> R v w \<Longrightarrow> R u w" and "\<And>x u. R u (f x u)"
  shows "R s (fold f xs s)"
proof (induction xs arbitrary: s)
  case Nil
  show ?case using assms(1) by simp
next
  case (Cons x xs)
  have "R s (f x s)" by (rule assms(3))
  moreover have "R (f x s) (fold f xs (f x s))" by (rule Cons.IH)
  ultimately show ?case using assms(2) by simp
qed

lemma replicate_numeral [run_simps]: "replicate (numeral k) x = x # replicate (pred_numeral k) x"
  by (simp add: numeral_eq_Suc)

lemmas prelude_run [run_simps] = Let_def while_option_unfold

text \<open>Congruence rules that keep \<open>simp\<close> from working on what a run has not reached yet.\<close>

lemma bind_weak_cong: "x = y \<Longrightarrow> Option.bind x f = Option.bind y f"
  by simp

lemmas run_congs = let_weak_cong bind_weak_cong

lemma map_fst_Some: "map_option fst x = Some a \<Longrightarrow> \<exists>t. x = Some (a, t)"
  by auto

end
