(* ===== verification/C_Strings.thy ===== *)
theory C_Strings
  imports Prelude
begin

text \<open>
  The parts of the C library on strings that the command lines of both programs go through:
  \<open>atoi\<close>, \<open>atol\<close>, \<open>strcasecmp\<close>, \<open>snprintf\<close> of a decimal number, and \<open>getopt\<close>. Strings are
  lists of characters without the terminating NUL.
\<close>

section \<open>Numbers\<close>

definition is_space :: "char \<Rightarrow> bool" where
  "is_space c \<longleftrightarrow> c = CHR '' '' \<or> (9 \<le> (of_char c :: nat) \<and> of_char c \<le> (13 :: nat))"

definition is_digit :: "char \<Rightarrow> bool" where
  "is_digit c \<longleftrightarrow> 48 \<le> (of_char c :: nat) \<and> of_char c \<le> (57 :: nat)"

definition digit_val :: "char \<Rightarrow> int" where
  "digit_val c = int (of_char c) - 48"

fun digits_val :: "int \<Rightarrow> string \<Rightarrow> int" where
  "digits_val acc [] = acc"
| "digits_val acc (c # cs) =
     (if is_digit c then digits_val (10 * acc + digit_val c) cs else acc)"

text \<open>\<open>strtol(s, NULL, 10)\<close>: white space, an optional sign, digits; the value saturates.\<close>

definition strtol_value :: "string \<Rightarrow> int" where
  "strtol_value s =
     (case dropWhile is_space s of
        [] \<Rightarrow> 0
      | c # cs \<Rightarrow> if c = CHR ''-'' then - digits_val 0 cs
                  else if c = CHR ''+'' then digits_val 0 cs
                  else digits_val 0 (c # cs))"

definition atol :: "string \<Rightarrow> u64" where
  "atol s = word_of_int (max (- (2 ^ 63)) (min (2 ^ 63 - 1) (strtol_value s)))"

text \<open>\<open>atoi\<close> is \<open>(int)strtol(s, NULL, 10)\<close>: the low 32 bits of the saturated value.\<close>

definition atoi :: "string \<Rightarrow> i32" where
  "atoi s = ucast (atol s)"

section \<open>Decimal output\<close>

fun dec_digits :: "nat \<Rightarrow> string" where
  "dec_digits n =
     (if n < 10 then [char_of (48 + n)] else dec_digits (n div 10) @ [char_of (48 + n mod 10)])"

declare dec_digits.simps [simp del]

lemma length_dec_digits: "n < 10 ^ Suc k \<Longrightarrow> length (dec_digits n) \<le> Suc k"
proof (induction k arbitrary: n)
  case 0
  then show ?case by (subst dec_digits.simps) simp
next
  case (Suc k)
  show ?case
  proof (cases "n < 10")
    case True
    then show ?thesis by (subst dec_digits.simps) simp
  next
    case False
    from Suc.prems have "n div 10 < 10 ^ Suc k" by simp
    then have "length (dec_digits (n div 10)) \<le> Suc k" by (rule Suc.IH)
    with False show ?thesis by (subst dec_digits.simps) simp
  qed
qed

lemma of_char_digit: "n < 10 \<Longrightarrow> (of_char (char_of (48 + n) :: char) :: nat) = 48 + n"
  by (simp add: of_char_of)

lemma is_digit_char_of: "(n :: nat) < 10 \<Longrightarrow> is_digit (char_of (48 + n))"
  by (simp add: is_digit_def of_char_digit)

lemma digit_val_char_of: "n < 10 \<Longrightarrow> digit_val (char_of (48 + n)) = int n"
  by (simp add: digit_val_def)

lemma digits_val_append:
  "\<forall>c \<in> set xs. is_digit c \<Longrightarrow> digits_val acc (xs @ ys) = digits_val (digits_val acc xs) ys"
  by (induction xs arbitrary: acc) auto

lemma set_dec_digits: "\<forall>c \<in> set (dec_digits n). is_digit c"
proof (induction n rule: dec_digits.induct)
  case (1 n)
  show ?case
  proof (cases "n < 10")
    case True
    then show ?thesis by (subst dec_digits.simps) (simp add: is_digit_char_of)
  next
    case False
    then show ?thesis using 1 by (subst dec_digits.simps) (auto simp: is_digit_char_of)
  qed
qed

lemma digits_val_dec_digits: "digits_val 0 (dec_digits n) = int n"
proof (induction n rule: dec_digits.induct)
  case (1 n)
  show ?case
  proof (cases "n < 10")
    case True
    then show ?thesis
      by (subst dec_digits.simps) (simp add: is_digit_char_of digit_val_char_of)
  next
    case False
    then have "digits_val 0 (dec_digits (n div 10)) = int (n div 10)" using 1 by simp
    with False show ?thesis
      by (subst dec_digits.simps)
        (simp add: digits_val_append set_dec_digits is_digit_char_of digit_val_char_of
          zdiv_int zmod_int)
  qed
qed

lemma dec_digits_not_Nil: "dec_digits n \<noteq> []"
  by (subst dec_digits.simps) simp

lemma digit_not_special:
  assumes "is_digit c" shows "\<not> is_space c" "c \<noteq> CHR ''-''" "c \<noteq> CHR ''+''"
  using assms by (auto simp: is_digit_def is_space_def)

text \<open>Reading back a printed number gives the number.\<close>

lemma strtol_dec_digits: "strtol_value (dec_digits n) = int n"
proof -
  obtain c cs where cs: "dec_digits n = c # cs"
    using dec_digits_not_Nil by (cases "dec_digits n") auto
  then have "is_digit c" using set_dec_digits [of n] by simp
  moreover have "dropWhile is_space (dec_digits n) = c # cs"
    using cs digit_not_special [OF \<open>is_digit c\<close>] by simp
  ultimately show ?thesis
    using digits_val_dec_digits [of n] cs digit_not_special [of c]
    by (simp add: strtol_value_def)
qed

text \<open>\<open>snprintf(buf, bufsize, "%u", n)\<close>: at most \<open>bufsize - 1\<close> characters are kept.\<close>

definition snprintf_dec :: "nat \<Rightarrow> nat \<Rightarrow> string" where
  "snprintf_dec bufsize n = take (bufsize - 1) (dec_digits n)"

section \<open>Comparison without case\<close>

definition to_lower :: "char \<Rightarrow> char" where
  "to_lower c = (if 65 \<le> (of_char c :: nat) \<and> of_char c \<le> (90 :: nat)
                 then char_of ((of_char c :: nat) + 32) else c)"

definition strcasecmp_eq :: "string \<Rightarrow> string \<Rightarrow> bool" where
  "strcasecmp_eq a b \<longleftrightarrow> map to_lower a = map to_lower b"

section \<open>getopt\<close>

text \<open>
  What an option character is in an option string: unknown (\<open>None\<close>), or known and with or
  without an argument (a following colon).
\<close>

fun opt_kind :: "string \<Rightarrow> char \<Rightarrow> bool option" where
  "opt_kind [] c = None"
| "opt_kind (x # xs) c =
     (if x = c \<and> c \<noteq> CHR '':'' then Some (xs \<noteq> [] \<and> hd xs = CHR '':'') else opt_kind xs c)"

type_synonym opt = "char \<times> string option"

text \<open>The options of one \<open>-abc\<close> word; the last of them may take the next word as its argument.\<close>

fun getopt_cluster :: "string \<Rightarrow> string \<Rightarrow> string list \<Rightarrow> opt list \<times> string list" where
  "getopt_cluster optstring [] rest = ([], rest)"
| "getopt_cluster optstring (c # cs) rest =
     (case opt_kind optstring c of
        None \<Rightarrow> (let (os, rest') = getopt_cluster optstring cs rest
                 in ((CHR ''?'', None) # os, rest'))
      | Some False \<Rightarrow> (let (os, rest') = getopt_cluster optstring cs rest
                       in ((c, None) # os, rest'))
      | Some True \<Rightarrow>
          if cs \<noteq> [] then ([(c, Some cs)], rest)
          else (case rest of
                  [] \<Rightarrow> ([(CHR ''?'', None)], [])
                | a # rest' \<Rightarrow> ([(c, Some a)], rest')))"

lemma getopt_cluster_length: "length (snd (getopt_cluster optstring cs rest)) \<le> length rest"
  by (induction optstring cs rest rule: getopt_cluster.induct)
    (auto split: option.splits bool.splits list.splits prod.splits)

text \<open>
  The whole scan over \<open>argv[1..]\<close>: the options \<open>getopt\<close> returns one after the other, and the
  words that are no options, which GNU \<open>getopt\<close> moves behind the options.
\<close>

function getopt_all :: "string \<Rightarrow> string list \<Rightarrow> opt list \<times> string list" where
  "getopt_all optstring argv =
     (case argv of
        [] \<Rightarrow> ([], [])
      | a # rest \<Rightarrow>
          if a = ''--'' then ([], rest)
          else if length a > 1 \<and> hd a = CHR ''-'' then
            (let (os, rest') = getopt_cluster optstring (tl a) rest;
                 (os', words) = getopt_all optstring rest'
             in (os @ os', words))
          else (let (os, words) = getopt_all optstring rest in (os, a # words)))"
  by pat_completeness auto
termination
proof (relation "measure (\<lambda>(optstring, argv). length argv)", goal_cases)
  case 1 show ?case by simp
next
  case (2 optstring argv a rest p os rest')
  then have "snd (getopt_cluster optstring (tl a) rest) = rest'" by (metis snd_conv)
  with 2 getopt_cluster_length [of optstring "tl a" rest] show ?case by simp
next
  case (3 optstring argv a rest) then show ?case by simp
qed

declare getopt_all.simps [simp del]

text \<open>An option that takes an argument is returned with one.\<close>

lemma getopt_cluster_arg:
  "(c, a) \<in> set (fst (getopt_cluster optstring cs rest)) \<Longrightarrow> opt_kind optstring c = Some True \<Longrightarrow>
   opt_kind optstring CHR ''?'' = None \<Longrightarrow> a \<noteq> None"
  by (induction optstring cs rest rule: getopt_cluster.induct)
    (auto split: option.splits bool.splits list.splits prod.splits if_splits)

lemma getopt_all_arg:
  "(c, a) \<in> set (fst (getopt_all optstring argv)) \<Longrightarrow> opt_kind optstring c = Some True \<Longrightarrow>
   opt_kind optstring CHR ''?'' = None \<Longrightarrow> a \<noteq> None"
proof (induction optstring argv rule: getopt_all.induct)
  case (1 optstring argv)
  show ?case
  proof (cases argv)
    case Nil
    with 1 show ?thesis by (simp add: getopt_all.simps)
  next
    case (Cons w rest)
    obtain os rest' where cl: "getopt_cluster optstring (tl w) rest = (os, rest')"
      by (cases "getopt_cluster optstring (tl w) rest")
    have "(c, a) \<in> set os \<Longrightarrow> a \<noteq> None"
      using getopt_cluster_arg [of c a optstring "tl w" rest] cl 1 by auto
    with Cons 1 cl show ?thesis
      by (subst (asm) getopt_all.simps) (auto split: if_splits prod.splits)
  qed
qed

lemmas strings_run [run_simps] =
  strtol_value_def atol_def atoi_def digit_val_def is_digit_def is_space_def snprintf_dec_def
  to_lower_def strcasecmp_eq_def getopt_all.simps

section \<open>Numbers in memory\<close>

text \<open>The bytes of a number in the order of the machine (little endian).\<close>

fun le_bytes :: "nat \<Rightarrow> nat \<Rightarrow> byte list" where
  "le_bytes 0 v = []"
| "le_bytes (Suc n) v = of_nat (v mod 256) # le_bytes n (v div 256)"

fun le_value :: "byte list \<Rightarrow> nat" where
  "le_value [] = 0"
| "le_value (b # bs) = unat b + 256 * le_value bs"

lemma le_bytes_numeral [run_simps]:
  "le_bytes (numeral k) v = of_nat (v mod 256) # le_bytes (pred_numeral k) (v div 256)"
  unfolding numeral_eq_Suc [of k] by (rule le_bytes.simps(2))

lemma length_le_bytes [simp]: "length (le_bytes n v) = n"
  by (induction n arbitrary: v) simp_all

lemma le_value_le_bytes: "le_value (le_bytes n v) = v mod 256 ^ n"
proof (induction n arbitrary: v)
  case (Suc n)
  have "unat (of_nat (v mod 256) :: byte) = v mod 256" by (simp add: unsigned_of_nat take_bit_nat_eq_self)
  with Suc show ?case by (simp add: mod_mult2_eq)
qed simp


end
