(* ===== verification/Machine.thy ===== *)
theory Machine
  imports C_Strings
begin

text \<open>
  The machine both programs run on: the UCX, socket and memory calls they make, the environment
  that answers them, the process state they change (heap, trace of calls, faults), and the
  monitor that replays a trace and checks that every handle is released exactly once.

  UCX and the operating system are not part of the repository. They are the parameter \<open>E\<close> of
  every definition that calls them: a record of functions on a world of any type, which decide
  the answer of each call. Nothing is assumed about them here.
\<close>

section \<open>The UCX interface\<close>

text \<open>
  The status codes the sources name; \<open>UCS_ERR n\<close> is any other error code.
\<close>

datatype ucs_status =
  UCS_OK | UCS_INPROGRESS | UCS_ERR_NO_MESSAGE | UCS_ERR_BUSY | UCS_ERR_UNSUPPORTED | UCS_ERR nat

text \<open>
  A request as a non-blocking UCX call returns it (\<open>ucs_status_ptr_t\<close>): \<open>NULL\<close> when the
  operation is complete at once, an encoded error, or a pointer to a request object.
\<close>

datatype req = ReqNull | ReqErr ucs_status | ReqPtr nat

fun ucs_ptr_is_err :: "req \<Rightarrow> bool" where
  "ucs_ptr_is_err (ReqErr _) = True"
| "ucs_ptr_is_err _ = False"

fun ucs_ptr_is_ptr :: "req \<Rightarrow> bool" where
  "ucs_ptr_is_ptr (ReqPtr _) = True"
| "ucs_ptr_is_ptr _ = False"

fun ucs_ptr_status :: "req \<Rightarrow> ucs_status" where
  "ucs_ptr_status ReqNull = UCS_OK"
| "ucs_ptr_status (ReqErr st) = st"
| "ucs_ptr_status (ReqPtr _) = UCS_INPROGRESS"

text \<open>One entry of a \<open>ucp_dt_iov_t\<close> array; pointers are block numbers, 0 is \<open>NULL\<close>.\<close>

record iov =
  iov_buffer :: nat
  iov_length :: u64

text \<open>The buffer argument of a transfer: one contiguous buffer and its size in bytes, or an
  iov array and its number of entries.\<close>

datatype payload = Contig nat u64 | IovArray "iov list" u64

datatype family = AF_UNSPEC | AF_INET | AF_INET6 | AF_OTHER nat

record sockaddr =
  ss_family :: family
  ss_port :: u16
  ss_addr :: "byte list"

datatype feature = FEATURE_STREAM | FEATURE_TAG | FEATURE_AM | FEATURE_WAKEUP

datatype err_mode = ERR_MODE_NONE | ERR_MODE_PEER

text \<open>
  The flag of \<open>op_attr_mask\<close> the sources set: \<open>UCP_OP_ATTR_FLAG_NO_IMM_CMPL\<close>. With it a call does not
  return \<open>NULL\<close> for an operation that is complete at once: it returns a request, and the completion
  callback may run before the call returns.
\<close>

datatype op_flag = NO_IMM_CMPL

text \<open>
  The UCX calls. Contexts, workers, endpoints, listeners and connection requests are numbers;
  \<open>nat option\<close> is the \<open>user_data\<close> pointer a callback gets back.
\<close>

datatype ucx_call =
    ConfigRead
  | ConfigRelease
  | UcpInit "feature list"
  | UcpCleanup nat
  | WorkerCreate nat
  | WorkerDestroy nat
  | WorkerQuery nat
  | ReleaseAddress nat
  | WorkerProgress nat
  | WorkerWait nat
  | WorkerGetEfd nat
  | WorkerArm nat
  | ListenerCreate nat sockaddr
  | ListenerQuery nat
  | ListenerDestroy nat
  | ListenerReject nat nat
  | ConnQuery nat
  | SetAmHandler nat nat
  | EpCreateConn nat nat
  | EpCreateSock nat sockaddr
  | EpCreateAddr nat "byte option list" err_mode
  | EpClose nat bool
  | EpDestroy nat
  | EpFlush nat
  | StreamSend nat payload "nat option"
  | StreamRecv nat payload bool "nat option"
  | TagSend nat payload u64 "nat option"
  | TagRecv nat payload u64 u64 "nat option"
  | TagProbe nat u64 u64
  | TagMsgRecv nat payload nat "op_flag list"
  | AmSend nat nat payload "nat option"
  | AmRecvData nat nat payload "nat option" "op_flag list"
  | ReqFree nat

fun flags_of :: "ucx_call \<Rightarrow> op_flag list" where
  "flags_of (TagMsgRecv _ _ _ fl) = fl"
| "flags_of (AmRecvData _ _ _ _ fl) = fl"
| "flags_of _ = []"

text \<open>The socket calls of the out-of-band connection, with the descriptors they work on.\<close>

datatype sock_call =
    GetAddrInfo "string option" string family
  | FreeAddrInfo
  | Socket family
  | Connect int
  | SetReuse int
  | Bind int
  | Listen int
  | Accept int
  | CloseFd int
  | SendBytes int "byte list"
  | RecvBytes int u64
  | PollIn int
  | EpollCreate
  | EpollAdd int int
  | EpollWait int

section \<open>Traces\<close>

text \<open>
  An event is a call together with its answer, or a line the program prints.
\<close>

datatype event =
    EvVoid ucx_call
  | EvStatus ucx_call ucs_status
  | EvCreate ucx_call ucs_status nat
  | EvPost ucx_call "byte option list" req
  | EvSock sock_call int
  | EvPrint "byte list"

text \<open>What a release call must not do, and what an access to memory must not do.\<close>

datatype fault = BadFree nat | BadLoad nat | BadStore nat | BadString | DeadFrame nat

text \<open>How the bytes of a received message get into the user's buffers: block, offset, bytes.\<close>

type_synonym dma = "nat \<times> nat \<times> byte list"

text \<open>
  The environment: memory, UCX, and the address functions of the C library. \<open>u_early\<close> is what a call
  with \<open>NO_IMM_CMPL\<close> that has returned the given request called back before it returned.
\<close>

record ('w, 'u) env =
  alloc_ok :: "nat \<Rightarrow> 'w \<Rightarrow> bool \<times> 'w"
  u_void :: "ucx_call \<Rightarrow> 'w \<Rightarrow> 'w"
  u_status :: "ucx_call \<Rightarrow> 'w \<Rightarrow> ucs_status \<times> 'w"
  u_create :: "ucx_call \<Rightarrow> 'w \<Rightarrow> (ucs_status \<times> nat) \<times> 'w"
  u_post :: "ucx_call \<Rightarrow> byte option list \<Rightarrow> 'w \<Rightarrow> (req \<times> dma list) \<times> 'w"
  u_early :: "ucx_call \<Rightarrow> nat \<Rightarrow> 'w \<Rightarrow> 'u list"
  u_progress :: "nat \<Rightarrow> 'w \<Rightarrow> (nat \<times> 'u list) \<times> 'w"
  u_check :: "nat \<Rightarrow> 'w \<Rightarrow> ucs_status"
  status_code :: "ucs_status \<Rightarrow> int"
  inet_pton :: "family \<Rightarrow> string \<Rightarrow> byte list option"

datatype mem_type = MEM_HOST | MEM_CUDA | MEM_CUDA_MANAGED | MEM_OTHER nat | MEM_LAST

text \<open>
  The state of the process. A block of memory is a list of bytes, \<open>None\<close> for a byte that was
  never written; \<open>brk\<close> is the next block number. \<open>test_mem_type\<close> is the static variable of
  \<open>hello_world_util.h\<close> that both programs share by including the header.
\<close>

record 'w machine =
  world :: 'w
  heap :: "nat \<Rightarrow> byte option list option"
  brk :: nat
  faults :: "fault list"
  trace :: "event list"
  test_mem_type :: mem_type

definition emit :: "event \<Rightarrow> ('w, 'b) machine_scheme \<Rightarrow> ('w, 'b) machine_scheme" where
  "emit e s = s\<lparr>trace := trace s @ [e]\<rparr>"

definition fault :: "fault \<Rightarrow> ('w, 'b) machine_scheme \<Rightarrow> ('w, 'b) machine_scheme" where
  "fault f s = s\<lparr>faults := faults s @ [f]\<rparr>"

lemma emit_frame [frame_simps, simp]:
  "world (emit e s) = world s" "heap (emit e s) = heap s" "brk (emit e s) = brk s"
  "faults (emit e s) = faults s" "test_mem_type (emit e s) = test_mem_type s"
  "trace (emit e s) = trace s @ [e]"
  by (simp_all add: emit_def)

lemma fault_frame [frame_simps, simp]:
  "world (fault f s) = world s" "heap (fault f s) = heap s" "brk (fault f s) = brk s"
  "trace (fault f s) = trace s" "test_mem_type (fault f s) = test_mem_type s"
  "faults (fault f s) = faults s @ [f]"
  by (simp_all add: fault_def)

section \<open>The heap\<close>

definition load :: "nat \<Rightarrow> nat \<Rightarrow> nat \<Rightarrow> ('w, 'b) machine_scheme \<Rightarrow> byte option list option" where
  "load p off n s =
     (case heap s p of
        None \<Rightarrow> None
      | Some bs \<Rightarrow> if off + n \<le> length bs then Some (take n (drop off bs)) else None)"

definition store :: "nat \<Rightarrow> nat \<Rightarrow> byte option list \<Rightarrow> ('w, 'b) machine_scheme \<Rightarrow> ('w, 'b) machine_scheme" where
  "store p off xs s =
     (case heap s p of
        None \<Rightarrow> fault (BadStore p) s
      | Some bs \<Rightarrow>
          if off + length xs \<le> length bs
          then s\<lparr>heap := (heap s)(p \<mapsto> take off bs @ xs @ drop (off + length xs) bs)\<rparr>
          else fault (BadStore p) s)"

definition memcpy :: "nat \<Rightarrow> nat \<Rightarrow> nat \<Rightarrow> nat \<Rightarrow> nat \<Rightarrow> ('w, 'b) machine_scheme \<Rightarrow> ('w, 'b) machine_scheme" where
  "memcpy dst doff src soff n s =
     (case load src soff n s of
        None \<Rightarrow> fault (BadLoad src) s
      | Some xs \<Rightarrow> store dst doff xs s)"

definition memset :: "nat \<Rightarrow> byte \<Rightarrow> nat \<Rightarrow> ('w, 'b) machine_scheme \<Rightarrow> ('w, 'b) machine_scheme" where
  "memset dst v n s = store dst 0 (replicate n (Some v)) s"

text \<open>
  \<open>malloc\<close>: the environment decides whether there is memory (also for size 0, where the C
  standard leaves it open); a new block has a number of its own and no contents yet.
\<close>

definition new_block :: "byte option list \<Rightarrow> ('w, 'b) machine_scheme \<Rightarrow> nat \<times> ('w, 'b) machine_scheme" where
  "new_block bs s = (brk s, s\<lparr>heap := (heap s)(brk s \<mapsto> bs), brk := Suc (brk s)\<rparr>)"

definition malloc :: "('w, 'u, 'e) env_scheme \<Rightarrow> u64 \<Rightarrow> ('w, 'b) machine_scheme \<Rightarrow> nat \<times> ('w, 'b) machine_scheme" where
  "malloc E n s =
     (let (ok, w) = alloc_ok E (unat n) (world s); s = s\<lparr>world := w\<rparr>
      in if ok then new_block (replicate (unat n) None) s else (0, s))"

text \<open>\<open>calloc(nmemb, size)\<close>: fails when the product does not fit, else the block is zeroed.\<close>

definition calloc :: "('w, 'u, 'e) env_scheme \<Rightarrow> u64 \<Rightarrow> u64 \<Rightarrow> ('w, 'b) machine_scheme \<Rightarrow> nat \<times> ('w, 'b) machine_scheme" where
  "calloc E nmemb n s =
     (if unat nmemb * unat n \<ge> 2 ^ 64 then (0, s)
      else let (ok, w) = alloc_ok E (unat nmemb * unat n) (world s); s = s\<lparr>world := w\<rparr>
           in if ok then new_block (replicate (unat nmemb * unat n) (Some 0)) s else (0, s))"

definition c_free :: "nat \<Rightarrow> ('w, 'b) machine_scheme \<Rightarrow> ('w, 'b) machine_scheme" where
  "c_free p s =
     (if p = 0 then s
      else case heap s p of
             None \<Rightarrow> fault (BadFree p) s
           | Some _ \<Rightarrow> s\<lparr>heap := (heap s)(p := None)\<rparr>)"

text \<open>
  What \<open>printf("%s")\<close> reads: the bytes up to the first NUL. \<open>None\<close> when it runs off the end of
  the buffer or meets a byte that was never written.
\<close>

fun c_string :: "byte option list \<Rightarrow> byte list option" where
  "c_string [] = None"
| "c_string (None # bs) = None"
| "c_string (Some b # bs) = (if b = 0 then Some [] else map_option (Cons b) (c_string bs))"

text \<open>A heap in which the next block number is fresh and \<open>NULL\<close> is no block.\<close>

definition wf_heap :: "('w, 'b) machine_scheme \<Rightarrow> bool" where
  "wf_heap s \<longleftrightarrow> 0 < brk s \<and> heap s 0 = None \<and> (\<forall>p. heap s p \<noteq> None \<longrightarrow> p < brk s)"

lemma wf_heap_fresh: "wf_heap s \<Longrightarrow> heap s (brk s) = None"
  by (auto simp: wf_heap_def)

section \<open>An environment in which every call succeeds at once\<close>

text \<open>
  The starting point for runs on concrete inputs: memory is always there, every non-blocking
  operation is complete when it returns, a progress call does nothing, no address can be parsed,
  and the error codes have the numbers of \<open>ucs_status_t\<close> that matter here.
\<close>

definition obliging_env :: "('w, 'u) env" where
  "obliging_env =
     \<lparr>alloc_ok = (\<lambda>n w. (True, w)), u_void = (\<lambda>c w. w), u_status = (\<lambda>c w. (UCS_OK, w)),
      u_create = (\<lambda>c w. ((UCS_OK, 1), w)), u_post = (\<lambda>c bs w. ((ReqNull, []), w)),
      u_early = (\<lambda>c q w. []), u_progress = (\<lambda>wk w. ((0, []), w)), u_check = (\<lambda>r w. UCS_OK),
      status_code = (\<lambda>st. if st = UCS_OK then 0 else if st = UCS_INPROGRESS then 1
                          else if st = UCS_ERR_UNSUPPORTED then -22 else -1),
      inet_pton = (\<lambda>af str. None)\<rparr>"

lemma obliging_env_simps [simp]:
  "alloc_ok obliging_env n w = (True, w)" "u_void obliging_env c w = w"
  "u_status obliging_env c w = (UCS_OK, w)" "u_create obliging_env c w = ((UCS_OK, 1), w)"
  "u_post obliging_env c bs w = ((ReqNull, []), w)" "u_early obliging_env c q w = []" "u_progress obliging_env wk w = ((0, []), w)"
  "u_check obliging_env r w = UCS_OK" "status_code obliging_env UCS_ERR_UNSUPPORTED = -22"
  "inet_pton obliging_env af str = None"
  by (simp_all add: obliging_env_def)

lemmas machine_run [run_simps] =
  emit_def fault_def load_def store_def memcpy_def memset_def new_block_def malloc_def calloc_def c_free_def

end
