(* ===== verification/Ucx_Calls.thy ===== *)
theory Ucx_Calls
  imports Machine
begin

text \<open>
  How a program makes a call (one wrapper for each shape of answer; each appends its event to
  the trace), how \<open>ucp_worker_progress\<close> runs the program's callbacks, the resource monitor over
  traces, and the contract \<open>progress_frame\<close> of a relation that callbacks respect.
\<close>

section \<open>Calls\<close>

definition call_void :: "('w, 'u, 'e) env_scheme \<Rightarrow> ucx_call \<Rightarrow> ('w, 'b) machine_scheme \<Rightarrow> ('w, 'b) machine_scheme" where
  "call_void E c s = emit (EvVoid c) (s\<lparr>world := u_void E c (world s)\<rparr>)"

definition call_status :: "('w, 'u, 'e) env_scheme \<Rightarrow> ucx_call \<Rightarrow> ('w, 'b) machine_scheme \<Rightarrow>
    ucs_status \<times> ('w, 'b) machine_scheme" where
  "call_status E c s =
     (let (st, w) = u_status E c (world s) in (st, emit (EvStatus c st) (s\<lparr>world := w\<rparr>)))"

definition call_create :: "('w, 'u, 'e) env_scheme \<Rightarrow> ucx_call \<Rightarrow> ('w, 'b) machine_scheme \<Rightarrow>
    (ucs_status \<times> nat) \<times> ('w, 'b) machine_scheme" where
  "call_create E c s =
     (let ((st, h), w) = u_create E c (world s)
      in ((st, h), emit (EvCreate c st h) (s\<lparr>world := w\<rparr>)))"

text \<open>The bytes UCX writes into posted receive buffers.\<close>

definition apply_dma :: "dma \<Rightarrow> ('w, 'b) machine_scheme \<Rightarrow> ('w, 'b) machine_scheme" where
  "apply_dma d s = (case d of (p, off, bs) \<Rightarrow> store p off (map Some bs) s)"

text \<open>
  A non-blocking operation. UCX gets the bytes of the send buffer (none for a receive); a
  receive that is complete at once has been written to the buffer when the call returns.
\<close>

definition call_post :: "('w, 'u, 'e) env_scheme \<Rightarrow> ucx_call \<Rightarrow> byte option list \<Rightarrow> ('w, 'b) machine_scheme \<Rightarrow>
    req \<times> ('w, 'b) machine_scheme" where
  "call_post E c bytes s =
     (let ((r, ds), w) = u_post E c bytes (world s)
      in (r, emit (EvPost c bytes r) (fold apply_dma ds (s\<lparr>world := w\<rparr>))))"

text \<open>
  The callbacks that run before a non-blocking call returns: none unless the call has the flag. In
  \<open>call_post_cb\<close> they run after the request is known; \<open>hnd\<close> is the program's dispatch from an upcall
  to the callback registered for it. For a call without the flag it is \<open>call_post\<close>.
\<close>

definition early :: "('w, 'u, 'e) env_scheme \<Rightarrow> ucx_call \<Rightarrow> nat \<Rightarrow> 'w \<Rightarrow> 'u list" where
  "early E c q w = (if NO_IMM_CMPL \<in> set (flags_of c) then u_early E c q w else [])"

definition call_post_cb :: "('w, 'u, 'e) env_scheme \<Rightarrow>
    ('u \<Rightarrow> ('w, 'b) machine_scheme \<Rightarrow> ('w, 'b) machine_scheme) \<Rightarrow> ucx_call \<Rightarrow> byte option list \<Rightarrow>
    ('w, 'b) machine_scheme \<Rightarrow> req \<times> ('w, 'b) machine_scheme" where
  "call_post_cb E hnd c bytes s =
     (let (r, s) = call_post E c bytes s
      in (r, case r of ReqPtr q \<Rightarrow> fold hnd (early E c q (world s)) s | _ \<Rightarrow> s))"

lemma early_none [simp]: "flags_of c = [] \<Longrightarrow> early E c q w = []"
  by (simp add: early_def)

lemma call_post_cb_none: "flags_of c = [] \<Longrightarrow> call_post_cb E hnd c bytes s = call_post E c bytes s"
  by (simp add: call_post_cb_def split: prod.split req.split)

lemma call_post_cb_cases:
  assumes "call_post_cb E hnd c bytes s = (r, t)"
  obtains us u where "call_post E c bytes s = (r, u)" "t = fold hnd us u"
  using assms that [of _ "[]"] by (auto simp: call_post_cb_def split: prod.splits req.splits)

text \<open>The bytes of a contiguous buffer, for a send.\<close>

definition buffer_bytes :: "nat \<Rightarrow> u64 \<Rightarrow> ('w, 'b) machine_scheme \<Rightarrow> byte option list" where
  "buffer_bytes p n s = (case load p 0 (unat n) s of None \<Rightarrow> [] | Some bs \<Rightarrow> bs)"

text \<open>
  \<open>ucp_worker_progress\<close>: the library decides which of the program's callbacks run, in which order.
\<close>

definition ucp_worker_progress :: "('w, 'u, 'e) env_scheme \<Rightarrow>
    ('u \<Rightarrow> ('w, 'b) machine_scheme \<Rightarrow> ('w, 'b) machine_scheme) \<Rightarrow> nat \<Rightarrow> ('w, 'b) machine_scheme \<Rightarrow>
    nat \<times> ('w, 'b) machine_scheme" where
  "ucp_worker_progress E hnd wk s =
     (let ((n, us), w) = u_progress E wk (world s)
      in (n, fold hnd us (emit (EvVoid (WorkerProgress wk)) (s\<lparr>world := w\<rparr>))))"

definition ucp_request_check_status :: "('w, 'u, 'e) env_scheme \<Rightarrow> nat \<Rightarrow> ('w, 'b) machine_scheme \<Rightarrow> ucs_status" where
  "ucp_request_check_status E r s = u_check E r (world s)"

section \<open>The resource monitor\<close>

text \<open>What a program holds: the handles it has to release.\<close>

datatype resource =
    RConfig | RContext nat | RWorker nat | RAddress nat | RListener nat | REp nat
  | RRequest nat | RFd int | RAddrinfo

fun handle_of :: "ucx_call \<Rightarrow> nat \<Rightarrow> resource multiset" where
  "handle_of (UcpInit _) h = {#RContext h#}"
| "handle_of (WorkerCreate _) h = {#RWorker h#}"
| "handle_of (ListenerCreate _ _) h = {#RListener h#}"
| "handle_of (EpCreateConn _ _) h = {#REp h#}"
| "handle_of (EpCreateSock _ _) h = {#REp h#}"
| "handle_of (EpCreateAddr _ _ _) h = {#REp h#}"
| "handle_of _ h = {#}"

fun released_by :: "ucx_call \<Rightarrow> resource multiset" where
  "released_by ConfigRelease = {#RConfig#}"
| "released_by (UcpCleanup c) = {#RContext c#}"
| "released_by (WorkerDestroy w) = {#RWorker w#}"
| "released_by (ReleaseAddress w) = {#RAddress w#}"
| "released_by (ListenerDestroy l) = {#RListener l#}"
| "released_by (ReqFree r) = {#RRequest r#}"
| "released_by (EpClose ep _) = {#REp ep#}"
| "released_by (EpDestroy ep) = {#REp ep#}"
| "released_by _ = {#}"

fun got_by :: "ucx_call \<Rightarrow> resource multiset" where
  "got_by ConfigRead = {#RConfig#}"
| "got_by (WorkerQuery w) = {#RAddress w#}"
| "got_by _ = {#}"

fun req_of :: "req \<Rightarrow> resource multiset" where
  "req_of (ReqPtr r) = {#RRequest r#}"
| "req_of _ = {#}"

fun fd_of :: "sock_call \<Rightarrow> int \<Rightarrow> resource multiset" where
  "fd_of (Socket _) fd = (if 0 \<le> fd then {#RFd fd#} else {#})"
| "fd_of (Accept _) fd = (if 0 \<le> fd then {#RFd fd#} else {#})"
| "fd_of EpollCreate fd = (if 0 \<le> fd then {#RFd fd#} else {#})"
| "fd_of (GetAddrInfo _ _ _) r = (if r = 0 then {#RAddrinfo#} else {#})"
| "fd_of _ _ = {#}"

fun fd_closed :: "sock_call \<Rightarrow> resource multiset" where
  "fd_closed (CloseFd fd) = (if 0 \<le> fd then {#RFd fd#} else {#})"
| "fd_closed FreeAddrInfo = {#RAddrinfo#}"
| "fd_closed _ = {#}"

fun acquired :: "event \<Rightarrow> resource multiset" where
  "acquired (EvVoid _) = {#}"
| "acquired (EvStatus c st) = (if st = UCS_OK then got_by c else {#})"
| "acquired (EvCreate c st h) = (if st = UCS_OK then handle_of c h else {#})"
| "acquired (EvPost c _ r) = req_of r"
| "acquired (EvSock c r) = fd_of c r"
| "acquired (EvPrint _) = {#}"

fun released :: "event \<Rightarrow> resource multiset" where
  "released (EvVoid c) = released_by c"
| "released (EvStatus _ _) = {#}"
| "released (EvCreate _ _ _) = {#}"
| "released (EvPost c _ _) = released_by c"
| "released (EvSock c _) = fd_closed c"
| "released (EvPrint _) = {#}"

text \<open>
  The monitor: what is held after a trace, \<open>None\<close> once a handle was released that was not held
  (never acquired, or released before).
\<close>

definition monitor_step :: "resource multiset option \<Rightarrow> event \<Rightarrow> resource multiset option" where
  "monitor_step H e =
     (case H of
        None \<Rightarrow> None
      | Some M \<Rightarrow> if released e \<subseteq># M then Some (M - released e + acquired e) else None)"

definition held_after :: "event list \<Rightarrow> resource multiset option" where
  "held_after tr = foldl monitor_step (Some {#}) tr"

abbreviation held :: "('w, 'b) machine_scheme \<Rightarrow> resource multiset option" where
  "held s \<equiv> held_after (trace s)"

lemma held_after_append [monitor_simps, simp]:
  "held_after (tr @ es) = foldl monitor_step (held_after tr) es"
  by (simp add: held_after_def)

lemma held_after_Nil [simp]: "held_after [] = Some {#}"
  by (simp add: held_after_def)

text \<open>An event that neither acquires nor releases does not move the monitor.\<close>

lemma monitor_step_neutral [monitor_simps, simp]:
  "released e = {#} \<Longrightarrow> acquired e = {#} \<Longrightarrow> monitor_step H e = H"
  by (simp add: monitor_step_def split: option.split)

lemma monitor_step_acquire [monitor_simps]:
  "released e = {#} \<Longrightarrow> monitor_step (Some M) e = Some (M + acquired e)"
  by (simp add: monitor_step_def)

lemma monitor_step_release [monitor_simps]:
  "released e \<subseteq># M \<Longrightarrow> monitor_step (Some M) e = Some (M - released e + acquired e)"
  by (simp add: monitor_step_def)

section \<open>Loads and stores\<close>

lemma store_in_block [memory_simps]:
  "heap s p = Some bs \<Longrightarrow> off + length xs \<le> length bs \<Longrightarrow>
   store p off xs s = s\<lparr>heap := (heap s)(p \<mapsto> take off bs @ xs @ drop (off + length xs) bs)\<rparr>"
  by (simp add: store_def)

lemma load_in_block [memory_simps]:
  "heap s p = Some bs \<Longrightarrow> off + n \<le> length bs \<Longrightarrow> load p off n s = Some (take n (drop off bs))"
  by (simp add: load_def)

lemma memcpy_in_blocks [memory_simps]:
  "heap s src = Some xs \<Longrightarrow> soff + n \<le> length xs \<Longrightarrow>
   heap s dst = Some ds \<Longrightarrow> doff + n \<le> length ds \<Longrightarrow>
   memcpy dst doff src soff n s =
     s\<lparr>heap := (heap s)(dst \<mapsto> take doff ds @ take n (drop soff xs) @ drop (doff + n) ds)\<rparr>"
  by (simp add: memcpy_def load_def store_def)

lemma c_free_block [memory_simps]:
  "p \<noteq> 0 \<Longrightarrow> heap s p = Some bs \<Longrightarrow> c_free p s = s\<lparr>heap := (heap s)(p := None)\<rparr>"
  by (simp add: c_free_def)

section \<open>Frame lemmas\<close>

lemma load_cong: "heap s = heap t \<Longrightarrow> load p off n s = load p off n t"
  by (simp add: load_def)

lemma store_frame [frame_simps, simp]:
  "world (store p off xs s) = world s" "brk (store p off xs s) = brk s"
  "trace (store p off xs s) = trace s" "test_mem_type (store p off xs s) = test_mem_type s"
  by (auto simp: store_def split: option.splits)

lemma memcpy_frame [frame_simps, simp]:
  "world (memcpy p off q o' n s) = world s" "brk (memcpy p off q o' n s) = brk s"
  "trace (memcpy p off q o' n s) = trace s" "test_mem_type (memcpy p off q o' n s) = test_mem_type s"
  by (auto simp: memcpy_def split: option.splits)

lemma memset_frame [frame_simps, simp]:
  "world (memset p v n s) = world s" "brk (memset p v n s) = brk s"
  "trace (memset p v n s) = trace s" "test_mem_type (memset p v n s) = test_mem_type s"
  by (auto simp: memset_def)

lemma c_free_frame [frame_simps, simp]:
  "world (c_free p s) = world s" "brk (c_free p s) = brk s"
  "trace (c_free p s) = trace s" "test_mem_type (c_free p s) = test_mem_type s"
  by (auto simp: c_free_def split: option.splits)

lemma new_block_frame [frame_simps, simp]:
  "trace (snd (new_block bs s)) = trace s" "faults (snd (new_block bs s)) = faults s"
  "test_mem_type (snd (new_block bs s)) = test_mem_type s" "fst (new_block bs s) = brk s"
  "world (snd (new_block bs s)) = world s"
  by (auto simp: new_block_def)

lemma malloc_frame [frame_simps, simp]:
  "trace (snd (malloc E n s)) = trace s" "faults (snd (malloc E n s)) = faults s"
  "test_mem_type (snd (malloc E n s)) = test_mem_type s"
  by (auto simp: malloc_def Let_def split: prod.splits)

lemma calloc_frame [frame_simps, simp]:
  "trace (snd (calloc E m n s)) = trace s" "faults (snd (calloc E m n s)) = faults s"
  "test_mem_type (snd (calloc E m n s)) = test_mem_type s"
  by (auto simp: calloc_def Let_def split: prod.splits)

lemma apply_dma_frame [frame_simps, simp]:
  "world (apply_dma d s) = world s" "brk (apply_dma d s) = brk s"
  "trace (apply_dma d s) = trace s" "test_mem_type (apply_dma d s) = test_mem_type s"
  by (auto simp: apply_dma_def split: prod.splits)

lemma fold_apply_dma_frame [frame_simps, simp]:
  "world (fold apply_dma ds s) = world s" "brk (fold apply_dma ds s) = brk s"
  "trace (fold apply_dma ds s) = trace s" "test_mem_type (fold apply_dma ds s) = test_mem_type s"
  by (induction ds arbitrary: s) auto

lemma call_void_trace [simp]: "trace (call_void E c s) = trace s @ [EvVoid c]"
  by (simp add: call_void_def)

lemma call_status_trace:
  "call_status E c s = (st, s') \<Longrightarrow> trace s' = trace s @ [EvStatus c st]"
  by (auto simp: call_status_def split: prod.splits)

lemma call_create_trace:
  "call_create E c s = ((st, h), s') \<Longrightarrow> trace s' = trace s @ [EvCreate c st h]"
  by (auto simp: call_create_def split: prod.splits)

lemma call_post_trace:
  "call_post E c bytes s = (r, s') \<Longrightarrow> trace s' = trace s @ [EvPost c bytes r]"
  by (auto simp: call_post_def split: prod.splits)

lemma malloc_ok:
  assumes "\<And>k w. fst (alloc_ok E k w)"
  shows "malloc E n s = (brk s, s\<lparr>world := snd (alloc_ok E (unat n) (world s)),
    heap := (heap s)(brk s \<mapsto> replicate (unat n) None), brk := Suc (brk s)\<rparr>)"
  using assms [of "unat n" "world s"] by (simp add: malloc_def new_block_def split_beta)

section \<open>The shape of the heap\<close>

text \<open>Which blocks there are, and how long they are: what a store never changes.\<close>

definition heap_shape :: "('w, 'b) machine_scheme \<Rightarrow> nat \<Rightarrow> nat option" where
  "heap_shape s p = map_option length (heap s p)"

lemma heap_shape_cong: "heap t = heap s \<Longrightarrow> heap_shape t = heap_shape s"
  by (simp add: heap_shape_def fun_eq_iff)

lemma heap_shape_store [frame_simps, simp]: "heap_shape (store p off xs s) = heap_shape s"
  by (auto simp: heap_shape_def store_def fun_eq_iff split: option.splits)

lemma heap_shape_apply_dma [frame_simps, simp]: "heap_shape (apply_dma d s) = heap_shape s"
  by (auto simp: apply_dma_def split: prod.splits)

lemma heap_shape_fold_apply_dma [frame_simps, simp]:
  "heap_shape (fold apply_dma ds s) = heap_shape s"
  by (induction ds arbitrary: s) auto

section \<open>Operations on memory alone\<close>

text \<open>
  \<open>heap_only s t\<close>: \<open>t\<close> differs from \<open>s\<close> at most in the heap, the next block number, the
  faults and the world (which answers the allocator).
\<close>

definition heap_only :: "('w, 'b) machine_scheme \<Rightarrow> ('w, 'b) machine_scheme \<Rightarrow> bool" where
  "heap_only s t \<longleftrightarrow> (\<exists>w h b f. t = s\<lparr>world := w, heap := h, brk := b, faults := f\<rparr>)"

lemma heap_only_refl [simp, intro]: "heap_only s s"
  unfolding heap_only_def
  by (rule exI [of _ "world s"], rule exI [of _ "heap s"], rule exI [of _ "brk s"],
      rule exI [of _ "faults s"]) simp

lemma heap_only_trans [trans]: "heap_only s t \<Longrightarrow> heap_only t u \<Longrightarrow> heap_only s u"
  by (fastforce simp: heap_only_def)

lemma heap_only_upd [simp, intro]:
  "heap_only s (s\<lparr>world := w\<rparr>)" "heap_only s (s\<lparr>heap := h\<rparr>)" "heap_only s (s\<lparr>faults := f\<rparr>)"
  "heap_only s (s\<lparr>heap := h, brk := b\<rparr>)" "heap_only s (s\<lparr>world := w, heap := h, brk := b\<rparr>)"
  by (rule machine.equality | auto simp: heap_only_def intro!: exI)+

lemma heap_onlyD:
  assumes "heap_only s t" shows "trace t = trace s" "test_mem_type t = test_mem_type s"
  using assms by (auto simp: heap_only_def)

lemma heap_only_fault [simp, intro]: "heap_only s (fault f s)"
  by (simp add: fault_def)

lemma heap_only_store [simp, intro]: "heap_only s (store p off xs s)"
  by (simp add: store_def split: option.split)

lemma heap_only_memcpy [simp, intro]: "heap_only s (memcpy p off q o' n s)"
  by (simp add: memcpy_def split: option.split)

lemma heap_only_c_free [simp, intro]: "heap_only s (c_free p s)"
  by (simp add: c_free_def split: option.split)

lemma heap_only_malloc [simp, intro]: "heap_only s (snd (malloc E n s))"
  by (simp add: malloc_def new_block_def Let_def split: prod.split)

lemma heap_only_calloc [simp, intro]: "heap_only s (snd (calloc E m n s))"
  by (simp add: calloc_def new_block_def Let_def split: prod.split)

text \<open>Freeing removes a block from the shape, whether or not it was there.\<close>

lemma heap_shape_c_free:
  "heap_shape (c_free p s) = (if p = 0 then heap_shape s else (heap_shape s)(p := None))"
  by (auto simp: c_free_def heap_shape_def fun_eq_iff split: option.split)

lemma wf_heap_shape:
  "wf_heap s \<longleftrightarrow> 0 < brk s \<and> heap_shape s 0 = None \<and> (\<forall>p. heap_shape s p \<noteq> None \<longrightarrow> p < brk s)"
  by (simp add: wf_heap_def heap_shape_def)

section \<open>Relations that callbacks respect\<close>

text \<open>
  The contract between a program's callbacks and the code that waits by progressing a worker:
  a reflexive and transitive relation between states that a callback, a change of the world and
  the event of a progress call of one worker respect is respected by every loop that waits by
  progressing that worker.
\<close>

locale frame_relation =
  fixes R :: "('w, 'b) machine_scheme \<Rightarrow> ('w, 'b) machine_scheme \<Rightarrow> bool"
  assumes R_refl: "R s s"
    and R_trans: "R s t \<Longrightarrow> R t u \<Longrightarrow> R s u"

locale progress_frame = frame_relation R
  for R :: "('w, 'b) machine_scheme \<Rightarrow> ('w, 'b) machine_scheme \<Rightarrow> bool" +
  fixes hnd :: "'u \<Rightarrow> ('w, 'b) machine_scheme \<Rightarrow> ('w, 'b) machine_scheme" and wk :: nat
  assumes R_hnd: "R s (hnd u s)"
    and R_progress: "R s (emit (EvVoid (WorkerProgress wk)) (s\<lparr>world := w\<rparr>))"
begin

lemma fold_hnd: "R s (fold hnd us s)"
  by (rule fold_rel) (auto intro: R_refl R_trans R_hnd)

lemma progress_R: "R s (snd (ucp_worker_progress E hnd wk s))"
proof -
  obtain n us w where p: "u_progress E wk (world s) = ((n, us), w)"
    by (metis surj_pair)
  have "R s (emit (EvVoid (WorkerProgress wk)) (s\<lparr>world := w\<rparr>))" by (rule R_progress)
  then show ?thesis
    using fold_hnd R_trans by (auto simp: ucp_worker_progress_def p)
qed

lemma wait_R:
  "while_option b (\<lambda>s. snd (ucp_worker_progress E hnd wk s)) s = Some t \<Longrightarrow> R s t"
  by (rule while_option_rel [where R = R]) (auto intro: R_refl R_trans progress_R)

end

lemma heap_shape_emit [frame_simps, simp]: "heap_shape (emit e s) = heap_shape s"
  by (simp add: heap_shape_def fun_eq_iff)

lemma heap_shape_fault [frame_simps, simp]: "heap_shape (fault f s) = heap_shape s"
  by (simp add: heap_shape_def fun_eq_iff)

lemma wf_heap_none: "wf_heap s \<Longrightarrow> brk s \<le> p \<Longrightarrow> heap s p = None"
  unfolding wf_heap_def by (meson not_le)

lemmas calls_run [run_simps] =
  call_void_def call_status_def call_create_def call_post_def call_post_cb_def early_def apply_dma_def ucp_worker_progress_def
  ucp_request_check_status_def

end
