(* ===== verification/Ucp_Util.thy ===== *)
theory Ucp_Util
  imports Ucx_Calls
begin

text \<open>
  \<open>ucp_hello_world/ucp_util.h\<close>: closing an endpoint and waiting until the close request is
  complete. Both programs use it; the wait is shared with \<open>flush_ep\<close> of \<open>ucp_hello_world.c\<close>.
\<close>

section \<open>Waiting for a request\<close>

text \<open>\<open>do { ucp_worker_progress(w); status = check(req); } while (status == UCS_INPROGRESS)\<close>\<close>

definition progress_request :: "('w, 'u, 'e) env_scheme \<Rightarrow>
    ('u \<Rightarrow> ('w, 'b) machine_scheme \<Rightarrow> ('w, 'b) machine_scheme) \<Rightarrow> nat \<Rightarrow> nat \<Rightarrow>
    ('w, 'b) machine_scheme \<Rightarrow> (ucs_status \<times> ('w, 'b) machine_scheme) option" where
  "progress_request E hnd wk r s =
     do { s \<leftarrow> while_option (\<lambda>s. ucp_request_check_status E r s = UCS_INPROGRESS)
                (\<lambda>s. snd (ucp_worker_progress E hnd wk s))
                (snd (ucp_worker_progress E hnd wk s));
          Some (ucp_request_check_status E r s, s) }"

section \<open>Closing an endpoint\<close>

definition ep_close :: "('w, 'u, 'e) env_scheme \<Rightarrow>
    ('u \<Rightarrow> ('w, 'b) machine_scheme \<Rightarrow> ('w, 'b) machine_scheme) \<Rightarrow> nat \<Rightarrow> nat \<Rightarrow> bool \<Rightarrow>
    ('w, 'b) machine_scheme \<Rightarrow> ('w, 'b) machine_scheme option" where
  "ep_close E hnd wk ep force s =
     (let (close_req, s) = call_post E (EpClose ep force) [] s in
      case close_req of
        ReqPtr r \<Rightarrow>
          do { (status, s) \<leftarrow> progress_request E hnd wk r s;
               Some (call_void E (ReqFree r) s) }
      | _ \<Rightarrow> Some s)"

section \<open>What holds of the wait\<close>

lemma progress_request_done:
  "progress_request E hnd wk r s = Some (st, t) \<Longrightarrow>
   st = ucp_request_check_status E r t \<and> st \<noteq> UCS_INPROGRESS"
  by (auto simp: progress_request_def bind_eq_Some_conv dest: while_option_stop)

text \<open>The \<open>n\<close>-th state of a wait.\<close>

definition progressed :: "('w, 'u, 'e) env_scheme \<Rightarrow>
    ('u \<Rightarrow> ('w, 'b) machine_scheme \<Rightarrow> ('w, 'b) machine_scheme) \<Rightarrow> nat \<Rightarrow> nat \<Rightarrow>
    ('w, 'b) machine_scheme \<Rightarrow> ('w, 'b) machine_scheme" where
  "progressed E hnd wk n s = ((\<lambda>s. snd (ucp_worker_progress E hnd wk s)) ^^ n) s"

lemma while_option_returns_iff: "(\<exists>t. while_option b c s = Some t) \<longleftrightarrow> (\<exists>n. \<not> b ((c ^^ n) s))"
  by (auto simp: while_option_def)

lemma progress_request_returns_iff:
  "(\<exists>st t. progress_request E hnd wk r s = Some (st, t)) \<longleftrightarrow>
   (\<exists>n>0. ucp_request_check_status E r (progressed E hnd wk n s) \<noteq> UCS_INPROGRESS)"
proof -
  let ?c = "\<lambda>s. snd (ucp_worker_progress E hnd wk s)"
  let ?b = "\<lambda>s. ucp_request_check_status E r s = UCS_INPROGRESS"
  have "(\<exists>st t. progress_request E hnd wk r s = Some (st, t)) \<longleftrightarrow>
      (\<exists>t. while_option ?b ?c (?c s) = Some t)"
    by (auto simp: progress_request_def bind_eq_Some_conv)
  also have "\<dots> \<longleftrightarrow> (\<exists>n. \<not> ?b ((?c ^^ n) (?c s)))"
    by (rule while_option_returns_iff)
  also have "\<dots> \<longleftrightarrow> (\<exists>n. \<not> ?b (progressed E hnd wk (Suc n) s))"
    by (simp add: progressed_def funpow_Suc_right del: funpow.simps)
  also have "\<dots> \<longleftrightarrow> (\<exists>n>0. \<not> ?b (progressed E hnd wk n s))"
    by (metis gr0_conv_Suc)
  finally show ?thesis .
qed

context progress_frame
begin

lemma progress_request_R:
  assumes "progress_request E hnd wk r s = Some (st, t)"
  shows "R s t"
proof -
  from assms obtain t' where "while_option (\<lambda>s. ucp_request_check_status E r s = UCS_INPROGRESS)
      (\<lambda>s. snd (ucp_worker_progress E hnd wk s)) (snd (ucp_worker_progress E hnd wk s)) = Some t"
    by (auto simp: progress_request_def bind_eq_Some_conv)
  then have "R (snd (ucp_worker_progress E hnd wk s)) t" by (rule wait_R)
  with progress_R show ?thesis by (rule R_trans)
qed

text \<open>
  Closing splits into three steps: the call, a wait that the relation covers, and the release of
  the request, if there is one.
\<close>

lemma ep_close_cases:
  assumes "ep_close E hnd wk ep force s = Some t"
  obtains (immediate) req where "call_post E (EpClose ep force) [] s = (req, t)" "req_of req = {#}"
  | (waited) r s1 s2 where "call_post E (EpClose ep force) [] s = (ReqPtr r, s1)" "R s1 s2"
      "t = call_void E (ReqFree r) s2"
proof -
  obtain req s1 where post: "call_post E (EpClose ep force) [] s = (req, s1)"
    by (cases "call_post E (EpClose ep force) [] s")
  show thesis
  proof (cases req)
    case (ReqPtr r)
    with assms post obtain st s2 where "progress_request E hnd wk r s1 = Some (st, s2)"
        and "t = call_void E (ReqFree r) s2"
      by (auto simp: ep_close_def bind_eq_Some_conv)
    with ReqPtr post waited progress_request_R show thesis by blast
  qed (use assms post immediate in \<open>auto simp: ep_close_def\<close>)
qed

end

text \<open>The monitor over a close, for any program whose callbacks neither acquire nor release.\<close>

locale balanced_callbacks = progress_frame "\<lambda>s t. held t = held s" hnd wk
  for hnd :: "'u \<Rightarrow> ('w, 'b) machine_scheme \<Rightarrow> ('w, 'b) machine_scheme" and wk :: nat
begin

lemma ep_close_held:
  assumes close: "ep_close E hnd wk ep force s = Some t" and held: "held s = Some (add_mset (REp ep) M)"
  shows "held t = Some M"
  using close
proof (cases rule: ep_close_cases)
  case (immediate req)
  from call_post_trace [OF immediate(1)] held immediate(2) show ?thesis
    by (simp add: monitor_step_release)
next
  case (waited r s1 s2)
  from call_post_trace [OF waited(1)] held have "held s1 = Some (add_mset (RRequest r) M)"
    by (simp add: monitor_step_release)
  with waited(2) have "held s2 = Some (add_mset (RRequest r) M)" by simp
  with waited(3) show ?thesis by (simp add: monitor_step_release)
qed

end

lemmas ucp_util_run [run_simps] =
  progress_request_def ep_close_def

end
