(* ===== verification/Hello_World_Util.thy ===== *)
theory Hello_World_Util
  imports Ucp_Util
begin

text \<open>
  \<open>ucp_hello_world/hello_world_util.h\<close>, which both programs include: the memory functions that
  switch on \<open>test_mem_type\<close>, the generator of the test string, the parser of the \<open>-m\<close> option, and
  the TCP connection over which \<open>ucp_hello_world\<close> exchanges addresses.

  The build of the repository (\<open>meson.build\<close>) never defines \<open>HAVE_CUDA\<close>, so the code between
  \<open>#ifdef HAVE_CUDA\<close> and \<open>#endif\<close> is not compiled: every type but the host's falls into the
  \<open>default\<close> branch. The model is that of this build.
\<close>

section \<open>Memory by type\<close>

definition mem_type_malloc :: "('w, 'u, 'e) env_scheme \<Rightarrow> u64 \<Rightarrow> ('w, 'b) machine_scheme \<Rightarrow>
    nat \<times> ('w, 'b) machine_scheme" where
  "mem_type_malloc E n s =
     (case test_mem_type s of
        MEM_HOST \<Rightarrow> malloc E n s
      | _ \<Rightarrow> (0, s))"

definition mem_type_free :: "nat \<Rightarrow> ('w, 'b) machine_scheme \<Rightarrow> ('w, 'b) machine_scheme" where
  "mem_type_free p s =
     (case test_mem_type s of
        MEM_HOST \<Rightarrow> c_free p s
      | _ \<Rightarrow> s)"

definition mem_type_memcpy :: "nat \<Rightarrow> nat \<Rightarrow> nat \<Rightarrow> nat \<Rightarrow> nat \<Rightarrow> ('w, 'b) machine_scheme \<Rightarrow>
    ('w, 'b) machine_scheme" where
  "mem_type_memcpy dst doff src soff n s =
     (case test_mem_type s of
        MEM_HOST \<Rightarrow> memcpy dst doff src soff n s
      | _ \<Rightarrow> s)"

definition mem_type_memset :: "nat \<Rightarrow> byte \<Rightarrow> nat \<Rightarrow> ('w, 'b) machine_scheme \<Rightarrow>
    ('w, 'b) machine_scheme" where
  "mem_type_memset dst v n s =
     (case test_mem_type s of
        MEM_HOST \<Rightarrow> memset dst v n s
      | _ \<Rightarrow> s)"

text \<open>The argument \<open>mem_type\<close> is not looked at: the switch is on the static variable.\<close>

definition check_mem_type_support :: "mem_type \<Rightarrow> ('w, 'b) machine_scheme \<Rightarrow> bool" where
  "check_mem_type_support mem_type s =
     (case test_mem_type s of
        MEM_HOST \<Rightarrow> True
      | MEM_CUDA \<Rightarrow> False
      | MEM_CUDA_MANAGED \<Rightarrow> False
      | _ \<Rightarrow> False)"

definition parse_mem_type :: "string \<Rightarrow> ('w, 'b) machine_scheme \<Rightarrow> mem_type" where
  "parse_mem_type opt_arg s =
     (if opt_arg = ''host'' then MEM_HOST
      else if opt_arg = ''cuda'' \<and> check_mem_type_support MEM_CUDA s then MEM_CUDA
      else if opt_arg = ''cuda-managed'' \<and> check_mem_type_support MEM_CUDA_MANAGED s
           then MEM_CUDA_MANAGED
      else MEM_LAST)"

section \<open>The test string\<close>

text \<open>\<open>for (i = 0; i < (size - 1); ++i) tmp_str[i] = 'A' + (i % 26);\<close>\<close>

function fill_letters :: "nat \<Rightarrow> int \<Rightarrow> int \<Rightarrow> ('w, 'b) machine_scheme \<Rightarrow> ('w, 'b) machine_scheme" where
  "fill_letters p i n s =
     (if i < n
      then fill_letters p (i + 1) n (store p (nat i) [Some (word_of_int (65 + i mod 26))] s)
      else s)"
  by pat_completeness auto
termination
  by (relation "measure (\<lambda>(p, i, n, s). nat (n - i))") auto

declare fill_letters.simps [simp del]

text \<open>
  The \<open>int\<close> parameter \<open>size\<close> is a 32-bit word read as signed; \<open>calloc\<close> and \<open>memcpy\<close> take it
  converted to \<open>size_t\<close>.
\<close>

definition generate_test_string :: "('w, 'u, 'e) env_scheme \<Rightarrow> nat \<Rightarrow> nat \<Rightarrow> i32 \<Rightarrow>
    ('w, 'b) machine_scheme \<Rightarrow> int \<times> ('w, 'b) machine_scheme" where
  "generate_test_string E str off sz s =
     (let (tmp_str, s) = calloc E 1 (scast sz) s
      in if tmp_str = 0 then (-1, s)
         else let s = fill_letters tmp_str 0 (sint sz - 1) s;
                  s = mem_type_memcpy str off tmp_str 0 (unat (scast sz :: u64)) s
              in (0, c_free tmp_str s))"

text \<open>The string it is meant to write: \<open>A..Z\<close> round and round, and a NUL at the end.\<close>

definition letter :: "nat \<Rightarrow> byte" where
  "letter i = of_nat (65 + i mod 26)"

definition test_string :: "nat \<Rightarrow> byte list" where
  "test_string n = (if n = 0 then [] else map letter [0..<n - 1] @ [0])"

section \<open>The out-of-band connection\<close>

record ('w, 'u) net_env = "('w, 'u) env" +
  n_addrinfo :: "string option \<Rightarrow> string \<Rightarrow> family \<Rightarrow> 'w \<Rightarrow> (int \<times> family list) \<times> 'w"
  n_call :: "sock_call \<Rightarrow> 'w \<Rightarrow> int \<times> 'w"
  n_recv :: "int \<Rightarrow> u64 \<Rightarrow> 'w \<Rightarrow> (int \<times> byte list) \<times> 'w"

definition sock :: "('w, 'u, 'e) net_env_scheme \<Rightarrow> sock_call \<Rightarrow> ('w, 'b) machine_scheme \<Rightarrow>
    int \<times> ('w, 'b) machine_scheme" where
  "sock N c s = (let (r, w) = n_call N c (world s) in (r, emit (EvSock c r) (s\<lparr>world := w\<rparr>)))"

definition getaddrinfo :: "('w, 'u, 'e) net_env_scheme \<Rightarrow> string option \<Rightarrow> string \<Rightarrow> family \<Rightarrow>
    ('w, 'b) machine_scheme \<Rightarrow> (int \<times> family list) \<times> ('w, 'b) machine_scheme" where
  "getaddrinfo N server service af s =
     (let ((r, res), w) = n_addrinfo N server service af (world s)
      in ((r, res), emit (EvSock (GetAddrInfo server service af) r) (s\<lparr>world := w\<rparr>)))"

definition sock_recv :: "('w, 'u, 'e) net_env_scheme \<Rightarrow> int \<Rightarrow> u64 \<Rightarrow> ('w, 'b) machine_scheme \<Rightarrow>
    (int \<times> byte list) \<times> ('w, 'b) machine_scheme" where
  "sock_recv N fd n s =
     (let ((r, bs), w) = n_recv N fd n (world s)
      in ((r, bs), emit (EvSock (RecvBytes fd n) r) (s\<lparr>world := w\<rparr>)))"

text \<open>
  The loop over the addresses. The descriptor of the round before is a parameter because
  \<open>continue\<close> keeps what \<open>socket\<close> returned.
\<close>

fun connect_loop :: "('w, 'u, 'e) net_env_scheme \<Rightarrow> string option \<Rightarrow> family list \<Rightarrow> int \<Rightarrow>
    ('w, 'b) machine_scheme \<Rightarrow> int \<times> ('w, 'b) machine_scheme" where
  "connect_loop N server [] sockfd s = (sockfd, s)"
| "connect_loop N server (t # ts) _ s =
     (let (sockfd, s) = sock N (Socket t) s
      in if sockfd < 0 then connect_loop N server ts sockfd s
         else if server \<noteq> None then
           let (r, s) = sock N (Connect sockfd) s
           in if r = 0 then (sockfd, s)
              else let (_, s) = sock N (CloseFd sockfd) s in connect_loop N server ts (-1) s
         else
           let (r, s) = sock N (SetReuse sockfd) s
           in if r < 0 then let (_, s) = sock N (CloseFd sockfd) s in (-1, s)
              else
                let (r, s) = sock N (Bind sockfd) s
                in if r = 0 then
                     let (r, s) = sock N (Listen sockfd) s
                     in if r < 0 then let (_, s) = sock N (CloseFd sockfd) s in (-1, s)
                        else
                          let (connfd, s) = sock N (Accept sockfd) s;
                              (_, s) = sock N (CloseFd sockfd) s
                          in (connfd, s)
                   else let (_, s) = sock N (CloseFd sockfd) s in connect_loop N server ts (-1) s)"

definition connect_common :: "('w, 'u, 'e) net_env_scheme \<Rightarrow> string option \<Rightarrow> u16 \<Rightarrow> family \<Rightarrow>
    ('w, 'b) machine_scheme \<Rightarrow> int \<times> ('w, 'b) machine_scheme" where
  "connect_common N server port af s =
     (let service = snprintf_dec 8 (unat port);
          ((r, res), s) = getaddrinfo N server service af s
      in if r < 0 then (-1, s)
         else let (sockfd, s) = connect_loop N server res (-1) s;
                  (_, s) = sock N FreeAddrInfo s
              in (sockfd, s))"

text \<open>
  \<open>barrier\<close>: send four bytes, poll (running the progress callback each time) until the peer's
  bytes are there, receive them. The result is 0 when exactly four bytes came.
\<close>

definition barrier :: "('w, 'u, 'e) net_env_scheme \<Rightarrow> int \<Rightarrow>
    (('w, 'b) machine_scheme \<Rightarrow> ('w, 'b) machine_scheme) \<Rightarrow> ('w, 'b) machine_scheme \<Rightarrow>
    (int \<times> ('w, 'b) machine_scheme) option" where
  "barrier N oob_sock progress_cb s =
     (let (res, s) = sock N (SendBytes oob_sock [0, 0, 0, 0]) s
      in if res < 0 then Some (res, s)
         else do {
           (res, s) \<leftarrow> while_option (\<lambda>(res, s). res \<noteq> 1)
             (\<lambda>(_, s). let (res, s) = sock N (PollIn oob_sock) s in (res, progress_cb s))
             (let (res, s) = sock N (PollIn oob_sock) s in (res, progress_cb s));
           let ((res, _), s) = sock_recv N oob_sock 4 s;
           Some (if res = 4 then 0 else 1, s)
         })"

section \<open>What the generator writes\<close>

lemma letter_word: "65 + word_of_int (int i mod 26) = letter i"
proof -
  have "int i mod 26 = int (i mod 26)" by (simp add: zmod_int)
  then show ?thesis by (simp only: letter_def of_int_of_nat_eq) simp
qed

lemma fill_letters_block:
  "heap s p = Some bs \<Longrightarrow> i \<le> m \<Longrightarrow> m \<le> length bs \<Longrightarrow>
   fill_letters p (int i) (int m) s =
     s\<lparr>heap := (heap s)(p \<mapsto> take i bs @ map (Some \<circ> letter) [i..<m] @ drop m bs)\<rparr>"
proof (induction "m - i" arbitrary: i bs s)
  case 0
  then show ?case by (subst fill_letters.simps) (simp add: fun_upd_idem)
next
  case (Suc k)
  let ?bs = "take i bs @ [Some (letter i)] @ drop (Suc i) bs"
  let ?s = "s\<lparr>heap := (heap s)(p \<mapsto> ?bs)\<rparr>"
  have i: "i < m" using Suc.hyps(2) by simp
  have "fill_letters p (int i) (int m) s = fill_letters p (int (Suc i)) (int m) ?s"
    using i Suc.prems by (subst fill_letters.simps) (simp add: memory_simps letter_word add.commute [of _ 1])
  also have "\<dots> = ?s\<lparr>heap := (heap ?s)(p \<mapsto>
      take (Suc i) ?bs @ map (Some \<circ> letter) [Suc i..<m] @ drop m ?bs)\<rparr>"
    using Suc.prems i Suc.hyps(2) by (intro Suc.hyps(1)) auto
  also have "\<dots> = s\<lparr>heap := (heap s)(p \<mapsto> take i bs @ map (Some \<circ> letter) [i..<m] @ drop m bs)\<rparr>"
    using i Suc.prems by (simp add: upt_conv_Cons [OF i] take_Cons' drop_Cons' min_def)
  finally show ?case .
qed

lemma map_Some_test_string:
  "0 < n \<Longrightarrow> map Some (test_string n) = map (Some \<circ> letter) [0..<n - 1] @ [Some 0]"
  by (simp add: test_string_def)

lemma length_test_string [simp]: "length (test_string n) = n"
  by (simp add: test_string_def)

lemma letter_nonzero: "letter i \<noteq> 0"
proof -
  have "i mod 26 < 26" by simp
  then have "65 + i mod 26 < 256" by linarith
  then have "unat (of_nat (65 + i mod 26) :: byte) = 65 + i mod 26"
    by (simp only: unsigned_of_nat) (simp add: take_bit_nat_eq_self)
  then have "unat (letter i) \<noteq> 0" by (simp add: letter_def del: of_nat_add)
  then show ?thesis by auto
qed

lemma c_string_terminated: "0 \<notin> set xs \<Longrightarrow> c_string (map Some xs @ Some 0 # ys) = Some xs"
  by (induction xs) auto

lemma c_string_test_string: "0 < n \<Longrightarrow> c_string (map Some (test_string n)) = Some (map letter [0..<n - 1])"
  using c_string_terminated [of "map letter [0..<n - 1]" "[]"] letter_nonzero
  by (simp add: test_string_def image_iff del: map_map)

text \<open>The whole of \<open>generate_test_string\<close>, when \<open>calloc\<close> has memory.\<close>

lemma generate_test_string_ok:
  fixes s :: "('w, 'b) machine_scheme"
  assumes wf: "wf_heap s" and host: "test_mem_type s = MEM_HOST"
    and str: "heap s str = Some bs" and fits: "off + n \<le> length bs"
    and sz: "sint sz = int n" "0 < n"
    and ok: "alloc_ok E n (world s) = (True, w)"
  shows "generate_test_string E str off sz s =
    (0, s\<lparr>world := w, brk := Suc (brk s),
          heap := (heap s)(str \<mapsto> take off bs @ map Some (test_string n) @ drop (off + n) bs)\<rparr>)"
proof -
  have "sint sz < 2 ^ 31" using sint_lt [of sz] by simp
  then have n: "n < 2 ^ 31" using sz(1) by simp
  have "scast sz = (word_of_nat n :: u64)" using sz(1) by (simp add: scast_eq)
  with n have u: "unat (scast sz :: u64) = n"
    by (simp add: unsigned_of_nat take_bit_nat_eq_self)
  have fresh: "heap s (brk s) = None" "0 < brk s" "str \<noteq> brk s"
    using wf str by (auto simp: wf_heap_def)
  let ?tmp = "brk s"
  let ?s1 = "s\<lparr>world := w, heap := (heap s)(?tmp \<mapsto> replicate n (Some 0)), brk := Suc (brk s)\<rparr>"
  have c: "calloc E 1 (scast sz) s = (?tmp, ?s1)"
    using n ok by (simp add: calloc_def u new_block_def)
  have "sint sz - 1 = int (n - 1)" using sz by simp
  moreover have "fill_letters ?tmp (int 0) (int (n - 1)) ?s1 =
      ?s1\<lparr>heap := (heap ?s1)(?tmp \<mapsto> take 0 (replicate n (Some 0)) @
        map (Some \<circ> letter) [0..<n - 1] @ drop (n - 1) (replicate n (Some 0)))\<rparr>"
    using sz(2) by (intro fill_letters_block) auto
  ultimately have f: "fill_letters ?tmp 0 (sint sz - 1) ?s1 =
      s\<lparr>world := w, heap := (heap s)(?tmp \<mapsto> map Some (test_string n)), brk := Suc (brk s)\<rparr>"
    using sz(2) by (simp add: map_Some_test_string Suc_leI)
  show ?thesis
    using fresh str fits host
    by (simp add: generate_test_string_def c f u mem_type_memcpy_def memory_simps
        fun_upd_twist fun_upd_idem)
qed

section \<open>What the out-of-band connection holds\<close>

lemma held_sock: "sock N c s = (r, t) \<Longrightarrow> held t = monitor_step (held s) (EvSock c r)"
  by (auto simp: sock_def split: prod.splits)

lemma held_getaddrinfo:
  "getaddrinfo N server service af s = ((r, res), t) \<Longrightarrow>
   held t = monitor_step (held s) (EvSock (GetAddrInfo server service af) r)"
  by (auto simp: getaddrinfo_def split: prod.splits)

definition fd_held :: "int \<Rightarrow> resource multiset" where
  "fd_held fd = (if 0 \<le> fd then {#RFd fd#} else {#})"

lemma held_after_close:
  "sock N (CloseFd fd) s = (r, t) \<Longrightarrow> 0 \<le> fd \<Longrightarrow> held s = Some (add_mset (RFd fd) M) \<Longrightarrow> held t = Some M"
  by (simp add: held_sock monitor_step_release)

lemma connect_loop_held:
  "connect_loop N server ts fd0 s = (fd, t) \<Longrightarrow> fd0 < 0 \<Longrightarrow> held s = Some M \<Longrightarrow>
   held t = Some (M + fd_held fd)"
proof (induction N server ts fd0 s arbitrary: M rule: connect_loop.induct)
  case (1 N server sockfd s)
  then show ?case by (simp add: fd_held_def)
next
  case (2 N server a ts fd0 s)
  obtain fd1 s1 where s1: "sock N (Socket a) s = (fd1, s1)" by fastforce
  show ?case
  proof (cases "fd1 < 0")
    case True
    have "held s1 = Some M"
      using held_sock [OF s1] "2.prems"(3) True by (simp add: monitor_step_def)
    with True s1 2 show ?thesis by simp
  next
    case False
    have h1: "held s1 = Some (add_mset (RFd fd1) M)"
      using held_sock [OF s1] "2.prems"(3) False by (simp add: monitor_step_def)
    show ?thesis
    proof (cases server)
      case None
      obtain r2 s2 where s2: "sock N (SetReuse fd1) s1 = (r2, s2)" by fastforce
      obtain r3 s3 where s3: "sock N (Bind fd1) s2 = (r3, s3)" by fastforce
      obtain r4 s4 where s4: "sock N (Listen fd1) s3 = (r4, s4)" by fastforce
      have h: "held s2 = Some (add_mset (RFd fd1) M)" "held s3 = Some (add_mset (RFd fd1) M)"
          "held s4 = Some (add_mset (RFd fd1) M)"
        using h1 by (simp_all add: held_sock [OF s2] held_sock [OF s3] held_sock [OF s4])
      have IH: "\<And>r s5. sock N (CloseFd fd1) s3 = (r, s5) \<Longrightarrow> connect_loop N server ts (- 1) s5 = (fd, t) \<Longrightarrow>
          held t = Some (M + fd_held fd)" if "0 \<le> r2" "r3 \<noteq> 0"
        using "2.IH"(3) [OF s1 [symmetric] refl False _ s2 [symmetric] refl _ s3 [symmetric] refl] that False h None
        by (fastforce dest: held_after_close)
      show ?thesis
        using "2.prems" s1 s2 s3 s4 h False None IH
        by (auto simp: fd_held_def held_sock monitor_step_def split: prod.splits if_splits)
    next
      case (Some name)
      obtain r2 s2 where s2: "sock N (Connect fd1) s1 = (r2, s2)" by fastforce
      have h: "held s2 = Some (add_mset (RFd fd1) M)" using h1 by (simp add: held_sock [OF s2])
      show ?thesis
        using "2.prems" s1 s2 h False Some
          "2.IH"(2) [OF s1 [symmetric] refl False _ s2 [symmetric] refl]
        by (auto simp: fd_held_def split: prod.splits if_splits dest: held_after_close)
    qed
  qed
qed


text \<open>
  Whatever the calls answer, \<open>connect_common\<close> gives back the address list and every descriptor
  but the one it returns. \<open>getaddrinfo\<close> is assumed to report errors by negative numbers, as the
  GNU library documents (\<open>EAI_*\<close> are negative), since the code tests \<open>ret < 0\<close>.
\<close>

lemma connect_common_held:
  assumes eai: "\<And>node service af w r res w'. n_addrinfo N node service af w = ((r, res), w') \<Longrightarrow> r \<le> 0"
    and run: "connect_common N server port af s = (fd, t)" and held: "held s = Some M"
  shows "held t = Some (M + fd_held fd)"
proof -
  define service where "service = snprintf_dec 8 (unat port)"
  obtain r res s1 where g: "getaddrinfo N server service af s = ((r, res), s1)"
    by (metis surj_pair)
  obtain fd' s2 where l: "connect_loop N server res (-1) s1 = (fd', s2)" by fastforce
  obtain q s3 where f: "sock N FreeAddrInfo s2 = (q, s3)" by fastforce
  have r: "r \<le> 0" using g eai by (auto simp: getaddrinfo_def split: prod.splits)
  show ?thesis
  proof (cases "r < 0")
    case True
    then have "held s1 = Some M" using held_getaddrinfo [OF g] held by (simp add: monitor_step_def)
    with True run g show ?thesis by (simp add: connect_common_def service_def fd_held_def)
  next
    case False
    with r held_getaddrinfo [OF g] held have "held s1 = Some (add_mset RAddrinfo M)"
      by (simp add: monitor_step_def)
    then have "held s2 = Some (add_mset RAddrinfo M + fd_held fd')"
      using connect_loop_held [OF l] by simp
    then have "held s3 = Some (M + fd_held fd')"
      using held_sock [OF f] by (simp add: monitor_step_def)
    with False run g l f show ?thesis by (simp add: connect_common_def service_def)
  qed
qed

text \<open>The barrier holds nothing, and its result says whether the peer's four bytes came.\<close>

lemma barrier_result:
  assumes "barrier N fd cb s = Some (ret, t)"
  shows "ret = 0 \<longleftrightarrow> (\<exists>tr. trace t = tr @ [EvSock (RecvBytes fd 4) 4])"
  using assms
  by (auto simp: barrier_def sock_def sock_recv_def bind_eq_Some_conv split: prod.splits if_splits)

section \<open>What the memory functions leave alone\<close>

lemma mem_type_free_null [simp]: "mem_type_free 0 s = s"
  by (simp add: mem_type_free_def c_free_def split: mem_type.split)

lemma mem_type_free_heap_only [simp, intro]: "heap_only s (mem_type_free p s)"
  by (simp add: mem_type_free_def split: mem_type.split)

lemma mem_type_malloc_heap_only [simp, intro]: "heap_only s (snd (mem_type_malloc E n s))"
  by (simp add: mem_type_malloc_def split: mem_type.split)

lemma mem_type_memcpy_heap_only [simp, intro]: "heap_only s (mem_type_memcpy p off q o' n s)"
  by (simp add: mem_type_memcpy_def split: mem_type.split)

lemma mem_type_free_brk [simp]: "brk (mem_type_free p s) = brk s"
  by (simp add: mem_type_free_def split: mem_type.split)

lemma heap_shape_mem_type_memcpy [simp]:
  "heap_shape (mem_type_memcpy p off q o' n s) = heap_shape s"
  by (simp add: mem_type_memcpy_def memcpy_def split: mem_type.split option.split)

lemma brk_mem_type_memcpy [simp]: "brk (mem_type_memcpy p off q o' n s) = brk s"
  by (simp add: mem_type_memcpy_def split: mem_type.split)

lemma fill_letters_frame:
  "heap_only s (fill_letters p i n s) \<and> heap_shape (fill_letters p i n s) = heap_shape s \<and>
   brk (fill_letters p i n s) = brk s"
proof (induction p i n s rule: fill_letters.induct)
  case (1 p i n s)
  show ?case
  proof (cases "i < n")
    case True
    let ?t = "store p (nat i) [Some (word_of_int (65 + i mod 26))] s"
    from 1 [OF True] have "heap_only ?t (fill_letters p i n s)"
      by (subst fill_letters.simps) (simp add: True)
    then have "heap_only s (fill_letters p i n s)"
      by (rule heap_only_trans [OF heap_only_store])
    with 1 [OF True] True show ?thesis by (simp add: fill_letters.simps [of p i n s])
  next
    case False
    then show ?thesis by (simp add: fill_letters.simps [of p i n s])
  qed
qed

lemma calloc_shape:
  assumes "calloc E m n s = (p, t)" and "p \<noteq> 0"
  shows "\<exists>k. heap_shape t = (heap_shape s)(p \<mapsto> k)" "p = brk s" "brk t = Suc (brk s)"
  using assms
  by (auto simp: calloc_def new_block_def Let_def heap_shape_def fun_eq_iff split: prod.splits if_splits)

lemma calloc_none:
  assumes "calloc E m n s = (0, t)" and "wf_heap s"
  shows "heap_shape t = heap_shape s" "brk t = brk s"
  using assms
  by (auto simp: calloc_def new_block_def Let_def heap_shape_def fun_eq_iff wf_heap_def split: prod.splits if_splits)

text \<open>
  Whatever the size and whatever the allocator answers, the generator leaves no block behind and
  frees none but its own.
\<close>

lemma generate_test_string_heap_only:
  assumes "generate_test_string E str off sz s = (ret, t)" shows "heap_only s t"
proof -
  obtain p s1 where c: "calloc E 1 (scast sz) s = (p, s1)" by fastforce
  have ho: "heap_only s s1" using heap_only_calloc [of s E 1 "scast sz"] by (simp add: c)
  define s2 where "s2 = mem_type_memcpy str off p 0 (unat (scast sz :: u64)) (fill_letters p 0 (sint sz - 1) s1)"
  have "heap_only s1 s2"
    using fill_letters_frame [of s1 p 0 "sint sz - 1"] by (auto simp: s2_def intro: heap_only_trans)
  with ho have "heap_only s (c_free p s2)" by (metis heap_only_trans heap_only_c_free)
  with assms c ho show ?thesis by (auto simp: generate_test_string_def s2_def Let_def split: if_splits)
qed

lemma generate_test_string_frame:
  assumes gen: "generate_test_string E str off sz s = (ret, t)" and wf: "wf_heap s"
  shows "heap_only s t" "heap_shape t = heap_shape s" "brk s \<le> brk t" "wf_heap t" "ret = 0 \<or> ret = -1"
proof -
  obtain p s1 where c: "calloc E 1 (scast sz) s = (p, s1)" by fastforce
  have ho: "heap_only s s1" using heap_only_calloc [of s E 1 "scast sz"] by (simp add: c)
  have "heap_only s t \<and> heap_shape t = heap_shape s \<and> brk s \<le> brk t \<and> (ret = 0 \<or> ret = -1)"
  proof (cases "p = 0")
    case True
    with gen c ho calloc_none [OF c [unfolded True] wf] show ?thesis
      by (simp add: generate_test_string_def)
  next
    case False
    define s2 where "s2 = fill_letters p 0 (sint sz - 1) s1"
    define s3 where "s3 = mem_type_memcpy str off p 0 (unat (scast sz :: u64)) s2"
    have t: "t = c_free p s3" "ret = 0"
      using gen c False by (simp_all add: generate_test_string_def s2_def s3_def Let_def)
    obtain k where k: "heap_shape s1 = (heap_shape s)(p \<mapsto> k)" "p = brk s" "brk s1 = Suc (brk s)"
      using calloc_shape [OF c False] by blast
    have s3: "heap_only s1 s3" "heap_shape s3 = heap_shape s1" "brk s3 = brk s1"
      using fill_letters_frame [of s1 p 0 "sint sz - 1"]
      by (auto simp: s2_def s3_def intro: heap_only_trans)
    have "heap_shape t = heap_shape s"
      using t s3 k False wf_heap_fresh [OF wf]
      by (auto simp: heap_shape_c_free fun_eq_iff) (simp add: heap_shape_def)
    moreover have "heap_only s t" using gen by (rule generate_test_string_heap_only)
    ultimately show ?thesis using t k s3 by simp
  qed
  then show "heap_only s t" "heap_shape t = heap_shape s" "brk s \<le> brk t" "ret = 0 \<or> ret = -1" by auto
  with wf show "wf_heap t" by (auto simp: wf_heap_shape)
qed

lemmas util_run [run_simps] =
  mem_type_malloc_def mem_type_free_def mem_type_memcpy_def mem_type_memset_def
  check_mem_type_support_def parse_mem_type_def fill_letters.simps generate_test_string_def
  sock_def getaddrinfo_def sock_recv_def connect_common_def barrier_def

section \<open>A network in which every call succeeds\<close>

text \<open>
  One address is found, descriptors are the numbers the network hands out, everything asked for is
  received as zeros, and polling finds data.
\<close>

definition obliging_net :: "(nat, 'u) net_env" where
  "obliging_net = env.extend obliging_env
     \<lparr>n_addrinfo = (\<lambda>server service af w. ((0, [AF_INET]), w)),
      n_call = (\<lambda>c w. case c of Socket _ \<Rightarrow> (int w + 3, w + 1) | Accept _ \<Rightarrow> (int w + 3, w + 1)
                       | EpollCreate \<Rightarrow> (int w + 3, w + 1) | PollIn _ \<Rightarrow> (1, w) | EpollWait _ \<Rightarrow> (1, w)
                       | SendBytes _ bs \<Rightarrow> (int (length bs), w) | _ \<Rightarrow> (0, w)),
      n_recv = (\<lambda>fd n w. ((uint n, replicate (unat n) 0), w))\<rparr>"

lemma obliging_net_simps [simp]:
  "n_addrinfo obliging_net server service af w = ((0, [AF_INET]), w)"
  "n_call obliging_net (Socket af) w = (int w + 3, w + 1)" "n_call obliging_net (Accept fd) w = (int w + 3, w + 1)"
  "n_call obliging_net EpollCreate w = (int w + 3, w + 1)" "n_call obliging_net (EpollAdd fd efd) w = (0, w)"
  "n_call obliging_net (EpollWait fd) w = (1, w)" "n_call obliging_net (PollIn fd) w = (1, w)"
  "n_call obliging_net (SendBytes fd bs) w = (int (length bs), w)" "n_call obliging_net (Connect fd) w = (0, w)"
  "n_call obliging_net (SetReuse fd) w = (0, w)" "n_call obliging_net (Bind fd) w = (0, w)"
  "n_call obliging_net (Listen fd) w = (0, w)" "n_call obliging_net (CloseFd fd) w = (0, w)"
  "n_call obliging_net FreeAddrInfo w = (0, w)"
  "n_recv obliging_net fd n w = ((uint n, replicate (unat n) 0), w)"
  by (simp_all add: obliging_net_def env.defs)

section \<open>Properties\<close>

text \<open>
  \<open>generate_test_string\<close> writes the letters \<open>A\<close> to \<open>Z\<close> round and round and a final NUL, \<open>size\<close>
  bytes in all, and nothing else: the bytes around stay, the temporary buffer is gone, no fault
  happens.
\<close>

theorem generate_test_string_writes:
  fixes s :: "('w, 'b) machine_scheme"
  assumes "wf_heap s" and "test_mem_type s = MEM_HOST"
    and "heap s str = Some bs" and "off + n \<le> length bs" and "sint sz = int n" "0 < n"
    and "alloc_ok E n (world s) = (True, w)"
  shows "generate_test_string E str off sz s =
    (0, s\<lparr>world := w, brk := Suc (brk s),
          heap := (heap s)(str \<mapsto> take off bs @ map Some (map letter [0..<n - 1] @ [0]) @ drop (off + n) bs)\<rparr>)"
  using generate_test_string_ok [OF assms] assms(6) by (simp add: test_string_def)

definition idle_process :: "'w \<Rightarrow> 'w machine" where
  "idle_process w = \<lparr>world = w, heap = (\<lambda>_. None), brk = 1, faults = [], trace = [], test_mem_type = MEM_HOST\<rparr>"

definition one_block :: "byte option list \<Rightarrow> unit machine" where
  "one_block bs = \<lparr>world = (), heap = [1 \<mapsto> bs], brk = 2, faults = [], trace = [], test_mem_type = MEM_HOST\<rparr>"

theorem generate_test_string_writes_witness:
  "heap (snd (generate_test_string (obliging_env :: (unit, unit) env) 1 1 3 (one_block [Some 7, None, None, None, Some 8]))) 1 =
   Some [Some 7, Some 65, Some 66, Some 0, Some 8]"
proof -
  let ?s = "one_block [Some 7, None, None, None, Some 8]"
  have "generate_test_string (obliging_env :: (unit, unit) env) 1 1 3 ?s =
    (0, ?s\<lparr>world := (), brk := Suc (brk ?s), heap := (heap ?s)(1 \<mapsto> take 1 [Some 7, None, None, None, Some 8] @
       map Some (map letter [0..<3 - 1] @ [0]) @ drop (1 + 3) [Some 7, None, None, None, Some 8])\<rparr>)"
    by (rule generate_test_string_writes) (simp_all add: one_block_def wf_heap_def)
  then show ?thesis by (simp add: letter_def upt_rec)
qed

text \<open>
  The out-of-band connection gives back the address list and every socket but the one it returns,
  whichever call fails, on the client and on the server side; on failure it holds nothing.
  (\<open>getaddrinfo\<close> reports errors by numbers that are not positive.)
\<close>

theorem connect_common_keeps_only_the_result:
  assumes "\<And>node service af w r res w'. n_addrinfo N node service af w = ((r, res), w') \<Longrightarrow> r \<le> 0"
    and "connect_common N server port af s = (fd, t)" and "held s = Some M"
  shows "held t = Some (M + (if 0 \<le> fd then {#RFd fd#} else {#}))"
  using connect_common_held [OF assms] by (simp add: fd_held_def)

theorem connect_common_keeps_only_the_result_witness:
  "held (snd (connect_common (obliging_net :: (nat, unit) net_env) None 13337 AF_INET
     (idle_process 0))) = Some {#RFd 4#}"
proof -
  let ?s = "idle_process 0 :: nat machine"
  let ?N = "obliging_net :: (nat, unit) net_env"
  obtain fd t where r: "connect_common ?N None 13337 AF_INET ?s = (fd, t)" by fastforce
  moreover have "fst (connect_common ?N None 13337 AF_INET ?s) = 4"
    by (simp add: run_simps idle_process_def cong: run_congs)
  ultimately have "fd = 4" by simp
  moreover have "held t = Some ({#} + (if 0 \<le> fd then {#RFd fd#} else {#}))"
    by (rule connect_common_keeps_only_the_result [OF _ r]) (simp_all add: idle_process_def)
  ultimately show ?thesis by (simp add: r)
qed

text \<open>
  The barrier returns 0 only after exactly four bytes of the peer have been received on its
  socket, as its last action; every other way out gives another value.
\<close>

lemma barrier_zero_iff_four_bytes:
  assumes "barrier N fd cb s = Some (ret, t)"
  shows "ret = 0 \<longleftrightarrow> (\<exists>tr. trace t = tr @ [EvSock (RecvBytes fd 4) 4])"
  by (rule barrier_result [OF assms])

lemma barrier_zero_iff_four_bytes_witness:
  "\<exists>t tr. barrier (obliging_net :: (nat, unit) net_env) 5 (\<lambda>s. s) (idle_process 0) = Some (0, t) \<and>
     trace t = tr @ [EvSock (RecvBytes 5 4) 4]"
proof -
  have "map_option fst (barrier (obliging_net :: (nat, unit) net_env) 5 (\<lambda>s. s) (idle_process 0)) = Some 0"
    by (simp add: run_simps idle_process_def cong: run_congs)
  from map_fst_Some [OF this] obtain t where
      t: "barrier (obliging_net :: (nat, unit) net_env) 5 (\<lambda>s. s) (idle_process 0) = Some (0, t)" ..
  with barrier_zero_iff_four_bytes [OF t] show ?thesis by blast
qed

end
