(* ===== verification/Cs_State.thy ===== *)
theory Cs_State
  imports Hello_World_Util
begin

text \<open>
  The state of \<open>ucp_hello_world/ucp_client_server.c\<close>, its buffers and its callbacks.

  The static variables of the file are fields of the record \<open>cs\<close>, which extends the process
  state. A call of one of the three \<open>send_recv\<close> functions owns a stack frame with the iov array
  (\<open>alloca\<close>) and the request context \<open>ctx\<close>; both are reached by pointer from callbacks, so live
  frames are kept in the state under a number of their own, and a callback that reaches a frame
  that is gone is a fault.
\<close>

section \<open>State\<close>

record frame =
  fr_iov :: "iov list"
  fr_complete :: int

record 'w cs = "'w machine" +
  test_string_length :: u64
  iov_cnt :: u64
  server_port :: u16
  ai_family :: family
  num_iterations :: i32
  connection_closed :: int
  am_complete :: i32
  am_is_rndv :: int
  am_desc :: nat
  am_recv_buf :: "nat option"
  am_last :: i32
  conn_request :: "nat option"
  cs_listener :: nat
  frames :: "nat \<Rightarrow> frame option"
  next_frame :: nat

text \<open>The initial values of the static variables, and an empty process around them.\<close>

definition cs_init :: "'w \<Rightarrow> 'w cs" where
  "cs_init w =
     \<lparr>world = w, heap = (\<lambda>_. None), brk = 1, faults = [], trace = [], test_mem_type = MEM_HOST,
      test_string_length = 16, iov_cnt = 1, server_port = 13337, ai_family = AF_INET,
      num_iterations = 1, connection_closed = 1, am_complete = 0, am_is_rndv = 0, am_desc = 0,
      am_recv_buf = None, am_last = 0, conn_request = None, cs_listener = 0,
      frames = (\<lambda>_. None), next_frame = 0\<rparr>"

datatype send_recv_type = SEND_RECV_STREAM | SEND_RECV_TAG | SEND_RECV_AM | SEND_RECV_OTHER nat

abbreviation SEND_RECV_DEFAULT :: send_recv_type where
  "SEND_RECV_DEFAULT \<equiv> SEND_RECV_STREAM"

text \<open>What an active message brings: the data itself, or a rendezvous descriptor and a length.\<close>

datatype am_data = AmEager "byte list" | AmRndv nat u64

text \<open>
  What \<open>ucp_worker_progress\<close> may do to the program: write received bytes to a posted buffer, or
  run one of the callbacks the program has registered.
\<close>

datatype cs_upcall =
    UpWrite dma
  | UpSendCb "nat option" ucs_status
  | UpTagRecvCb "nat option" ucs_status
  | UpStreamRecvCb "nat option" ucs_status
  | UpAmRecvCb "nat option" ucs_status
  | UpErrCb ucs_status
  | UpConnRequest nat
  | UpAmData u64 am_data

section \<open>Buffers\<close>

text \<open>
  An array of \<open>iov_cnt\<close> entries is a list of that length: \<open>alloca\<close> followed by \<open>memset\<close>, and
  the loops over \<open>idx < iov_cnt\<close> are recursions over the list.
\<close>

definition zero_iov :: "'w cs \<Rightarrow> iov list" where
  "zero_iov s = replicate (unat (iov_cnt s)) \<lparr>iov_buffer = 0, iov_length = 0\<rparr>"

fun buffer_free :: "iov list \<Rightarrow> 'w cs \<Rightarrow> 'w cs" where
  "buffer_free [] s = s"
| "buffer_free (v # vs) s = buffer_free vs (mem_type_free (iov_buffer v) s)"

text \<open>\<open>buffer_malloc\<close>: \<open>done\<close> are the entries before \<open>idx\<close>, the rest is still zero.\<close>

fun buffer_malloc_from :: "('w, 'u, 'e) env_scheme \<Rightarrow> iov list \<Rightarrow> iov list \<Rightarrow> 'w cs \<Rightarrow>
    int \<times> iov list \<times> 'w cs" where
  "buffer_malloc_from E before [] s = (0, before, s)"
| "buffer_malloc_from E before (v # vs) s =
     (let len = test_string_length s;
          (p, s) = mem_type_malloc E len s;
          v = v\<lparr>iov_length := len, iov_buffer := p\<rparr>
      in if p = 0 then (-1, before @ v # vs, buffer_free (before @ v # vs) s)
         else buffer_malloc_from E (before @ [v]) vs s)"

definition buffer_malloc :: "('w, 'u, 'e) env_scheme \<Rightarrow> iov list \<Rightarrow> 'w cs \<Rightarrow> int \<times> iov list \<times> 'w cs" where
  "buffer_malloc E iov s = buffer_malloc_from E [] iov s"

fun fill_buffer :: "('w, 'u, 'e) env_scheme \<Rightarrow> iov list \<Rightarrow> 'w cs \<Rightarrow> int \<times> 'w cs" where
  "fill_buffer E [] s = (0, s)"
| "fill_buffer E (v # vs) s =
     (let (ret, s) = generate_test_string E (iov_buffer v) 0 (ucast (iov_length v)) s
      in if ret \<noteq> 0 then (-1, s) else fill_buffer E vs s)"

section \<open>Callbacks\<close>

definition common_cb :: "nat option \<Rightarrow> 'w cs \<Rightarrow> 'w cs" where
  "common_cb user_data s =
     (case user_data of
        None \<Rightarrow> s
      | Some ctx \<Rightarrow>
          (case frames s ctx of
             None \<Rightarrow> fault (DeadFrame ctx) s
           | Some fr \<Rightarrow> s\<lparr>frames := (frames s)(ctx \<mapsto> fr\<lparr>fr_complete := 1\<rparr>)\<rparr>))"

definition tag_recv_cb :: "nat option \<Rightarrow> 'w cs \<Rightarrow> 'w cs" where
  "tag_recv_cb user_data s = common_cb user_data s"

definition stream_recv_cb :: "nat option \<Rightarrow> 'w cs \<Rightarrow> 'w cs" where
  "stream_recv_cb user_data s = common_cb user_data s"

definition am_recv_cb :: "nat option \<Rightarrow> 'w cs \<Rightarrow> 'w cs" where
  "am_recv_cb user_data s = common_cb user_data s"

definition send_cb :: "nat option \<Rightarrow> 'w cs \<Rightarrow> 'w cs" where
  "send_cb user_data s = common_cb user_data s"

definition err_cb :: "ucs_status \<Rightarrow> 'w cs \<Rightarrow> 'w cs" where
  "err_cb status s = s\<lparr>connection_closed := 1\<rparr>"

text \<open>
  The copy loop of the active message callback: entry after entry takes its \<open>length\<close> bytes from
  the message, which the library owns.
\<close>

fun copy_data :: "iov list \<Rightarrow> byte list \<Rightarrow> nat \<Rightarrow> 'w cs \<Rightarrow> 'w cs" where
  "copy_data [] data off s = s"
| "copy_data (v # vs) data off s =
     (let n = unat (iov_length v);
          s = (case test_mem_type s of
                 MEM_HOST \<Rightarrow>
                   if off + n \<le> length data
                   then store (iov_buffer v) 0 (map Some (take n (drop off data))) s
                   else fault (BadLoad 0) s
               | _ \<Rightarrow> s)
      in copy_data vs data (off + n) s)"

fun am_length :: "am_data \<Rightarrow> u64" where
  "am_length (AmEager data) = of_nat (length data)"
| "am_length (AmRndv desc n) = n"

definition ucp_am_data_cb :: "u64 \<Rightarrow> am_data \<Rightarrow> 'w cs \<Rightarrow> ucs_status \<times> 'w cs" where
  "ucp_am_data_cb header_length data s =
     (if am_length data \<noteq> iov_cnt s * test_string_length s then (UCS_OK, s)
      else
        let s = s\<lparr>am_complete := am_complete s + 1\<rparr>
        in case data of
             AmRndv desc _ \<Rightarrow> (UCS_INPROGRESS, s\<lparr>am_is_rndv := 1, am_desc := desc\<rparr>)
           | AmEager bytes \<Rightarrow>
               let s = s\<lparr>am_is_rndv := 0\<rparr>
               in (UCS_OK,
                   case am_recv_buf s of
                     None \<Rightarrow> fault (BadStore 0) s
                   | Some f \<Rightarrow>
                       (case frames s f of
                          None \<Rightarrow> fault (DeadFrame f) s
                        | Some fr \<Rightarrow> copy_data (fr_iov fr) bytes 0 s)))"

text \<open>
  A connection request: kept when the server has none, rejected otherwise. The query only serves
  a line of output.
\<close>

definition server_conn_handle_cb :: "('w, 'u, 'e) env_scheme \<Rightarrow> nat \<Rightarrow> 'w cs \<Rightarrow> 'w cs" where
  "server_conn_handle_cb E conn s =
     (let (_, s) = call_status E (ConnQuery conn) s
      in case conn_request s of
           None \<Rightarrow> s\<lparr>conn_request := Some conn\<rparr>
         | Some _ \<Rightarrow> snd (call_status E (ListenerReject (cs_listener s) conn) s))"

fun cs_dispatch :: "('w, 'u, 'e) env_scheme \<Rightarrow> cs_upcall \<Rightarrow> 'w cs \<Rightarrow> 'w cs" where
  "cs_dispatch E (UpWrite d) s = apply_dma d s"
| "cs_dispatch E (UpSendCb user_data status) s = send_cb user_data s"
| "cs_dispatch E (UpTagRecvCb user_data status) s = tag_recv_cb user_data s"
| "cs_dispatch E (UpStreamRecvCb user_data status) s = stream_recv_cb user_data s"
| "cs_dispatch E (UpAmRecvCb user_data status) s = am_recv_cb user_data s"
| "cs_dispatch E (UpErrCb status) s = err_cb status s"
| "cs_dispatch E (UpConnRequest conn) s = server_conn_handle_cb E conn s"
| "cs_dispatch E (UpAmData header_length data) s = snd (ucp_am_data_cb header_length data s)"

abbreviation cs_progress :: "('w, cs_upcall, 'e) env_scheme \<Rightarrow> nat \<Rightarrow> 'w cs \<Rightarrow> 'w cs" where
  "cs_progress E wk s \<equiv> snd (ucp_worker_progress E (cs_dispatch E) wk s)"

section \<open>What a callback leaves alone\<close>

definition frame_iovs :: "'w cs \<Rightarrow> nat \<Rightarrow> iov list option" where
  "frame_iovs s f = map_option fr_iov (frames s f)"

text \<open>
  Everything of the state but the trace, the world, the contents of the blocks, the faults, and
  the fields the callbacks are there to set.
\<close>

definition cs_core :: "'w cs \<Rightarrow> _" where
  "cs_core s =
     ((heap_shape s, brk s, test_mem_type s),
      (test_string_length s, iov_cnt s, server_port s, ai_family s, num_iterations s),
      (am_recv_buf s, am_last s, cs_listener s, frame_iovs s, next_frame s))"

definition cs_view :: "'w cs \<Rightarrow> _" where
  "cs_view s = (held s, cs_core s)"

definition cs_frame :: "'w cs \<Rightarrow> 'w cs \<Rightarrow> bool" where
  "cs_frame s t \<longleftrightarrow> cs_view t = cs_view s"

lemma cs_frame_refl: "cs_frame s s"
  by (simp add: cs_frame_def)

lemma cs_frame_trans: "cs_frame s t \<Longrightarrow> cs_frame t u \<Longrightarrow> cs_frame s u"
  by (simp add: cs_frame_def)

lemma cs_frameD:
  assumes "cs_frame s t"
  shows "held t = held s" "heap_shape t = heap_shape s" "brk t = brk s"
    "test_mem_type t = test_mem_type s" "test_string_length t = test_string_length s"
    "iov_cnt t = iov_cnt s" "server_port t = server_port s" "ai_family t = ai_family s"
    "num_iterations t = num_iterations s" "am_recv_buf t = am_recv_buf s" "am_last t = am_last s"
    "cs_listener t = cs_listener s" "frame_iovs t = frame_iovs s" "next_frame t = next_frame s"
  using assms by (simp_all add: cs_frame_def cs_view_def cs_core_def)

lemma emit_cs [frame_simps, simp]:
  "test_string_length (emit e s) = test_string_length s" "iov_cnt (emit e s) = iov_cnt s"
  "server_port (emit e s) = server_port s" "ai_family (emit e s) = ai_family s"
  "num_iterations (emit e s) = num_iterations s" "connection_closed (emit e s) = connection_closed s"
  "am_complete (emit e s) = am_complete s" "am_is_rndv (emit e s) = am_is_rndv s"
  "am_desc (emit e s) = am_desc s" "am_recv_buf (emit e s) = am_recv_buf s"
  "am_last (emit e s) = am_last s" "conn_request (emit e s) = conn_request s"
  "cs_listener (emit e s) = cs_listener s" "frames (emit e s) = frames s"
  "next_frame (emit e s) = next_frame s"
  by (simp_all add: emit_def)

lemma fault_cs [frame_simps, simp]:
  "test_string_length (fault e s) = test_string_length s" "iov_cnt (fault e s) = iov_cnt s"
  "server_port (fault e s) = server_port s" "ai_family (fault e s) = ai_family s"
  "num_iterations (fault e s) = num_iterations s" "connection_closed (fault e s) = connection_closed s"
  "am_complete (fault e s) = am_complete s" "am_is_rndv (fault e s) = am_is_rndv s"
  "am_desc (fault e s) = am_desc s" "am_recv_buf (fault e s) = am_recv_buf s"
  "am_last (fault e s) = am_last s" "conn_request (fault e s) = conn_request s"
  "cs_listener (fault e s) = cs_listener s" "frames (fault e s) = frames s"
  "next_frame (fault e s) = next_frame s"
  by (simp_all add: fault_def)

lemma cs_frame_fault: "cs_frame s (fault f s)"
  by (simp add: cs_frame_def cs_view_def cs_core_def frame_iovs_def fun_eq_iff heap_shape_def)

lemma cs_frame_store: "cs_frame s (store p off xs s)"
  by (auto simp: cs_frame_def cs_view_def cs_core_def store_def frame_iovs_def heap_shape_def fun_eq_iff
      split: option.split)

lemma cs_frame_apply_dma: "cs_frame s (apply_dma d s)"
  by (cases d) (simp add: apply_dma_def cs_frame_store)

lemma cs_frame_common_cb: "cs_frame s (common_cb user_data s)"
  by (auto simp: common_cb_def cs_frame_def cs_view_def cs_core_def frame_iovs_def heap_shape_def fun_eq_iff
      split: option.split)

lemma cs_frame_copy_data: "cs_frame s (copy_data vs data off s)"
proof (induction vs data off s rule: copy_data.induct)
  case (1 data off s)
  then show ?case by (simp add: cs_frame_refl)
next
  case (2 v vs data off s)
  define s' where "s' = (case test_mem_type s of
                 MEM_HOST \<Rightarrow>
                   if off + unat (iov_length v) \<le> length data
                   then store (iov_buffer v) 0 (map Some (take (unat (iov_length v)) (drop off data))) s
                   else fault (BadLoad 0) s
               | _ \<Rightarrow> s)"
  have "cs_frame s s'"
    by (auto simp: s'_def cs_frame_store cs_frame_fault cs_frame_refl split: mem_type.split)
  moreover have "cs_frame s' (copy_data vs data (off + unat (iov_length v)) s')"
    by (rule "2.IH") (simp_all add: s'_def)
  moreover have "copy_data (v # vs) data off s = copy_data vs data (off + unat (iov_length v)) s'"
    by (simp only: copy_data.simps Let_def s'_def)
  ultimately show ?case by (auto intro: cs_frame_trans)
qed

lemma cs_frame_am_data_cb: "cs_frame s (snd (ucp_am_data_cb hl data s))"
proof -
  have upd: "cs_frame s (s\<lparr>am_complete := c, am_is_rndv := r, am_desc := d\<rparr>)" for c r d
    by (simp add: cs_frame_def cs_view_def cs_core_def heap_shape_def frame_iovs_def fun_eq_iff)
  have upd': "cs_frame s (s\<lparr>am_complete := c, am_is_rndv := r\<rparr>)" for c r
    by (simp add: cs_frame_def cs_view_def cs_core_def heap_shape_def frame_iovs_def fun_eq_iff)
  show ?thesis
    by (auto simp: ucp_am_data_cb_def Let_def cs_frame_refl upd
        intro: cs_frame_trans [OF upd'] cs_frame_fault cs_frame_copy_data
        split: am_data.split option.split)
qed

lemma cs_frame_conn_cb: "cs_frame s (server_conn_handle_cb E conn s)"
  by (auto simp: server_conn_handle_cb_def call_status_def cs_frame_def cs_view_def cs_core_def heap_shape_def
      frame_iovs_def fun_eq_iff split: prod.split option.split)

lemma cs_frame_dispatch: "cs_frame s (cs_dispatch E u s)"
  by (cases u)
    (simp_all add: cs_frame_apply_dma cs_frame_common_cb send_cb_def tag_recv_cb_def
      stream_recv_cb_def am_recv_cb_def cs_frame_am_data_cb cs_frame_conn_cb err_cb_def,
     simp add: cs_frame_def cs_view_def cs_core_def heap_shape_def frame_iovs_def fun_eq_iff)

interpretation cs: progress_frame cs_frame "cs_dispatch E" wk for E wk
  by unfold_locales
    (rule cs_frame_refl, erule (1) cs_frame_trans, rule cs_frame_dispatch,
     simp add: cs_frame_def cs_view_def cs_core_def heap_shape_def frame_iovs_def fun_eq_iff)

interpretation cs_held: balanced_callbacks "cs_dispatch E" wk for E wk
  by unfold_locales (auto simp: cs_frameD [OF cs_frame_dispatch])

section \<open>Buffers: what they allocate and release\<close>

lemma heap_only_cs:
  assumes "heap_only s (t :: 'w cs)"
  shows "test_string_length t = test_string_length s" "iov_cnt t = iov_cnt s"
    "server_port t = server_port s" "ai_family t = ai_family s" "num_iterations t = num_iterations s"
    "connection_closed t = connection_closed s" "am_complete t = am_complete s"
    "am_is_rndv t = am_is_rndv s" "am_desc t = am_desc s" "am_recv_buf t = am_recv_buf s"
    "am_last t = am_last s" "conn_request t = conn_request s" "cs_listener t = cs_listener s"
    "frames t = frames s" "next_frame t = next_frame s"
  using assms by (auto simp: heap_only_def)

lemma buffer_free_frame: "heap_only s (buffer_free vs s) \<and> brk (buffer_free vs s) = brk s"
proof (induction vs arbitrary: s)
  case Nil
  show ?case by simp
next
  case (Cons v vs)
  from Cons [of "mem_type_free (iov_buffer v) s"] show ?case
    by (auto intro: heap_only_trans [OF mem_type_free_heap_only])
qed

lemma heap_shape_buffer_free:
  "test_mem_type s = MEM_HOST \<Longrightarrow>
   heap_shape (buffer_free vs s) =
     (\<lambda>p. if p \<noteq> 0 \<and> p \<in> iov_buffer ` set vs then None else heap_shape s p)"
proof (induction vs arbitrary: s)
  case Nil
  show ?case by (simp add: fun_eq_iff)
next
  case (Cons v vs)
  have "test_mem_type (mem_type_free (iov_buffer v) s) = MEM_HOST"
    using Cons.prems heap_onlyD(2) [OF mem_type_free_heap_only] by metis
  then show ?case
    using Cons.IH [of "mem_type_free (iov_buffer v) s"] Cons.prems
    by (auto simp: mem_type_free_def heap_shape_c_free fun_eq_iff)
qed

text \<open>The array \<open>buffer_malloc\<close> fills: consecutive new blocks of the same length.\<close>

definition fresh_iov :: "nat \<Rightarrow> nat \<Rightarrow> u64 \<Rightarrow> iov list" where
  "fresh_iov b n len = map (\<lambda>i. \<lparr>iov_buffer = b + i, iov_length = len\<rparr>) [0..<n]"

lemma fresh_iov_Suc: "fresh_iov b (Suc n) len = \<lparr>iov_buffer = b, iov_length = len\<rparr> # fresh_iov (Suc b) n len"
  by (simp add: fresh_iov_def upt_conv_Cons map_Suc_upt [symmetric] del: upt_Suc)

lemma buffers_fresh_iov: "iov_buffer ` set (fresh_iov b n len) = {b..<b + n}"
  by (auto simp: fresh_iov_def image_image image_iff Bex_def intro!: exI [of _ "_ - b"])

lemma length_fresh_iov [simp]: "length (fresh_iov b n len) = n"
  by (simp add: fresh_iov_def)

lemma iov_upd: "v\<lparr>iov_length := l, iov_buffer := b\<rparr> = \<lparr>iov_buffer = b, iov_length = l\<rparr>"
  by (cases v) simp

lemma fresh_iov_append:
  "fresh_iov b k len @ [\<lparr>iov_buffer = b + k, iov_length = len\<rparr>] = fresh_iov b (Suc k) len"
  by (simp add: fresh_iov_def)

lemma buffer_free_append: "buffer_free (us @ vs) s = buffer_free vs (buffer_free us s)"
  by (induction us arbitrary: s) auto

lemma buffer_free_null: "\<forall>v \<in> set vs. iov_buffer v = 0 \<Longrightarrow> buffer_free vs s = s"
  by (induction vs arbitrary: s) (auto simp: mem_type_free_def c_free_def split: mem_type.split)

text \<open>Releasing live blocks gives exactly the heap without them, and no fault.\<close>

lemma buffer_free_fresh:
  "test_mem_type s = MEM_HOST \<Longrightarrow> 0 < b \<Longrightarrow> \<forall>i<n. heap s (b + i) \<noteq> None \<Longrightarrow>
   buffer_free (fresh_iov b n len) s =
     s\<lparr>heap := (\<lambda>p. if b \<le> p \<and> p < b + n then None else heap s p)\<rparr>"
proof (induction n arbitrary: b s)
  case 0
  have "(\<lambda>p. if b \<le> p \<and> p < b then None else heap s p) = heap s" by (auto simp: fun_eq_iff)
  then show ?case by (simp add: fresh_iov_def)
next
  case (Suc n)
  let ?s = "s\<lparr>heap := (heap s)(b := None)\<rparr>"
  obtain bs where "heap s b = Some bs" using Suc.prems(3) by force
  then have "buffer_free (fresh_iov b (Suc n) len) s = buffer_free (fresh_iov (Suc b) n len) ?s"
    using Suc.prems(1,2) by (simp add: fresh_iov_Suc mem_type_free_def memory_simps)
  also have "\<dots> = ?s\<lparr>heap := (\<lambda>p. if Suc b \<le> p \<and> p < Suc b + n then None else heap ?s p)\<rparr>"
    using Suc.prems by (intro Suc.IH) auto
  also have "\<dots> = s\<lparr>heap := (\<lambda>p. if b \<le> p \<and> p < b + Suc n then None else heap s p)\<rparr>"
    by (auto intro!: arg_cong [where f = "\<lambda>h. s\<lparr>heap := h\<rparr>"] simp: fun_eq_iff)
  finally show ?case .
qed

lemma wf_heap_new_block:
  "wf_heap s \<Longrightarrow> heap t = (heap s)(brk s \<mapsto> bs) \<Longrightarrow> brk t = Suc (brk s) \<Longrightarrow> wf_heap t"
  by (auto simp: wf_heap_def less_Suc_eq)

text \<open>The state \<open>buffer_malloc\<close> reaches when it succeeds and when it fails.\<close>

definition buffers_allocated :: "nat \<Rightarrow> 'w cs \<Rightarrow> 'w cs \<Rightarrow> bool" where
  "buffers_allocated n s t \<longleftrightarrow>
     (\<exists>w. t = s\<lparr>world := w, brk := brk s + n,
               heap := (\<lambda>p. if brk s \<le> p \<and> p < brk s + n
                            then Some (replicate (unat (test_string_length s)) None)
                            else heap s p)\<rparr>)"

definition buffers_gone :: "nat \<Rightarrow> 'w cs \<Rightarrow> 'w cs \<Rightarrow> bool" where
  "buffers_gone b s t \<longleftrightarrow>
     (\<exists>w m. brk s \<le> m \<and>
        t = s\<lparr>world := w, brk := m, heap := (\<lambda>p. if b \<le> p then None else heap s p)\<rparr>)"

lemma buffers_gone_Suc:
  assumes "buffers_gone b (s\<lparr>world := w, heap := (heap s)(brk s \<mapsto> bs), brk := Suc (brk s)\<rparr>) t"
    and "b \<le> brk s"
  shows "buffers_gone b s t"
proof -
  have "(\<lambda>p. if b \<le> p then None else ((heap s)(brk s \<mapsto> bs)) p) = (\<lambda>p. if b \<le> p then None else heap s p)"
    using assms(2) by (auto simp: fun_eq_iff)
  with assms(1) show ?thesis by (auto simp: buffers_gone_def cong: if_cong dest: Suc_leD)
qed

lemma buffers_allocated_Suc:
  assumes "buffers_allocated n (s\<lparr>world := w,
      heap := (heap s)(brk s \<mapsto> replicate (unat (test_string_length s)) None), brk := Suc (brk s)\<rparr>) t"
  shows "buffers_allocated (Suc n) s t"
proof -
  let ?bs = "Some (replicate (unat (test_string_length s)) None)"
  from assms obtain w' where t: "t = s\<lparr>world := w', brk := Suc (brk s) + n,
      heap := (\<lambda>p. if Suc (brk s) \<le> p \<and> p < Suc (brk s) + n then ?bs
                   else ((heap s)(brk s := ?bs)) p)\<rparr>"
    by (auto simp: buffers_allocated_def cong: if_cong)
  have "(\<lambda>p. if Suc (brk s) \<le> p \<and> p < Suc (brk s) + n then ?bs else ((heap s)(brk s := ?bs)) p) =
      (\<lambda>p. if brk s \<le> p \<and> p < brk s + Suc n then ?bs else heap s p)"
    by (auto simp: fun_eq_iff)
  with t show ?thesis unfolding buffers_allocated_def by (intro exI [of _ w']) simp
qed

lemma buffer_malloc_from_host:
  assumes "buffer_malloc_from E (fresh_iov b k (test_string_length s)) vs s = (ret, iov, t)"
    and "test_mem_type s = MEM_HOST" "0 < b" "brk s = b + k"
    and "\<forall>i<k. heap s (b + i) \<noteq> None" "\<forall>p. brk s \<le> p \<longrightarrow> heap s p = None"
    and "\<forall>v \<in> set vs. iov_buffer v = 0"
  shows "ret = 0 \<and> iov = fresh_iov b (k + length vs) (test_string_length s) \<and>
           buffers_allocated (length vs) s t \<or>
         ret = -1 \<and> buffers_gone b s t"
  using assms
proof (induction vs arbitrary: k s)
  case Nil
  have "heap s = (\<lambda>p. if brk s \<le> p \<and> p < brk s then X p else heap s p)" for X by (auto simp: fun_eq_iff)
  then have "buffers_allocated 0 s s"
    unfolding buffers_allocated_def by (intro exI [of _ "world s"]) simp
  with Nil show ?case by auto
next
  case (Cons v vs)
  let ?len = "test_string_length s"
  obtain ok w where a: "alloc_ok E (unat ?len) (world s) = (ok, w)" by fastforce
  show ?case
  proof (cases ok)
    case True
    let ?s = "s\<lparr>world := w, heap := (heap s)(brk s \<mapsto> replicate (unat ?len) None), brk := Suc (brk s)\<rparr>"
    have "buffer_malloc_from E (fresh_iov b (Suc k) ?len) vs ?s = (ret, iov, t)"
      using Cons.prems a True
      by (simp add: mem_type_malloc_def malloc_def new_block_def fresh_iov_append [symmetric] iov_upd Let_def)
    then have prem: "buffer_malloc_from E (fresh_iov b (Suc k) (test_string_length ?s)) vs ?s = (ret, iov, t)"
      by simp
    have "ret = 0 \<and> iov = fresh_iov b (Suc k + length vs) (test_string_length ?s) \<and> buffers_allocated (length vs) ?s t \<or>
         ret = -1 \<and> buffers_gone b ?s t"
      by (rule Cons.IH [OF prem]) (use Cons.prems in \<open>auto simp: less_Suc_eq\<close>)
    moreover have "buffers_allocated (length vs) ?s t \<Longrightarrow> buffers_allocated (Suc (length vs)) s t"
      by (rule buffers_allocated_Suc)
    moreover have "buffers_gone b ?s t \<Longrightarrow> buffers_gone b s t"
      by (rule buffers_gone_Suc) (use Cons.prems(4) in auto)
    ultimately show ?thesis by auto
  next
    case False
    have "buffer_free (fresh_iov b k ?len @ v\<lparr>iov_length := ?len, iov_buffer := 0\<rparr> # vs) (s\<lparr>world := w\<rparr>) =
        s\<lparr>world := w, heap := (\<lambda>p. if b \<le> p \<and> p < b + k then None else heap s p)\<rparr>"
      using Cons.prems
      by (simp add: buffer_free_append buffer_free_fresh buffer_free_null mem_type_free_def c_free_def
          cong: if_cong)
    moreover have "(\<lambda>p. if b \<le> p \<and> p < b + k then None else heap s p) = (\<lambda>p. if b \<le> p then None else heap s p)"
      using Cons.prems(4,6) by (auto simp: fun_eq_iff not_less)
    ultimately have "ret = -1 \<and> t = s\<lparr>world := w, heap := (\<lambda>p. if b \<le> p then None else heap s p)\<rparr>"
      using Cons.prems(1,2) a False by (auto simp: mem_type_malloc_def malloc_def Let_def)
    then show ?thesis
      unfolding buffers_gone_def by (intro disjI2 conjI exI [of _ w] exI [of _ "brk s"]) simp_all
  qed
qed


text \<open>
  \<open>buffer_malloc\<close> on the zeroed array: all buffers, or -1 and the heap as it was; no fault in
  either case.
\<close>

lemma buffer_malloc_host:
  assumes run: "buffer_malloc E (zero_iov s) s = (ret, iov, t)"
    and wf: "wf_heap s" and host: "test_mem_type s = MEM_HOST"
  shows "ret = 0 \<and> iov = fresh_iov (brk s) (unat (iov_cnt s)) (test_string_length s) \<and>
           buffers_allocated (unat (iov_cnt s)) s t \<or>
         ret = -1 \<and> (\<exists>w m. t = s\<lparr>world := w, brk := m\<rparr> \<and> brk s \<le> m)"
proof -
  have "(\<lambda>p. if brk s \<le> p then None else heap s p) = heap s"
    using wf by (auto simp: wf_heap_none fun_eq_iff)
  then have "\<exists>w m. t = s\<lparr>world := w, brk := m\<rparr> \<and> brk s \<le> m" if "buffers_gone (brk s) s t"
    using that by (auto simp: buffers_gone_def)
  moreover have "ret = 0 \<and> iov = fresh_iov (brk s) (0 + length (zero_iov s)) (test_string_length s) \<and>
        buffers_allocated (length (zero_iov s)) s t \<or> ret = -1 \<and> buffers_gone (brk s) s t"
  proof (rule buffer_malloc_from_host)
    show "buffer_malloc_from E (fresh_iov (brk s) 0 (test_string_length s)) (zero_iov s) s = (ret, iov, t)"
      using run by (simp add: buffer_malloc_def fresh_iov_def)
    show "\<forall>p. brk s \<le> p \<longrightarrow> heap s p = None" using wf by (simp add: wf_heap_none)
  qed (use wf host in \<open>auto simp: zero_iov_def wf_heap_def\<close>)
  ultimately show ?thesis by (auto simp: zero_iov_def)
qed

lemma buffers_allocated_simps:
  assumes "buffers_allocated n s (t :: 'w cs)" "wf_heap s"
  shows "heap_only s t" "brk t = brk s + n" "wf_heap t" "faults t = faults s"
    "\<And>i. i < n \<Longrightarrow> heap t (brk s + i) = Some (replicate (unat (test_string_length s)) None)"
    "\<And>p. p < brk s \<Longrightarrow> heap t p = heap s p"
proof -
  from assms(1) obtain w where t: "t = s\<lparr>world := w, brk := brk s + n,
               heap := (\<lambda>p. if brk s \<le> p \<and> p < brk s + n
                            then Some (replicate (unat (test_string_length s)) None)
                            else heap s p)\<rparr>"
    by (auto simp: buffers_allocated_def)
  then show "heap_only s t"
    unfolding heap_only_def by (intro exI [of _ w] exI [of _ "heap t"] exI [of _ "brk t"] exI [of _ "faults t"]) simp
  show "brk t = brk s + n" "faults t = faults s"
    "\<And>i. i < n \<Longrightarrow> heap t (brk s + i) = Some (replicate (unat (test_string_length s)) None)"
    "\<And>p. p < brk s \<Longrightarrow> heap t p = heap s p"
    by (simp_all add: t)
  show "wf_heap t" using assms(2) by (force simp: t wf_heap_def)
qed

text \<open>Of another memory type nothing is allocated: \<open>buffer_malloc\<close> fails at once.\<close>

lemma buffer_malloc_other:
  assumes "buffer_malloc E (zero_iov s) s = (ret, iov, t)" "test_mem_type s \<noteq> MEM_HOST" "0 < iov_cnt s"
  shows "ret = -1 \<and> t = s"
proof -
  have free: "buffer_free vs s = s" for vs
    using assms(2) by (induction vs) (simp_all add: mem_type_free_def split: mem_type.split)
  obtain v vs where "zero_iov s = v # vs"
    using assms(3) by (cases "unat (iov_cnt s)") (auto simp: zero_iov_def word_less_nat_alt)
  with assms(1,2) free show ?thesis
    by (auto simp: buffer_malloc_def mem_type_malloc_def Let_def split: mem_type.splits)
qed

text \<open>Filling the buffers neither allocates nor releases anything for good.\<close>

lemma fill_buffer_frame:
  "fill_buffer E vs s = (ret, t) \<Longrightarrow> wf_heap s \<Longrightarrow>
   heap_only s t \<and> heap_shape t = heap_shape s \<and> brk s \<le> brk t \<and> wf_heap t \<and> (ret = 0 \<or> ret = -1)"
proof (induction E vs s rule: fill_buffer.induct)
  case (1 E s)
  then show ?case by simp
next
  case (2 E v vs s)
  obtain r1 s1 where g: "generate_test_string E (iov_buffer v) 0 (ucast (iov_length v)) s = (r1, s1)"
    by fastforce
  note g' = generate_test_string_frame [OF g "2.prems"(2)]
  show ?case
  proof (cases "r1 = 0")
    case True
    with "2.prems"(1) g have "fill_buffer E vs s1 = (ret, t)" by simp
    with "2.IH" [OF g [symmetric] refl] True g' show ?thesis by (auto intro: heap_only_trans)
  next
    case False
    with "2.prems" g g' show ?thesis by auto
  qed
qed

lemma buffer_free_cs [simp]:
  "frames (buffer_free vs s) = frames s" "next_frame (buffer_free vs s) = next_frame s"
  "trace (buffer_free vs s) = trace s" "cs_listener (buffer_free vs s) = cs_listener s"
  "brk (buffer_free vs s) = brk s" "test_mem_type (buffer_free vs s) = test_mem_type s"
  "test_string_length (buffer_free vs s) = test_string_length s"
  "iov_cnt (buffer_free vs s) = iov_cnt s" "server_port (buffer_free vs s) = server_port s"
  "ai_family (buffer_free vs s) = ai_family s" "num_iterations (buffer_free vs s) = num_iterations s"
  using buffer_free_frame [of s vs] by (auto simp: heap_only_def)

lemma buffer_free_frames_upd:
  "buffer_free vs (s\<lparr>frames := f\<rparr>) = (buffer_free vs s)\<lparr>frames := f\<rparr>"
proof (induction vs arbitrary: s)
  case (Cons v vs)
  have "mem_type_free (iov_buffer v) (s\<lparr>frames := f\<rparr>) = (mem_type_free (iov_buffer v) s)\<lparr>frames := f\<rparr>"
    by (simp add: mem_type_free_def c_free_def fault_def split: mem_type.split option.split)
  then show ?case using Cons by simp
qed simp

section \<open>Well-formed states, and what a whole operation keeps\<close>

text \<open>
  Block and frame numbers are fresh, and there is at least one buffer, as the command line
  guarantees.
\<close>

definition cs_wf :: "'w cs \<Rightarrow> bool" where
  "cs_wf s \<longleftrightarrow> wf_heap s \<and> (\<forall>f. frame_iovs s f \<noteq> None \<longrightarrow> f < next_frame s) \<and> 0 < iov_cnt s"

definition cs_config :: "'w cs \<Rightarrow> _" where
  "cs_config s = (test_mem_type s, test_string_length s, iov_cnt s, server_port s, ai_family s,
     num_iterations s)"

text \<open>
  \<open>cs_keeps s t\<close>: between \<open>s\<close> and \<open>t\<close> every handle, block and frame that was acquired has been
  released, and none that was there before; the options are unchanged.
\<close>

definition cs_keeps :: "'w cs \<Rightarrow> 'w cs \<Rightarrow> bool" where
  "cs_keeps s t \<longleftrightarrow>
     held t = held s \<and> heap_shape t = heap_shape s \<and> frame_iovs t = frame_iovs s \<and>
     cs_config t = cs_config s \<and> cs_listener t = cs_listener s \<and>
     brk s \<le> brk t \<and> next_frame s \<le> next_frame t"

lemma cs_keeps_refl [simp]: "cs_keeps s s"
  by (simp add: cs_keeps_def)

lemma cs_keeps_trans [trans]: "cs_keeps s t \<Longrightarrow> cs_keeps t u \<Longrightarrow> cs_keeps s u"
  by (auto simp: cs_keeps_def)

lemma cs_frame_keeps: "cs_frame s t \<Longrightarrow> cs_keeps s t"
  by (simp add: cs_keeps_def cs_config_def cs_frameD)

lemma cs_keeps_wf: "cs_keeps s t \<Longrightarrow> cs_wf s \<Longrightarrow> cs_wf t"
  by (auto simp: cs_keeps_def cs_wf_def wf_heap_shape cs_config_def)

lemma cs_keeps_connection_closed [simp]: "cs_keeps s (s\<lparr>connection_closed := c\<rparr>)"
  by (simp add: cs_keeps_def cs_config_def heap_shape_def frame_iovs_def fun_eq_iff)

lemma cs_keeps_conn_request [simp]: "cs_keeps s (s\<lparr>conn_request := c\<rparr>)"
  by (simp add: cs_keeps_def cs_config_def heap_shape_def frame_iovs_def fun_eq_iff)

section \<open>What the buffers hold\<close>

text \<open>\<open>holds_bytes b n x t\<close>: the \<open>n\<close> blocks from \<open>b\<close> on hold the bytes \<open>x 0, x 1, \<dots>\<close>.\<close>

definition holds_bytes :: "nat \<Rightarrow> nat \<Rightarrow> (nat \<Rightarrow> byte list) \<Rightarrow> 'w cs \<Rightarrow> bool" where
  "holds_bytes b n x t \<longleftrightarrow> (\<forall>i<n. heap t (b + i) = Some (map Some (x i)))"

lemma holds_bytes_Suc:
  "holds_bytes b (Suc n) x t \<longleftrightarrow> heap t b = Some (map Some (x 0)) \<and> holds_bytes (Suc b) n (x \<circ> Suc) t"
  by (auto simp: holds_bytes_def less_Suc_eq_0_disj)


lemma fill_buffer_ok:
  assumes mem: "\<And>k w. fst (alloc_ok E k w)" and n: "unat len = n" "0 < n" "n < 2 ^ 31"
  shows "wf_heap s \<Longrightarrow> test_mem_type s = MEM_HOST \<Longrightarrow>
    \<forall>i<k. \<exists>bs. heap s (b + i) = Some bs \<and> length bs = n \<Longrightarrow>
    \<exists>t. fill_buffer E (fresh_iov b k len) s = (0, t) \<and> holds_bytes b k (\<lambda>_. test_string n) t \<and>
        (\<forall>p<b. heap t p = heap s p) \<and> faults t = faults s \<and> heap_only s t \<and> wf_heap t"
proof (induction k arbitrary: b s)
  case 0
  then show ?case by (simp add: fresh_iov_def holds_bytes_def)
next
  case (Suc k)
  let ?size = "ucast len :: i32"
  obtain w where w: "alloc_ok E n (world s) = (True, w)" using mem [of n "world s"] by (metis prod.collapse)
  obtain bs where bs: "heap s b = Some bs" "length bs = n" using Suc.prems(3) by force
  define s1 where "s1 = s\<lparr>world := w, brk := Suc (brk s), heap := (heap s)(b \<mapsto> map Some (test_string n))\<rparr>"
  have g: "generate_test_string E b 0 ?size s = (0, s1)"
    using generate_test_string_ok [of s b bs 0 n ?size E w] Suc.prems bs w n
    by (simp add: s1_def sint_ucast_size)
  note g' = generate_test_string_frame [OF g Suc.prems(1)]
  have "\<exists>t. fill_buffer E (fresh_iov (Suc b) k len) s1 = (0, t) \<and>
      holds_bytes (Suc b) k (\<lambda>_. test_string n) t \<and>
      (\<forall>p<Suc b. heap t p = heap s1 p) \<and> faults t = faults s1 \<and> heap_only s1 t \<and> wf_heap t"
    using Suc.prems g'(4) by (intro Suc.IH) (auto simp: s1_def)
  then obtain t where t: "fill_buffer E (fresh_iov (Suc b) k len) s1 = (0, t)"
      "holds_bytes (Suc b) k (\<lambda>_. test_string n) t" "\<forall>p<Suc b. heap t p = heap s1 p" "faults t = faults s1"
      "heap_only s1 t" "wf_heap t" by blast
  have "fill_buffer E (fresh_iov b (Suc k) len) s = (0, t)"
    using g t(1) by (simp add: fresh_iov_Suc)
  moreover have "holds_bytes b (Suc k) (\<lambda>_. test_string n) t"
    using t(2,3) by (simp add: holds_bytes_Suc comp_def) (simp add: s1_def)
  moreover have "\<forall>p<b. heap t p = heap s p" using t(3) by (simp add: s1_def)
  moreover have "faults t = faults s" using t(4) by (simp add: s1_def)
  moreover have "heap_only s t" using g'(1) t(5) by (rule heap_only_trans)
  ultimately show ?case using t(6) by blast
qed

text \<open>The eager active message: block after block gets its part of the data.\<close>

lemma copy_data_fresh:
  "test_mem_type s = MEM_HOST \<Longrightarrow> unat len = n \<Longrightarrow>
   \<forall>i<k. \<exists>bs. heap s (b + i) = Some bs \<and> length bs = n \<Longrightarrow> off + k * n \<le> length data \<Longrightarrow>
   holds_bytes b k (\<lambda>i. take n (drop (off + i * n) data)) (copy_data (fresh_iov b k len) data off s) \<and>
   (\<forall>p<b. heap (copy_data (fresh_iov b k len) data off s) p = heap s p) \<and>
   faults (copy_data (fresh_iov b k len) data off s) = faults s"
proof (induction k arbitrary: b s off)
  case 0
  then show ?case by (simp add: fresh_iov_def holds_bytes_def)
next
  case (Suc k)
  obtain bs where bs: "heap s b = Some bs" "length bs = n" using Suc.prems(3) by force
  define s1 where "s1 = s\<lparr>heap := (heap s)(b \<mapsto> map Some (take n (drop off data)))\<rparr>"
  have off: "off + n \<le> length data" "(off + n) + k * n \<le> length data" using Suc.prems(4) by simp_all
  have st: "store b 0 (map Some (take n (drop off data))) s = s1"
    using bs off(1) by (simp add: s1_def memory_simps)
  have eq: "copy_data (fresh_iov b (Suc k) len) data off s = copy_data (fresh_iov (Suc b) k len) data (off + n) s1"
    using Suc.prems(1,2) off(1) st by (simp add: fresh_iov_Suc)
  have IH: "holds_bytes (Suc b) k (\<lambda>i. take n (drop (off + n + i * n) data)) (copy_data (fresh_iov (Suc b) k len) data (off + n) s1) \<and>
   (\<forall>p<Suc b. heap (copy_data (fresh_iov (Suc b) k len) data (off + n) s1) p = heap s1 p) \<and>
   faults (copy_data (fresh_iov (Suc b) k len) data (off + n) s1) = faults s1"
    using Suc.prems off by (intro Suc.IH) (auto simp: s1_def)
  then have "heap (copy_data (fresh_iov (Suc b) k len) data (off + n) s1) b = Some (map Some (take n (drop off data)))"
    by (simp add: s1_def)
  with IH show ?case
    unfolding eq by (simp add: holds_bytes_Suc comp_def algebra_simps) (simp add: s1_def)
qed

text \<open>Reading all blocks one after the other.\<close>

lemma concat_take_drop: "k * n = length xs \<Longrightarrow> concat (map (\<lambda>i. take n (drop (i * n) xs)) [0..<k]) = xs"
proof (induction k arbitrary: xs)
  case (Suc k)
  have "concat (map (\<lambda>i. take n (drop (i * n) xs)) [0..<Suc k]) =
      take n xs @ concat (map (\<lambda>i. take n (drop (i * n) (drop n xs))) [0..<k])"
    by (simp add: upt_conv_Cons map_Suc_upt [symmetric] comp_def add.commute del: upt_Suc)
  also have "\<dots> = take n xs @ drop n xs" using Suc.prems by (subst Suc.IH) auto
  finally show ?case by simp
qed simp

text \<open>With an allocator that always has memory the allocation of the buffers succeeds.\<close>

lemma buffer_malloc_from_mem:
  assumes mem: "\<And>k w. fst (alloc_ok E k w)"
  shows "test_mem_type s = MEM_HOST \<Longrightarrow> 0 < brk s \<Longrightarrow> fst (buffer_malloc_from E before vs s) = 0"
proof (induction vs arbitrary: before s)
  case (Cons v vs)
  obtain w where "alloc_ok E (unat (test_string_length s)) (world s) = (True, w)"
    using mem by (metis prod.collapse)
  with Cons show ?case by (simp add: mem_type_malloc_def malloc_def new_block_def Let_def)
qed simp

lemmas state_run [run_simps] =
  cs_init_def zero_iov_def buffer_malloc_def common_cb_def tag_recv_cb_def stream_recv_cb_def am_recv_cb_def
  send_cb_def err_cb_def ucp_am_data_cb_def server_conn_handle_cb_def

lemma cs_wf_init: "cs_wf (cs_init w)" "held (cs_init w) = Some {#}"
  by (simp_all add: cs_wf_def wf_heap_def cs_init_def frame_iovs_def)

section \<open>Properties\<close>

text \<open>
  C15: \<open>buffer_malloc\<close> is all or nothing: it returns 0 with as many new, distinct, unwritten blocks as
  there are buffers, each of the length of a message, and no other block touched; or -1 with the
  heap exactly as before. It never releases a block twice.
\<close>

theorem buffer_malloc_all_or_nothing:
  assumes "buffer_malloc E (zero_iov s) s = (ret, iov, t)" and "wf_heap s" and "test_mem_type s = MEM_HOST"
  shows "faults t = faults s \<and>
    (ret = 0 \<and> iov = fresh_iov (brk s) (unat (iov_cnt s)) (test_string_length s) \<and>
       (\<forall>p. heap t p = (if brk s \<le> p \<and> p < brk s + unat (iov_cnt s)
                        then Some (replicate (unat (test_string_length s)) None) else heap s p)) \<or>
     ret = -1 \<and> heap t = heap s)"
  using buffer_malloc_host [OF assms] by (auto simp: buffers_allocated_def)

theorem buffer_malloc_all_or_nothing_witness:
  "let E = (obliging_env :: (unit, cs_upcall) env)\<lparr>alloc_ok := (\<lambda>n w. (False, w))\<rparr>; s = cs_init ()\<lparr>iov_cnt := 3\<rparr>;
       (ret, iov, t) = buffer_malloc E (zero_iov s) s
   in ret = -1 \<and> heap t = heap s \<and> faults t = []"
proof -
  let ?E = "(obliging_env :: (unit, cs_upcall) env)\<lparr>alloc_ok := (\<lambda>n w. (False, w))\<rparr>" and ?s = "cs_init ()\<lparr>iov_cnt := 3\<rparr>"
  obtain ret iov t where r: "buffer_malloc ?E (zero_iov ?s) ?s = (ret, iov, t)" by (metis prod_cases3)
  have "wf_heap ?s" "test_mem_type ?s = MEM_HOST" by (simp_all add: wf_heap_def cs_init_def)
  note p = buffer_malloc_all_or_nothing [OF r this]
  have "ret = -1" using r by (auto simp: run_simps)
  with r p show ?thesis by (simp add: cs_init_def)
qed

text \<open>The connection requests a trace rejects, in order.\<close>

fun rejected :: "event list \<Rightarrow> nat list" where
  "rejected (EvStatus (ListenerReject l conn) st # es) = conn # rejected es"
| "rejected (e # es) = rejected es"
| "rejected [] = []"

lemma rejected_append: "rejected (es @ es') = rejected es @ rejected es'"
  by (induction es rule: rejected.induct) auto

lemma conn_handle_busy:
  "conn_request s = Some kept \<Longrightarrow>
   conn_request (fold (cs_dispatch E) (map UpConnRequest conns) s) = Some kept \<and>
   rejected (trace (fold (cs_dispatch E) (map UpConnRequest conns) s)) = rejected (trace s) @ conns"
  by (induction conns arbitrary: s)
    (auto simp: server_conn_handle_cb_def call_status_def rejected_append split: prod.split)

text \<open>
  C14: The server takes one client at a time: of the connection requests that arrive in one call of
  \<open>ucp_worker_progress\<close> while it has none, it keeps the first and rejects every other one exactly once,
  in the order they came.
\<close>

theorem one_client_at_a_time:
  assumes "u_progress E wk (world s) = ((n, map UpConnRequest (conn # conns)), w)" and "conn_request s = None"
  shows "conn_request (cs_progress E wk s) = Some conn \<and>
    rejected (trace (cs_progress E wk s)) = rejected (trace s) @ conns"
proof -
  let ?s = "emit (EvVoid (WorkerProgress wk)) (s\<lparr>world := w\<rparr>)"
  have "conn_request (server_conn_handle_cb E conn ?s) = Some conn"
    "rejected (trace (server_conn_handle_cb E conn ?s)) = rejected (trace s)"
    using assms(2) by (auto simp: server_conn_handle_cb_def call_status_def rejected_append split: prod.split)
  with conn_handle_busy [of "server_conn_handle_cb E conn ?s" conn E conns] assms(1) show ?thesis
    by (simp add: ucp_worker_progress_def)
qed

theorem one_client_at_a_time_witness:
  "let E = (obliging_env :: (unit, cs_upcall) env)\<lparr>u_progress := (\<lambda>wk w. ((3, map UpConnRequest [7, 8, 9]), w))\<rparr>;
       t = cs_progress E 1 (cs_init ())
   in conn_request t = Some 7 \<and> rejected (trace t) = [8, 9]"
proof -
  let ?E = "(obliging_env :: (unit, cs_upcall) env)\<lparr>u_progress := (\<lambda>wk w. ((3, map UpConnRequest [7, 8, 9]), w))\<rparr>"
  have "conn_request (cs_progress ?E 1 (cs_init ())) = Some 7 \<and>
    rejected (trace (cs_progress ?E 1 (cs_init ()))) = rejected (trace (cs_init ())) @ [8, 9]"
    by (rule one_client_at_a_time) (simp_all add: cs_init_def)
  then show ?thesis by (simp add: cs_init_def)
qed

text \<open>
  Closing an endpoint releases it, and releases the request of the close if the library hands one
  out, after waiting for it; nothing else the program holds changes, whatever callbacks run
  during the wait.
\<close>

theorem ep_close_releases_endpoint:
  assumes "ep_close E (cs_dispatch E) wk ep force s = Some t" and "held s = Some (add_mset (REp ep) M)"
  shows "held t = Some M"
  using assms by (rule cs_held.ep_close_held)

text \<open>A close that is in progress for two progress calls, while the connection is lost.\<close>

definition slow_close :: "(nat, cs_upcall) env" where
  "slow_close = obliging_env\<lparr>u_post := (\<lambda>c bs w. ((ReqPtr 4, []), w)),
     u_check := (\<lambda>r w. if w < 2 then UCS_INPROGRESS else UCS_OK),
     u_progress := (\<lambda>wk w. ((1, [UpErrCb UCS_OK]), w + 1))\<rparr>"

lemma slow_close_simps:
  "u_post slow_close c bs w = ((ReqPtr 4, []), w)" "u_void slow_close c w = w"
  "u_check slow_close r w = (if w < 2 then UCS_INPROGRESS else UCS_OK)"
  "u_progress slow_close wk w = ((1, [UpErrCb UCS_OK]), w + 1)"
  by (simp_all add: slow_close_def)

theorem ep_close_releases_endpoint_witness:
  "\<exists>t. ep_close slow_close (cs_dispatch slow_close) 1 9 True
         (emit (EvCreate (EpCreateConn 1 7) UCS_OK 9) (cs_init 0)) = Some t \<and> held t = Some {#}"
proof -
  let ?s = "emit (EvCreate (EpCreateConn 1 7) UCS_OK 9) (cs_init 0)"
  have "ep_close slow_close (cs_dispatch slow_close) 1 9 True ?s \<noteq> None"
    by (simp add: run_simps slow_close_simps cong: run_congs)
  then obtain t where t: "ep_close slow_close (cs_dispatch slow_close) 1 9 True ?s = Some t" by blast
  have "held ?s = Some (add_mset (REp 9) {#})" by (simp add: cs_init_def held_after_def monitor_step_def)
  from ep_close_releases_endpoint [OF t this] t show ?thesis by blast
qed

text \<open>
  C16: The close returns exactly when the library does not make it wait, or when after one or more
  progress calls the request is no longer in progress: there is no time-out.
\<close>

theorem ep_close_returns_iff:
  "(\<exists>t. ep_close E (cs_dispatch E) wk ep force s = Some t) \<longleftrightarrow>
   (case call_post E (EpClose ep force) [] s of
      (ReqPtr r, s') \<Rightarrow> (\<exists>n>0. ucp_request_check_status E r (progressed E (cs_dispatch E) wk n s') \<noteq> UCS_INPROGRESS)
    | _ \<Rightarrow> True)"
  using progress_request_returns_iff [of E "cs_dispatch E" wk]
  by (auto simp: ep_close_def bind_eq_Some_conv split: prod.split req.split)

end
