(* ===== verification/Cs_Transfer.thy ===== *)
theory Cs_Transfer
  imports Cs_State
begin

text \<open>
  \<open>ucp_client_server.c\<close>: one transfer of a message, by the stream, tag or active message API.
\<close>

section \<open>Printing the result\<close>

text \<open>
  \<open>print_iov\<close> copies every buffer into one \<open>alloca\<close> buffer (so memory of another type can be
  read) and prints that as a string; \<open>msg\<close> is what the buffer holds. The fixed lines around the
  message are not events.
\<close>

fun print_iov_from :: "byte option list \<Rightarrow> iov list \<Rightarrow> 'w cs \<Rightarrow> 'w cs" where
  "print_iov_from msg [] s = s"
| "print_iov_from msg (v # vs) s =
     (let n = unat (test_string_length s);
          (msg, s) = (case test_mem_type s of
                        MEM_HOST \<Rightarrow>
                          (case load (iov_buffer v) 0 n s of
                             None \<Rightarrow> (msg, fault (BadLoad (iov_buffer v)) s)
                           | Some bs \<Rightarrow> (bs, s))
                      | _ \<Rightarrow> (msg, s));
          s = (case c_string msg of
                 None \<Rightarrow> fault BadString s
               | Some str \<Rightarrow> emit (EvPrint str) s)
      in print_iov_from msg vs s)"

definition print_iov :: "iov list \<Rightarrow> 'w cs \<Rightarrow> 'w cs" where
  "print_iov iov s = print_iov_from (replicate (unat (test_string_length s)) None) iov s"

definition print_result :: "bool \<Rightarrow> iov list \<Rightarrow> int \<Rightarrow> 'w cs \<Rightarrow> 'w cs" where
  "print_result is_server iov current_iter s = print_iov iov s"

section \<open>Waiting for a request\<close>

definition ctx_complete :: "nat \<Rightarrow> 'w cs \<Rightarrow> int" where
  "ctx_complete ctx s = (case frames s ctx of None \<Rightarrow> 0 | Some fr \<Rightarrow> fr_complete fr)"

definition request_wait :: "('w, cs_upcall, 'e) env_scheme \<Rightarrow> nat \<Rightarrow> req \<Rightarrow> nat \<Rightarrow> 'w cs \<Rightarrow>
    (ucs_status \<times> 'w cs) option" where
  "request_wait E wk request ctx s =
     (case request of
        ReqNull \<Rightarrow> Some (UCS_OK, s)
      | ReqErr status \<Rightarrow> Some (status, s)
      | ReqPtr r \<Rightarrow>
          do { s \<leftarrow> while_option (\<lambda>s. ctx_complete ctx s = 0) (cs_progress E wk) s;
               let status = ucp_request_check_status E r s;
               Some (status, call_void E (ReqFree r) s) })"

definition PRINT_INTERVAL :: int where
  "PRINT_INTERVAL = 2000"

definition request_finalize :: "('w, cs_upcall, 'e) env_scheme \<Rightarrow> nat \<Rightarrow> req \<Rightarrow> nat \<Rightarrow> bool \<Rightarrow>
    iov list \<Rightarrow> int \<Rightarrow> 'w cs \<Rightarrow> (int \<times> 'w cs) option" where
  "request_finalize E wk request ctx is_server iov current_iter s =
     do { (status, s) \<leftarrow> request_wait E wk request ctx s;
          let (ret, s) =
            (if status \<noteq> UCS_OK then (-1, s)
             else if current_iter = 0 \<or> current_iter = sint (num_iterations s) - 1 \<or>
                     (current_iter + 1) mod PRINT_INTERVAL = 0
                  then (0, print_result is_server iov current_iter s)
                  else (0, s));
          Some (ret, buffer_free iov s) }"

section \<open>Preparing a transfer\<close>

text \<open>
  The frame of a transfer: \<open>alloca\<close>, \<open>memset\<close> and the automatic variable \<open>ctx\<close>, whose value is
  not read before \<open>fill_request_param\<close> sets it. The stack has room for the array, and its size in
  bytes does not wrap.
\<close>

definition enter_frame :: "'w cs \<Rightarrow> nat \<times> iov list \<times> 'w cs" where
  "enter_frame s =
     (let f = next_frame s
      in (f, zero_iov s,
          s\<lparr>next_frame := Suc f,
            frames := (frames s)(f \<mapsto> \<lparr>fr_iov = zero_iov s, fr_complete = 0\<rparr>)\<rparr>))"

definition leave_frame :: "nat \<Rightarrow> 'w cs \<Rightarrow> 'w cs" where
  "leave_frame f s = s\<lparr>frames := (frames s)(f := None)\<rparr>"

text \<open>
  \<open>fill_request_param\<close>: the filled array and the buffer argument of the transfer, or nothing when
  it returns -1.
\<close>

definition fill_request_param :: "('w, 'u, 'e) env_scheme \<Rightarrow> iov list \<Rightarrow> bool \<Rightarrow> nat \<Rightarrow> 'w cs \<Rightarrow>
    (iov list \<times> payload) option \<times> 'w cs" where
  "fill_request_param E iov is_client ctx s =
     (let (r, iov, s) = buffer_malloc E iov s
      in if r \<noteq> 0 then (None, s)
         else
           let (r, s) = (if is_client then fill_buffer E iov s else (0, s))
           in if r \<noteq> 0 then (None, buffer_free iov s)
              else
                let msg = (if iov_cnt s = 1
                           then Contig (iov_buffer (hd iov)) (iov_length (hd iov))
                           else IovArray iov (iov_cnt s));
                    s = s\<lparr>frames := (frames s)(ctx \<mapsto> \<lparr>fr_iov = iov, fr_complete = 0\<rparr>)\<rparr>
                in (Some (iov, msg), s))"

text \<open>The bytes UCX reads from the buffer of a send.\<close>

fun gather :: "payload \<Rightarrow> 'w cs \<Rightarrow> byte option list" where
  "gather (Contig p n) s = (case load p 0 (unat n) s of None \<Rightarrow> [] | Some bs \<Rightarrow> bs)"
| "gather (IovArray vs n) s =
     concat (map (\<lambda>v. case load (iov_buffer v) 0 (unat (iov_length v)) s of
                        None \<Rightarrow> [] | Some bs \<Rightarrow> bs) (take (unat n) vs))"

section \<open>The three transfers\<close>

definition TAG :: u64 where
  "TAG = 0xCAFE"

definition TEST_AM_ID :: nat where
  "TEST_AM_ID = 0"

definition send_recv_stream :: "('w, cs_upcall, 'e) env_scheme \<Rightarrow> nat \<Rightarrow> nat \<Rightarrow> bool \<Rightarrow> int \<Rightarrow>
    'w cs \<Rightarrow> (int \<times> 'w cs) option" where
  "send_recv_stream E wk ep is_server current_iter s =
     (let (ctx, iov, s) = enter_frame s;
          (filled, s) = fill_request_param E iov (\<not> is_server) ctx s
      in case filled of
           None \<Rightarrow> Some (-1, leave_frame ctx s)
         | Some (iov, msg) \<Rightarrow>
             let (request, s) =
               (if \<not> is_server
                then call_post E (StreamSend ep msg (Some ctx)) (gather msg s) s
                else call_post E (StreamRecv ep msg True (Some ctx)) [] s)
             in do { (ret, s) \<leftarrow> request_finalize E wk request ctx is_server iov current_iter s;
                     Some (ret, leave_frame ctx s) })"

definition send_recv_tag :: "('w, cs_upcall, 'e) env_scheme \<Rightarrow> nat \<Rightarrow> nat \<Rightarrow> bool \<Rightarrow> int \<Rightarrow>
    'w cs \<Rightarrow> (int \<times> 'w cs) option" where
  "send_recv_tag E wk ep is_server current_iter s =
     (let (ctx, iov, s) = enter_frame s;
          (filled, s) = fill_request_param E iov (\<not> is_server) ctx s
      in case filled of
           None \<Rightarrow> Some (-1, leave_frame ctx s)
         | Some (iov, msg) \<Rightarrow>
             let (request, s) =
               (if \<not> is_server
                then call_post E (TagSend ep msg TAG (Some ctx)) (gather msg s) s
                else call_post E (TagRecv wk msg TAG 0 (Some ctx)) [] s)
             in do { (ret, s) \<leftarrow> request_finalize E wk request ctx is_server iov current_iter s;
                     Some (ret, leave_frame ctx s) })"

text \<open>
  The receiving side waits until the callback has counted one more message than it has consumed
  (\<open>last\<close>, a static variable of the function), and posts a receive only for a rendezvous.
\<close>

definition send_recv_am :: "('w, cs_upcall, 'e) env_scheme \<Rightarrow> nat \<Rightarrow> nat \<Rightarrow> bool \<Rightarrow> int \<Rightarrow>
    'w cs \<Rightarrow> (int \<times> 'w cs) option" where
  "send_recv_am E wk ep is_server current_iter s =
     (let (ctx, iov, s) = enter_frame s;
          (filled, s) = fill_request_param E iov (\<not> is_server) ctx s
      in case filled of
           None \<Rightarrow> Some (-1, leave_frame ctx s)
         | Some (iov, msg) \<Rightarrow>
             do { (request, s) \<leftarrow>
                    (if is_server then
                       let s = s\<lparr>am_recv_buf := Some ctx\<rparr>
                       in do { s \<leftarrow> while_option (\<lambda>s. am_last s = am_complete s)
                                      (cs_progress E wk) s;
                               let s = s\<lparr>am_last := am_last s + 1\<rparr>;
                               Some (if am_is_rndv s \<noteq> 0
                                     then call_post_cb E (cs_dispatch E)
                                            (AmRecvData wk (am_desc s) msg (Some ctx) [NO_IMM_CMPL]) [] s
                                     else (ReqNull, s)) }
                     else Some (call_post E (AmSend ep TEST_AM_ID msg (Some ctx)) (gather msg s) s));
                  (ret, s) \<leftarrow> request_finalize E wk request ctx is_server iov current_iter s;
                  Some (ret, leave_frame ctx s) })"

definition client_server_communication :: "('w, cs_upcall, 'e) env_scheme \<Rightarrow> nat \<Rightarrow> nat \<Rightarrow>
    send_recv_type \<Rightarrow> bool \<Rightarrow> int \<Rightarrow> 'w cs \<Rightarrow> (int \<times> 'w cs) option" where
  "client_server_communication E wk ep type is_server current_iter s =
     (case type of
        SEND_RECV_STREAM \<Rightarrow> send_recv_stream E wk ep is_server current_iter s
      | SEND_RECV_TAG \<Rightarrow> send_recv_tag E wk ep is_server current_iter s
      | SEND_RECV_AM \<Rightarrow> send_recv_am E wk ep is_server current_iter s
      | SEND_RECV_OTHER _ \<Rightarrow> Some (-1, s))"

section \<open>What a transfer keeps\<close>

text \<open>
  The state of a transfer that began in \<open>s\<close> and has its buffers and its frame: \<open>H\<close> is what the
  monitor holds.
\<close>

definition prepared :: "resource multiset option \<Rightarrow> 'w cs \<Rightarrow> 'w cs \<Rightarrow> nat \<Rightarrow> iov list \<Rightarrow> bool" where
  "prepared H s t ctx iov \<longleftrightarrow>
     held t = H \<and> cs_config t = cs_config s \<and> cs_listener t = cs_listener s \<and>
     test_mem_type s = MEM_HOST \<and> ctx = next_frame s \<and> next_frame t = Suc ctx \<and>
     frame_iovs t = (frame_iovs s)(ctx \<mapsto> iov) \<and>
     iov = fresh_iov (brk s) (unat (iov_cnt s)) (test_string_length s) \<and>
     brk s + unat (iov_cnt s) \<le> brk t \<and>
     heap_shape t = (\<lambda>p. if brk s \<le> p \<and> p < brk s + unat (iov_cnt s)
                         then Some (unat (test_string_length s)) else heap_shape s p)"

lemma prepared_cong:
  assumes "prepared H s t ctx iov" and "held u = H'" "cs_config u = cs_config t"
    "cs_listener u = cs_listener t" "next_frame u = next_frame t" "frame_iovs u = frame_iovs t"
    "brk u = brk t" "heap_shape u = heap_shape t"
  shows "prepared H' s u ctx iov"
  using assms by (simp add: prepared_def)

lemma prepared_frame: "prepared H s t ctx iov \<Longrightarrow> cs_frame t u \<Longrightarrow> prepared H s u ctx iov"
  by (auto simp: prepared_def cs_config_def dest: cs_frameD)

text \<open>Releasing the buffers and leaving the frame undoes the preparation.\<close>

lemma prepared_finish:
  assumes prep: "prepared (held s) s t ctx iov" and wf: "cs_wf s"
  shows "cs_keeps s (leave_frame ctx (buffer_free iov t))"
proof -
  have ho: "heap_only t (buffer_free iov t)" and brk: "brk (buffer_free iov t) = brk t"
    using buffer_free_frame by blast+
  have host: "test_mem_type t = MEM_HOST" using prep by (simp add: prepared_def cs_config_def)
  have above: "heap_shape s p = None" if "brk s \<le> p" for p
    using wf that wf_heap_none [of s p] by (simp add: cs_wf_def heap_shape_def)
  have "heap_shape (buffer_free iov t) = heap_shape s"
    using prep wf above
    by (auto simp: heap_shape_buffer_free [OF host] prepared_def buffers_fresh_iov fun_eq_iff
        cs_wf_def wf_heap_def)
  moreover have "frame_iovs s ctx = None"
    using wf prep by (auto simp: cs_wf_def prepared_def)
  then have "frame_iovs (leave_frame ctx (buffer_free iov t)) = frame_iovs s"
    using prep by (auto simp: leave_frame_def frame_iovs_def prepared_def fun_eq_iff)
  ultimately show ?thesis
    using prep brk
    by (auto simp: cs_keeps_def leave_frame_def prepared_def cs_config_def heap_only_cs [OF ho]
        heap_onlyD [OF ho] heap_shape_def fun_eq_iff)
qed

text \<open>The preparation: either it fails and has left nothing behind, or the buffers are there.\<close>

lemma enter_frame_fields:
  assumes "enter_frame s = (ctx, iov, t)"
  shows "ctx = next_frame s" "iov = zero_iov t" "held t = held s" "heap t = heap s" "brk t = brk s"
    "cs_config t = cs_config s" "cs_listener t = cs_listener s" "next_frame t = Suc ctx" "faults t = faults s"
    "world t = world s"
    "trace t = trace s" "frames t = (frames s)(ctx \<mapsto> \<lparr>fr_iov = iov, fr_complete = 0\<rparr>)"
  using assms by (auto simp: enter_frame_def Let_def cs_config_def zero_iov_def)

lemma heap_shape_buffers_allocated:
  assumes "buffers_allocated n s (t :: 'w cs)"
  shows "heap_shape t = (\<lambda>p. if brk s \<le> p \<and> p < brk s + n
                         then Some (unat (test_string_length s)) else heap_shape s p)"
  using assms by (auto simp: buffers_allocated_def heap_shape_def fun_eq_iff)

lemma fill_request_param_cases:
  assumes enter: "enter_frame s = (ctx, iov, s1)"
    and fill: "fill_request_param E iov c ctx s1 = (filled, t)" and wf: "cs_wf s"
  shows "case filled of
           None \<Rightarrow> cs_keeps s (leave_frame ctx t)
         | Some (iov', msg) \<Rightarrow> prepared (held s) s t ctx iov'"
proof -
  note ef = enter_frame_fields [OF enter]
  obtain r iov2 s2 where m: "buffer_malloc E iov s1 = (r, iov2, s2)" by (metis prod_cases3)
  have wf1: "wf_heap s1" using wf ef by (simp add: cs_wf_def wf_heap_def)
  have cnt: "0 < iov_cnt s1" using wf ef by (simp add: cs_wf_def cs_config_def)
  have fresh: "frame_iovs s ctx = None" using wf ef by (auto simp: cs_wf_def)
  show ?thesis
  proof (cases "test_mem_type s1 = MEM_HOST")
    case False
    with buffer_malloc_other [of E s1 r iov2 s2] m ef cnt have "r = -1" "s2 = s1" by simp_all
    with fill m have "filled = None" "t = s1" by (simp_all add: fill_request_param_def)
    with ef fresh show ?thesis
      by (auto simp: cs_keeps_def leave_frame_def cs_config_def heap_shape_def frame_iovs_def fun_eq_iff)
  next
    case True
    from buffer_malloc_host [OF _ wf1 True] m ef(2)
    consider (ok) "r = 0" "iov2 = fresh_iov (brk s1) (unat (iov_cnt s1)) (test_string_length s1)"
        "buffers_allocated (unat (iov_cnt s1)) s1 s2"
      | (failed) w b where "r = -1" "s2 = s1\<lparr>world := w, brk := b\<rparr>" "brk s1 \<le> b"
      by blast
    then show ?thesis
    proof cases
      case failed
      with fill m have "filled = None" "t = s2" by (simp_all add: fill_request_param_def)
      with failed ef fresh show ?thesis
        by (auto simp: cs_keeps_def leave_frame_def cs_config_def heap_shape_def frame_iovs_def fun_eq_iff)
    next
      case ok
      note ba = buffers_allocated_simps [OF ok(3) wf1] heap_shape_buffers_allocated [OF ok(3)]
      obtain r3 s3 where f: "(if c then fill_buffer E iov2 s2 else (0, s2)) = (r3, s3)" by fastforce
      have s3: "heap_only s2 s3" "heap_shape s3 = heap_shape s2" "brk s2 \<le> brk s3"
        using f fill_buffer_frame [of E iov2 s2 r3 s3] ba(3) by (auto split: if_splits)
      have ho: "heap_only s1 s3" using ba(1) s3(1) by (rule heap_only_trans)
      define s4 where "s4 = s3\<lparr>frames := (frames s3)(ctx \<mapsto> \<lparr>fr_iov = iov2, fr_complete = 0\<rparr>)\<rparr>"
      have prep: "prepared (held s) s s4 ctx iov2"
        using ef ba s3 ok True heap_only_cs [OF ho] heap_onlyD [OF ho]
        by (auto simp: prepared_def s4_def cs_config_def frame_iovs_def heap_shape_def fun_eq_iff)
      show ?thesis
      proof (cases "r3 = 0")
        case True
        with fill m ok(1) f have "t = s4" "\<exists>msg. filled = Some (iov2, msg)"
          by (auto simp: fill_request_param_def s4_def Let_def)
        with prep show ?thesis by auto
      next
        case False
        with fill m ok(1) f have t: "t = buffer_free iov2 s3" "filled = None"
          by (auto simp: fill_request_param_def Let_def)
        have "leave_frame ctx (buffer_free iov2 s3) = leave_frame ctx (buffer_free iov2 s4)"
          by (simp add: s4_def buffer_free_frames_upd leave_frame_def)
        with prepared_finish [OF prep wf] t show ?thesis by simp
      qed
    qed
  qed
qed

lemma call_post_frame:
  assumes "call_post E c bytes s = (r, t)"
  shows "cs_core t = cs_core s" "held t = monitor_step (held s) (EvPost c bytes r)"
proof -
  obtain ds w where t: "t = emit (EvPost c bytes r) (fold apply_dma ds (s\<lparr>world := w\<rparr>))"
    using assms by (auto simp: call_post_def split: prod.splits)
  have "cs_frame (s\<lparr>world := w\<rparr>) (fold apply_dma ds (s\<lparr>world := w\<rparr>))"
    by (rule fold_rel) (auto intro: cs_frame_refl cs_frame_trans cs_frame_apply_dma)
  then show "cs_core t = cs_core s"
    by (simp add: t cs_frame_def cs_view_def) (simp add: cs_core_def heap_shape_def frame_iovs_def fun_eq_iff)
  show "held t = monitor_step (held s) (EvPost c bytes r)" by (simp add: t)
qed

lemma print_iov_from_frame:
  "held (print_iov_from msg vs s) = held s \<and> cs_core (print_iov_from msg vs s) = cs_core s"
proof (induction msg vs s rule: print_iov_from.induct)
  case (1 msg s)
  show ?case by simp
next
  case (2 msg v vs s)
  have core: "cs_core (emit (EvPrint str) s') = cs_core s'" "cs_core (fault f s') = cs_core s'" for str f and s' :: "'a cs"
    by (simp_all add: cs_core_def frame_iovs_def fun_eq_iff)
  obtain msg' s1 where m: "(case test_mem_type s of
                        MEM_HOST \<Rightarrow>
                          (case load (iov_buffer v) 0 (unat (test_string_length s)) s of
                             None \<Rightarrow> (msg, fault (BadLoad (iov_buffer v)) s)
                           | Some bs \<Rightarrow> (bs, s))
                      | _ \<Rightarrow> (msg, s)) = (msg', s1)" by fastforce
  then have s1: "held s1 = held s" "cs_core s1 = cs_core s"
    by (auto simp: core split: mem_type.splits option.splits)
  define s2 where "s2 = (case c_string msg' of None \<Rightarrow> fault BadString s1 | Some str \<Rightarrow> emit (EvPrint str) s1)"
  have s2: "held s2 = held s" "cs_core s2 = cs_core s"
    using s1 by (auto simp: s2_def core split: option.splits)
  have "print_iov_from msg (v # vs) s = print_iov_from msg' vs s2"
    using m by (simp add: s2_def Let_def)
  with "2.IH" [OF refl refl m [symmetric] s2_def] s2 show ?case by simp
qed

lemma print_result_frame [simp]:
  "held (print_result is_server iov i s) = held s" "cs_core (print_result is_server iov i s) = cs_core s"
  by (simp_all add: print_result_def print_iov_def print_iov_from_frame)

text \<open>The wait of a request: the request is released, nothing else is.\<close>

lemma request_wait_frame:
  assumes run: "request_wait E wk request ctx s = Some (st, t)" and held: "held s = Some (M + req_of request)"
  shows "held t = Some M" "cs_core t = cs_core s"
proof -
  have "held t = Some M \<and> cs_core t = cs_core s"
  proof (cases request)
    case (ReqPtr r)
    with run obtain s1 where w: "while_option (\<lambda>s. ctx_complete ctx s = 0) (cs_progress E wk) s = Some s1"
        and t: "t = call_void E (ReqFree r) s1"
      by (auto simp: request_wait_def bind_eq_Some_conv)
    have "cs_frame s s1" using w by (rule cs.wait_R)
    then have "held s1 = Some (add_mset (RRequest r) M)" "cs_core s1 = cs_core s"
      using held ReqPtr by (simp_all add: cs_frame_def cs_view_def)
    then show ?thesis
      by (simp add: t monitor_step_release)
        (simp add: call_void_def emit_def cs_core_def heap_shape_def frame_iovs_def fun_eq_iff)
  qed (use run held in \<open>auto simp: request_wait_def\<close>)
  then show "held t = Some M" "cs_core t = cs_core s" by simp_all
qed

lemma prepared_core:
  "prepared H s t ctx iov \<Longrightarrow> held u = H' \<Longrightarrow> cs_core u = cs_core t \<Longrightarrow> prepared H' s u ctx iov"
  by (auto simp: prepared_def cs_core_def cs_config_def)

lemma request_finalize_prepared:
  assumes prep: "prepared (Some (M + req_of request)) s t ctx iov"
    and run: "request_finalize E wk request ctx is_server iov i t = Some (ret, u)"
  obtains v where "prepared (Some M) s v ctx iov" "u = buffer_free iov v" "ret = 0 \<or> ret = -1"
proof -
  from run obtain st s1 where w: "request_wait E wk request ctx t = Some (st, s1)"
    by (auto simp: request_finalize_def bind_eq_Some_conv)
  have "held t = Some (M + req_of request)" using prep by (simp add: prepared_def)
  note s1 = request_wait_frame [OF w this]
  from run w obtain v where v: "v = s1 \<or> v = print_result is_server iov i s1" "u = buffer_free iov v"
      "ret = 0 \<or> ret = -1"
    by (auto simp: request_finalize_def split: if_splits)
  have "prepared (Some M) s v ctx iov"
    by (rule prepared_core [OF prep]) (use v(1) s1 in auto)
  with v that show thesis by blast
qed

text \<open>
  The common shape of the three transfers: enter, prepare, get a request in a state that still has
  the buffers, finish.
\<close>

lemma transfer_keeps:
  assumes wf: "cs_wf s" and held: "held s = Some M"
    and prep: "prepared (Some (M + req_of request)) s t ctx iov"
    and run: "request_finalize E wk request ctx is_server iov i t = Some (ret, u)"
  shows "cs_keeps s (leave_frame ctx u) \<and> (ret = 0 \<or> ret = -1)"
proof -
  obtain v where v: "prepared (Some M) s v ctx iov" "u = buffer_free iov v" "ret = 0 \<or> ret = -1"
    using request_finalize_prepared [OF prep run] by blast
  with prepared_finish [of s v ctx iov] wf held show ?thesis by simp
qed

lemma call_post_prepared:
  assumes prep: "prepared (Some M) s t ctx iov" and post: "call_post E c bytes t = (r, u)"
    and neutral: "released_by c = {#}"
  shows "prepared (Some (M + req_of r)) s u ctx iov"
proof -
  have "held t = Some M" using prep by (simp add: prepared_def)
  with call_post_frame [OF post] neutral show ?thesis
    by (intro prepared_core [OF prep]) (simp_all add: monitor_step_def)
qed

lemma call_post_cb_prepared:
  assumes prep: "prepared (Some M) s t ctx iov" and post: "call_post_cb E (cs_dispatch E) c bytes t = (r, u)"
    and neutral: "released_by c = {#}"
  shows "prepared (Some (M + req_of r)) s u ctx iov"
proof -
  from post obtain us v where v: "call_post E c bytes t = (r, v)" and u: "u = fold (cs_dispatch E) us v"
    by (rule call_post_cb_cases)
  show ?thesis
    unfolding u by (rule prepared_frame [OF call_post_prepared [OF prep v neutral] cs.fold_hnd])
qed

lemma prepare_cases:
  assumes wf: "cs_wf s" and held: "held s = Some M"
  obtains (failed) ctx iov s1 s2 where "enter_frame s = (ctx, iov, s1)"
      "fill_request_param E iov c ctx s1 = (None, s2)" "cs_keeps s (leave_frame ctx s2)"
  | (ready) ctx iov s1 iov' msg s2 where "enter_frame s = (ctx, iov, s1)"
      "fill_request_param E iov c ctx s1 = (Some (iov', msg), s2)" "prepared (Some M) s s2 ctx iov'"
proof -
  obtain ctx iov s1 where e: "enter_frame s = (ctx, iov, s1)" by (metis prod_cases3)
  obtain filled s2 where f: "fill_request_param E iov c ctx s1 = (filled, s2)" by fastforce
  note fc = fill_request_param_cases [OF e f wf]
  show thesis
  proof (cases filled)
    case None
    with e f fc show thesis by (intro failed) simp_all
  next
    case (Some p)
    with e f fc held show thesis by (cases p) (auto intro: ready)
  qed
qed

lemma send_recv_stream_keeps:
  assumes wf: "cs_wf s" and held: "held s = Some M"
    and run: "send_recv_stream E wk ep is_server i s = Some (ret, t)"
  shows "cs_keeps s t \<and> (ret = 0 \<or> ret = -1)"
  using wf held
proof (cases rule: prepare_cases [where E = E and c = "\<not> is_server"])
  case failed
  with run show ?thesis by (simp add: send_recv_stream_def)
next
  case (ready ctx iov s1 iov' msg s2)
  obtain r s3 where post: "(if \<not> is_server
      then call_post E (StreamSend ep msg (Some ctx)) (gather msg s2) s2
      else call_post E (StreamRecv ep msg True (Some ctx)) [] s2) = (r, s3)" by fastforce
  then have prep: "prepared (Some (M + req_of r)) s s3 ctx iov'"
    using ready(3) by (auto split: if_splits intro: call_post_prepared)
  from run ready post obtain u where
      "request_finalize E wk r ctx is_server iov' i s3 = Some (ret, u)" "t = leave_frame ctx u"
    by (auto simp: send_recv_stream_def bind_eq_Some_conv simp del: not_not)
  with transfer_keeps [OF wf held prep] show ?thesis by blast
qed

lemma send_recv_tag_keeps:
  assumes wf: "cs_wf s" and held: "held s = Some M"
    and run: "send_recv_tag E wk ep is_server i s = Some (ret, t)"
  shows "cs_keeps s t \<and> (ret = 0 \<or> ret = -1)"
  using wf held
proof (cases rule: prepare_cases [where E = E and c = "\<not> is_server"])
  case failed
  with run show ?thesis by (simp add: send_recv_tag_def)
next
  case (ready ctx iov s1 iov' msg s2)
  obtain r s3 where post: "(if \<not> is_server
      then call_post E (TagSend ep msg TAG (Some ctx)) (gather msg s2) s2
      else call_post E (TagRecv wk msg TAG 0 (Some ctx)) [] s2) = (r, s3)" by fastforce
  then have prep: "prepared (Some (M + req_of r)) s s3 ctx iov'"
    using ready(3) by (auto split: if_splits intro: call_post_prepared)
  from run ready post obtain u where
      "request_finalize E wk r ctx is_server iov' i s3 = Some (ret, u)" "t = leave_frame ctx u"
    by (auto simp: send_recv_tag_def bind_eq_Some_conv simp del: not_not)
  with transfer_keeps [OF wf held prep] show ?thesis by blast
qed

text \<open>The active message: the wait for the callback lies between the preparation and the request.\<close>

lemma prepared_am:
  "prepared H s t ctx iov \<Longrightarrow> prepared H s (t\<lparr>am_recv_buf := b\<rparr>) ctx iov"
  "prepared H s t ctx iov \<Longrightarrow> prepared H s (t\<lparr>am_last := l\<rparr>) ctx iov"
  by (auto simp: prepared_def cs_config_def heap_shape_def frame_iovs_def fun_eq_iff)

lemma send_recv_am_keeps:
  assumes wf: "cs_wf s" and held: "held s = Some M"
    and run: "send_recv_am E wk ep is_server i s = Some (ret, t)"
  shows "cs_keeps s t \<and> (ret = 0 \<or> ret = -1)"
  using wf held
proof (cases rule: prepare_cases [where E = E and c = "\<not> is_server"])
  case failed
  with run show ?thesis by (simp add: send_recv_am_def)
next
  case (ready ctx iov s1 iov' msg s2)
  have "\<exists>r s3 u. prepared (Some (M + req_of r)) s s3 ctx iov' \<and>
      request_finalize E wk r ctx is_server iov' i s3 = Some (ret, u) \<and> t = leave_frame ctx u"
  proof (cases is_server)
    case False
    obtain r s3 where post: "call_post E (AmSend ep TEST_AM_ID msg (Some ctx)) (gather msg s2) s2 = (r, s3)"
      by fastforce
    with ready(3) have "prepared (Some (M + req_of r)) s s3 ctx iov'"
      by (auto intro: call_post_prepared)
    with run ready post False show ?thesis by (auto simp: send_recv_am_def bind_eq_Some_conv)
  next
    case True
    let ?s2 = "s2\<lparr>am_recv_buf := Some ctx\<rparr>"
    from run ready True obtain s4 where
        w: "while_option (\<lambda>s. am_last s = am_complete s) (cs_progress E wk) ?s2 = Some s4"
      by (auto simp: send_recv_am_def bind_eq_Some_conv Let_def)
    let ?s5 = "s4\<lparr>am_last := am_last s4 + 1\<rparr>"
    have p5: "prepared (Some M) s ?s5 ctx iov'"
      by (intro prepared_am prepared_frame [OF _ cs.wait_R [OF w]] ready(3))
    obtain r s3 where post: "(if am_is_rndv ?s5 \<noteq> 0
        then call_post_cb E (cs_dispatch E) (AmRecvData wk (am_desc ?s5) msg (Some ctx) [NO_IMM_CMPL]) [] ?s5
        else (ReqNull, ?s5)) = (r, s3)"
      by fastforce
    with p5 have "prepared (Some (M + req_of r)) s s3 ctx iov'"
      by (auto split: if_splits intro: call_post_cb_prepared)
    moreover from run ready True w post obtain u where
        "request_finalize E wk r ctx is_server iov' i s3 = Some (ret, u)" "t = leave_frame ctx u"
      by (auto simp: send_recv_am_def bind_eq_Some_conv Let_def split: if_splits)
    ultimately show ?thesis by blast
  qed
  with transfer_keeps [OF wf held] show ?thesis by blast
qed

section \<open>What a transfer sends, receives and prints\<close>

text \<open>The buffer argument for \<open>k\<close> new blocks from \<open>b\<close> on.\<close>

definition payload_of :: "iov list \<Rightarrow> u64 \<Rightarrow> payload" where
  "payload_of iov cnt = (if cnt = 1 then Contig (iov_buffer (hd iov)) (iov_length (hd iov)) else IovArray iov cnt)"

lemma load_filled:
  "holds_bytes b k x s \<Longrightarrow> i < k \<Longrightarrow> length (x i) = n \<Longrightarrow> load (b + i) 0 n s = Some (map Some (x i))"
  by (simp add: holds_bytes_def load_def)

lemma unat_eq_1: "unat (cnt :: u64) = Suc 0 \<longleftrightarrow> cnt = 1"
  by (metis One_nat_def unat_1 word_unat_eq_iff)

lemma gather_filled:
  assumes filled: "holds_bytes b k x s" and len: "\<And>i. i < k \<Longrightarrow> length (x i) = unat len" and cnt: "unat cnt = k"
  shows "gather (payload_of (fresh_iov b k len) cnt) s = map Some (concat (map x [0..<k]))"
proof (cases "cnt = 1")
  case True
  with cnt have k: "k = 1" by simp
  with load_filled [OF filled, of 0 "unat len"] len show ?thesis
    by (simp add: payload_of_def True fresh_iov_def)
next
  case False
  have "map (\<lambda>v. case load (iov_buffer v) 0 (unat (iov_length v)) s of None \<Rightarrow> [] | Some bs \<Rightarrow> bs) (fresh_iov b k len) =
      map (\<lambda>i. map Some (x i)) [0..<k]"
    using load_filled [OF filled] len by (simp add: fresh_iov_def)
  then show ?thesis using False cnt by (simp add: payload_of_def map_concat comp_def)
qed

text \<open>Printing: one line for each buffer, up to the NUL.\<close>

lemma print_iov_from_filled:
  "holds_bytes b k x s \<Longrightarrow> test_mem_type s = MEM_HOST \<Longrightarrow> unat (test_string_length s) = n \<Longrightarrow>
   \<forall>i<k. length (x i) = n \<and> c_string (map Some (x i)) = Some (str i) \<Longrightarrow>
   print_iov_from msg (fresh_iov b k len) s = s\<lparr>trace := trace s @ map (EvPrint \<circ> str) [0..<k]\<rparr>"
proof (induction k arbitrary: b x str s msg)
  case 0
  then show ?case by (simp add: fresh_iov_def)
next
  case (Suc k)
  let ?s = "s\<lparr>trace := trace s @ [EvPrint (str 0)]\<rparr>"
  have f: "heap s b = Some (map Some (x 0))" "holds_bytes (Suc b) k (x \<circ> Suc) ?s"
    using Suc.prems(1) by (simp_all add: holds_bytes_Suc) (simp add: holds_bytes_def)
  have l: "load b 0 n s = Some (map Some (x 0))" using f(1) Suc.prems(4) by (simp add: load_def)
  have "print_iov_from msg (fresh_iov b (Suc k) len) s = print_iov_from (map Some (x 0)) (fresh_iov (Suc b) k len) ?s"
    using Suc.prems l by (simp add: fresh_iov_Suc emit_def)
  also have "\<dots> = ?s\<lparr>trace := trace ?s @ map (EvPrint \<circ> (str \<circ> Suc)) [0..<k]\<rparr>"
    using Suc.prems f(2) by (intro Suc.IH) auto
  also have "\<dots> = s\<lparr>trace := trace s @ map (EvPrint \<circ> str) [0..<Suc k]\<rparr>"
    by (simp add: upt_conv_Cons map_Suc_upt [symmetric] comp_def del: upt_Suc)
  finally show ?case .
qed

text \<open>The iterations that are printed.\<close>

definition printed :: "int \<Rightarrow> 'w cs \<Rightarrow> bool" where
  "printed i s \<longleftrightarrow> i = 0 \<or> i = sint (num_iterations s) - 1 \<or> (i + 1) mod PRINT_INTERVAL = 0"

text \<open>The buffers of a transfer, when the allocator has memory: holds_bytes for the sender.\<close>

lemma fill_request_param_ok:
  assumes mem: "\<And>k w. fst (alloc_ok E k w)" and wf: "cs_wf s" and host: "test_mem_type s = MEM_HOST"
    and n: "unat (test_string_length s) = n" "0 < n" "n < 2 ^ 31" and k: "unat (iov_cnt s) = k"
    and enter: "enter_frame s = (ctx, iov, s1)"
  shows "\<exists>t. fill_request_param E iov c ctx s1 =
      (Some (fresh_iov (brk s) k (test_string_length s),
             payload_of (fresh_iov (brk s) k (test_string_length s)) (iov_cnt s)), t) \<and>
    (if c then holds_bytes (brk s) k (\<lambda>_. test_string n) t
     else \<forall>i<k. heap t (brk s + i) = Some (replicate n None)) \<and>
    trace t = trace s \<and> faults t = faults s \<and> cs_config t = cs_config s \<and> wf_heap t \<and>
    am_last t = am_last s \<and> am_complete t = am_complete s \<and> am_is_rndv t = am_is_rndv s \<and>
    frames t ctx = Some \<lparr>fr_iov = fresh_iov (brk s) k (test_string_length s), fr_complete = 0\<rparr>"
proof -
  note ef = enter_frame_fields [OF enter]
  have rest: "am_last s1 = am_last s" "am_complete s1 = am_complete s" "am_is_rndv s1 = am_is_rndv s"
    using enter by (auto simp: enter_frame_def Let_def)
  obtain r iov2 s2 where m: "buffer_malloc E iov s1 = (r, iov2, s2)" by (metis prod_cases3)
  have wf1: "wf_heap s1" using wf ef by (simp add: cs_wf_def wf_heap_def)
  have cfg: "test_mem_type s1 = MEM_HOST" "test_string_length s1 = test_string_length s" "iov_cnt s1 = iov_cnt s"
    using ef(6) host by (simp_all add: cs_config_def)
  have "r = 0"
    using buffer_malloc_from_mem [OF mem cfg(1), of "[]" iov] m wf1 by (simp add: buffer_malloc_def wf_heap_def)
  with buffer_malloc_host [of E s1 r iov2 s2] m wf1 cfg ef k have iov2: "iov2 = fresh_iov (brk s) k (test_string_length s)"
      and ba: "buffers_allocated k s1 s2" by auto
  note ba' = buffers_allocated_simps [OF ba wf1]
  have none: "heap s2 (brk s + i) = Some (replicate n None)" if "i < k" for i
    using ba'(5) [OF that] ef(5) cfg n by simp
  have "\<exists>s3. (if c then fill_buffer E iov2 s2 else (0, s2)) = (0, s3) \<and> heap_only s2 s3 \<and> wf_heap s3 \<and> faults s3 = faults s2 \<and>
      (if c then holds_bytes (brk s) k (\<lambda>_. test_string n) s3 else \<forall>i<k. heap s3 (brk s + i) = Some (replicate n None))"
  proof (cases c)
    case True
    have "test_mem_type s2 = MEM_HOST" using heap_onlyD(2) [OF ba'(1)] cfg by simp
    with fill_buffer_ok [OF mem n ba'(3), of k "brk s"] none iov2 True show ?thesis by auto
  qed (use none ba'(3) in auto)
  then obtain s3 where s3: "(if c then fill_buffer E iov2 s2 else (0, s2)) = (0, s3)" "heap_only s2 s3" "wf_heap s3"
      "faults s3 = faults s2"
      "if c then holds_bytes (brk s) k (\<lambda>_. test_string n) s3 else \<forall>i<k. heap s3 (brk s + i) = Some (replicate n None)"
    by blast
  have ho: "heap_only s1 s3" using ba'(1) s3(2) by (rule heap_only_trans)
  define t where "t = s3\<lparr>frames := (frames s3)(ctx \<mapsto> \<lparr>fr_iov = iov2, fr_complete = 0\<rparr>)\<rparr>"
  have "fill_request_param E iov c ctx s1 = (Some (iov2, payload_of iov2 (iov_cnt s3)), t)"
    using m s3(1) \<open>r = 0\<close> by (simp add: fill_request_param_def t_def payload_of_def Let_def)
  moreover have "iov_cnt s3 = iov_cnt s" using heap_only_cs(2) [OF ho] cfg by simp
  moreover have "if c then holds_bytes (brk s) k (\<lambda>_. test_string n) t else \<forall>i<k. heap t (brk s + i) = Some (replicate n None)"
    using s3(5) by (simp add: t_def holds_bytes_def split: if_splits)
  moreover have "trace t = trace s \<and> faults t = faults s \<and> cs_config t = cs_config s \<and> wf_heap t \<and>
    am_last t = am_last s \<and> am_complete t = am_complete s \<and> am_is_rndv t = am_is_rndv s \<and> frames t ctx = Some \<lparr>fr_iov = iov2, fr_complete = 0\<rparr>"
    using heap_onlyD [OF ho] heap_only_cs [OF ho] ef rest ba'(4) s3(3,4)
    by (simp add: t_def cs_config_def wf_heap_def)
  ultimately show ?thesis by (auto simp: iov2)
qed


text \<open>Finishing a transfer that is complete: print, release, 0.\<close>

lemma request_finalize_null:
  assumes h: "holds_bytes b k x s" and host: "test_mem_type s = MEM_HOST" and n: "unat (test_string_length s) = n"
    and str: "\<forall>i<k. length (x i) = n \<and> c_string (map Some (x i)) = Some (str i)" and b: "0 < b"
  shows "\<exists>t. request_finalize E wk ReqNull ctx is_server (fresh_iov b k len) i s = Some (0, t) \<and>
     trace t = trace s @ (if printed i s then map (EvPrint \<circ> str) [0..<k] else []) \<and> faults t = faults s \<and> world t = world s \<and>
     am_last t = am_last s \<and> am_complete t = am_complete s \<and> am_is_rndv t = am_is_rndv s"
proof -
  define s' where "s' = (if printed i s then s\<lparr>trace := trace s @ map (EvPrint \<circ> str) [0..<k]\<rparr> else s)"
  have live: "\<forall>i<k. heap s' (b + i) \<noteq> None" using h by (auto simp: s'_def holds_bytes_def)
  have host': "test_mem_type s' = MEM_HOST" using host by (simp add: s'_def)
  have "print_result is_server (fresh_iov b k len) i s = s\<lparr>trace := trace s @ map (EvPrint \<circ> str) [0..<k]\<rparr>"
    using print_iov_from_filled [OF h host n str] by (simp add: print_result_def print_iov_def)
  then have "request_finalize E wk ReqNull ctx is_server (fresh_iov b k len) i s =
      Some (0, buffer_free (fresh_iov b k len) s')"
    by (auto simp: request_finalize_def request_wait_def printed_def s'_def)
  then show ?thesis
    unfolding buffer_free_fresh [OF host' b live] by (simp add: s'_def)
qed

text \<open>
  The sending side, over each of the three APIs, with a library that completes at once: one post
  of the test strings, then the lines.
\<close>

lemma send_ok:
  fixes s :: "'w cs"
  assumes mem: "\<And>k w. fst (alloc_ok E k w)" and now: "\<And>c bs w. fst (u_post E c bs w) = (ReqNull, [])"
    and wf: "cs_wf s" and host: "test_mem_type s = MEM_HOST"
    and n: "unat (test_string_length s) = n" "0 < n" "n < 2 ^ 31" and k: "unat (iov_cnt s) = k"
    and enter: "enter_frame s = (ctx, iov, s1)"
  obtains iov' msg s2 s3 t where
    "fill_request_param E iov True ctx s1 = (Some (iov', msg), s2)"
    "msg = payload_of iov' (iov_cnt s)" "iov' = fresh_iov (brk s) k (test_string_length s)"
    "call_post E (c msg ctx) (gather msg s2) s2 = (ReqNull, s3)"
    "request_finalize E wk ReqNull ctx is_server iov' i s3 = Some (0, t)"
    "trace t = trace s @ EvPost (c msg ctx) (map Some (concat (replicate k (test_string n)))) ReqNull #
       (if printed i s then replicate k (EvPrint (map letter [0..<n - 1])) else [])"
    "faults t = faults s"
proof -
  let ?len = "test_string_length s"
  let ?iov = "fresh_iov (brk s) k ?len" let ?msg = "payload_of ?iov (iov_cnt s)"
  from fill_request_param_ok [OF mem wf host n k enter, of True] obtain s2 where
      f: "fill_request_param E iov True ctx s1 = (Some (?iov, ?msg), s2)"
    and s2: "holds_bytes (brk s) k (\<lambda>_. test_string n) s2" "trace s2 = trace s" "faults s2 = faults s"
      "cs_config s2 = cs_config s"
    by auto
  have g: "gather ?msg s2 = map Some (concat (replicate k (test_string n)))"
    using gather_filled [OF s2(1)] n k by (simp add: map_replicate_const)
  obtain w where w: "u_post E (c ?msg ctx) (gather ?msg s2) (world s2) = ((ReqNull, []), w)"
    using now by (metis prod.collapse)
  define s3 where "s3 = emit (EvPost (c ?msg ctx) (gather ?msg s2) ReqNull) (s2\<lparr>world := w\<rparr>)"
  have p: "call_post E (c ?msg ctx) (gather ?msg s2) s2 = (ReqNull, s3)"
    by (simp add: call_post_def w s3_def)
  have h3: "holds_bytes (brk s) k (\<lambda>_. test_string n) s3" using s2(1) by (simp add: s3_def holds_bytes_def)
  have cfg: "test_mem_type s3 = MEM_HOST" "unat (test_string_length s3) = n" "num_iterations s3 = num_iterations s"
    using s2(4) host n(1) by (simp_all add: s3_def cs_config_def)
  have b: "0 < brk s" using wf by (simp add: cs_wf_def wf_heap_def)
  have "\<forall>i<k. length (test_string n) = n \<and> c_string (map Some (test_string n)) = Some (map letter [0..<n - 1])"
    using n(2) by (simp add: c_string_test_string)
  from request_finalize_null [OF h3 cfg(1,2) this b, of E wk ctx is_server ?len i] obtain t where
      t: "request_finalize E wk ReqNull ctx is_server ?iov i s3 = Some (0, t)"
    "trace t = trace s3 @ (if printed i s3 then map (EvPrint \<circ> (\<lambda>_. map letter [0..<n - 1])) [0..<k] else [])"
    "faults t = faults s3" by auto
  have "printed i s3 = printed i s" by (simp add: printed_def cfg)
  with t s2 g have "trace t = trace s @ EvPost (c ?msg ctx) (map Some (concat (replicate k (test_string n)))) ReqNull #
       (if printed i s then replicate k (EvPrint (map letter [0..<n - 1])) else [])" "faults t = faults s"
    by (simp_all add: s3_def map_replicate_const comp_def)
  with that f p t(1) show thesis by blast
qed

text \<open>The call with which each API sends.\<close>

fun send_call :: "send_recv_type \<Rightarrow> nat \<Rightarrow> payload \<Rightarrow> nat \<Rightarrow> ucx_call" where
  "send_call SEND_RECV_STREAM ep msg ctx = StreamSend ep msg (Some ctx)"
| "send_call SEND_RECV_TAG ep msg ctx = TagSend ep msg TAG (Some ctx)"
| "send_call _ ep msg ctx = AmSend ep TEST_AM_ID msg (Some ctx)"

lemma client_sends:
  fixes s :: "'w cs"
  assumes mem: "\<And>k w. fst (alloc_ok E k w)" and now: "\<And>c bs w. fst (u_post E c bs w) = (ReqNull, [])"
    and wf: "cs_wf s" and host: "test_mem_type s = MEM_HOST"
    and n: "unat (test_string_length s) = n" "0 < n" "n < 2 ^ 31" and k: "unat (iov_cnt s) = k"
    and type: "type \<in> {SEND_RECV_STREAM, SEND_RECV_TAG, SEND_RECV_AM}"
  shows "\<exists>t. client_server_communication E wk ep type False i s = Some (0, t) \<and>
    trace t = trace s @
      EvPost (send_call type ep (payload_of (fresh_iov (brk s) k (test_string_length s)) (iov_cnt s)) (next_frame s))
        (map Some (concat (replicate k (test_string n)))) ReqNull #
      (if printed i s then replicate k (EvPrint (map letter [0..<n - 1])) else []) \<and>
    faults t = faults s"
proof -
  obtain ctx iov s1 where e: "enter_frame s = (ctx, iov, s1)" by (metis prod_cases3)
  have ctx: "ctx = next_frame s" using enter_frame_fields [OF e] by simp
  obtain iov' msg s2 s3 t where ok:
    "fill_request_param E iov True ctx s1 = (Some (iov', msg), s2)"
    "msg = payload_of iov' (iov_cnt s)" "iov' = fresh_iov (brk s) k (test_string_length s)"
    "call_post E (send_call type ep msg ctx) (gather msg s2) s2 = (ReqNull, s3)"
    "request_finalize E wk ReqNull ctx False iov' i s3 = Some (0, t)"
    "trace t = trace s @ EvPost (send_call type ep msg ctx) (map Some (concat (replicate k (test_string n)))) ReqNull #
       (if printed i s then replicate k (EvPrint (map letter [0..<n - 1])) else [])"
    "faults t = faults s"
    using send_ok [OF mem now wf host n k e, of "\<lambda>msg ctx. send_call type ep msg ctx" wk False i] by metis
  have "client_server_communication E wk ep type False i s = Some (0, leave_frame ctx t)"
    using type e ok(1,4,5)
    by (auto simp: client_server_communication_def send_recv_stream_def send_recv_tag_def send_recv_am_def)
  with ok ctx show ?thesis by (auto simp: leave_frame_def)
qed

section \<open>Receiving\<close>

text \<open>
  How a library that has \<open>data\<close> at hand delivers it to the buffers a receive was posted with:
  entry after entry.
\<close>

fun scatter_iov :: "iov list \<Rightarrow> byte list \<Rightarrow> dma list" where
  "scatter_iov [] data = []"
| "scatter_iov (v # vs) data =
     (iov_buffer v, 0, take (unat (iov_length v)) data) # scatter_iov vs (drop (unat (iov_length v)) data)"

fun scatter :: "payload \<Rightarrow> byte list \<Rightarrow> dma list" where
  "scatter (Contig p n) data = [(p, 0, take (unat n) data)]"
| "scatter (IovArray vs n) data = scatter_iov (take (unat n) vs) data"

lemma scatter_iov_fresh:
  "unat len = n \<Longrightarrow> \<forall>i<k. \<exists>bs. heap s (b + i) = Some bs \<and> length bs = n \<Longrightarrow> k * n \<le> length data \<Longrightarrow>
   holds_bytes b k (\<lambda>i. take n (drop (i * n) data)) (fold apply_dma (scatter_iov (fresh_iov b k len) data) s) \<and>
   (\<forall>p<b. heap (fold apply_dma (scatter_iov (fresh_iov b k len) data) s) p = heap s p) \<and>
   (\<exists>h. fold apply_dma (scatter_iov (fresh_iov b k len) data) s = s\<lparr>heap := h\<rparr>)"
proof (induction k arbitrary: b s data)
  case 0
  have "\<exists>h. s = s\<lparr>heap := h\<rparr>" by (rule exI [of _ "heap s"]) simp
  then show ?case by (simp add: fresh_iov_def holds_bytes_def)
next
  case (Suc k)
  obtain bs where bs: "heap s b = Some bs" "length bs = n" using Suc.prems(2) by force
  define s1 where "s1 = s\<lparr>heap := (heap s)(b \<mapsto> map Some (take n data))\<rparr>"
  have st: "apply_dma (b, 0, take n data) s = s1"
    using bs Suc.prems(3) by (simp add: s1_def apply_dma_def memory_simps)
  let ?t = "fold apply_dma (scatter_iov (fresh_iov (Suc b) k len) (drop n data)) s1"
  have eq: "fold apply_dma (scatter_iov (fresh_iov b (Suc k) len) data) s = ?t"
    using Suc.prems(1) st by (simp add: fresh_iov_Suc)
  have IH: "holds_bytes (Suc b) k (\<lambda>i. take n (drop (i * n) (drop n data))) ?t \<and>
      (\<forall>p<Suc b. heap ?t p = heap s1 p) \<and> (\<exists>h. ?t = s1\<lparr>heap := h\<rparr>)"
    using Suc.prems by (intro Suc.IH) (auto simp: s1_def)
  then have "heap ?t b = Some (map Some (take n data))" by (simp add: s1_def)
  with IH show ?case
    unfolding eq by (simp add: holds_bytes_Suc comp_def algebra_simps) (auto simp: s1_def)
qed

lemma scatter_payload:
  assumes cnt: "unat cnt = k"
  shows "scatter (payload_of (fresh_iov b k len) cnt) data = scatter_iov (fresh_iov b k len) data"
proof (cases "cnt = 1")
  case True
  with cnt have "k = 1" by simp
  then show ?thesis by (simp add: payload_of_def True fresh_iov_def)
qed (use cnt in \<open>simp add: payload_of_def\<close>)

text \<open>The call with which each API that posts its receive at once does so.\<close>

fun recv_call :: "send_recv_type \<Rightarrow> nat \<Rightarrow> nat \<Rightarrow> payload \<Rightarrow> nat \<Rightarrow> ucx_call" where
  "recv_call SEND_RECV_STREAM wk ep msg ctx = StreamRecv ep msg True (Some ctx)"
| "recv_call SEND_RECV_TAG wk ep msg ctx = TagRecv wk msg TAG 0 (Some ctx)"
| "recv_call _ wk ep msg ctx = AmRecvData wk 0 msg (Some ctx) [NO_IMM_CMPL]"

lemma server_receives:
  fixes s :: "'w cs"
  assumes mem: "\<And>k w. fst (alloc_ok E k w)"
    and deliver: "\<And>msg ctx w. fst (u_post E (recv_call type wk ep msg ctx) [] w) = (ReqNull, scatter msg data)"
    and wf: "cs_wf s" and host: "test_mem_type s = MEM_HOST"
    and n: "unat (test_string_length s) = n" "0 < n" "n < 2 ^ 31" and k: "unat (iov_cnt s) = k"
    and data: "length data = k * n"
      "\<forall>i<k. c_string (map Some (take n (drop (i * n) data))) = Some (str i)"
    and type: "type \<in> {SEND_RECV_STREAM, SEND_RECV_TAG}"
  shows "\<exists>t. client_server_communication E wk ep type True i s = Some (0, t) \<and>
    trace t = trace s @
      EvPost (recv_call type wk ep (payload_of (fresh_iov (brk s) k (test_string_length s)) (iov_cnt s)) (next_frame s)) [] ReqNull #
      (if printed i s then map (EvPrint \<circ> str) [0..<k] else []) \<and>
    faults t = faults s"
proof -
  let ?len = "test_string_length s"
  let ?iov = "fresh_iov (brk s) k ?len" let ?msg = "payload_of ?iov (iov_cnt s)"
  let ?x = "\<lambda>i. take n (drop (i * n) data)"
  obtain ctx iov s1 where e: "enter_frame s = (ctx, iov, s1)" by (metis prod_cases3)
  have ctx: "ctx = next_frame s" using enter_frame_fields [OF e] by simp
  from fill_request_param_ok [OF mem wf host n k e, of False] obtain s2 where
      f: "fill_request_param E iov False ctx s1 = (Some (?iov, ?msg), s2)"
    and s2: "\<forall>i<k. heap s2 (brk s + i) = Some (replicate n None)" "trace s2 = trace s" "faults s2 = faults s"
      "cs_config s2 = cs_config s"
    by auto
  let ?c = "recv_call type wk ep ?msg ctx"
  obtain w where w: "u_post E ?c [] (world s2) = ((ReqNull, scatter ?msg data), w)"
    using deliver by (metis prod.collapse)
  have sc: "holds_bytes (brk s) k ?x (fold apply_dma (scatter ?msg data) (s2\<lparr>world := w\<rparr>)) \<and>
      (\<exists>h. fold apply_dma (scatter ?msg data) (s2\<lparr>world := w\<rparr>) = s2\<lparr>world := w, heap := h\<rparr>)"
    using scatter_iov_fresh [OF n(1), of k "s2\<lparr>world := w\<rparr>" "brk s" data] s2(1) data(1)
    by (simp add: scatter_payload [OF k])
  then obtain h where h: "fold apply_dma (scatter ?msg data) (s2\<lparr>world := w\<rparr>) = s2\<lparr>world := w, heap := h\<rparr>" by blast
  define s3 where "s3 = emit (EvPost ?c [] ReqNull) (s2\<lparr>world := w, heap := h\<rparr>)"
  have p: "call_post E ?c [] s2 = (ReqNull, s3)" by (simp add: call_post_def w h s3_def)
  have h3: "holds_bytes (brk s) k ?x s3" using sc h by (simp add: s3_def holds_bytes_def)
  have cfg: "test_mem_type s3 = MEM_HOST" "unat (test_string_length s3) = n" "num_iterations s3 = num_iterations s"
    using s2(4) host n(1) by (simp_all add: s3_def cs_config_def)
  have b: "0 < brk s" using wf by (simp add: cs_wf_def wf_heap_def)
  have "length (?x i) = n" if "i < k" for i
  proof -
    have "Suc i * n \<le> length data" using that data(1) by (simp only: mult_le_mono1 Suc_leI)
    then show ?thesis by simp
  qed
  then have "\<forall>i<k. length (?x i) = n \<and> c_string (map Some (?x i)) = Some (str i)" using data(2) by blast
  from request_finalize_null [OF h3 cfg(1,2) this b, of E wk ctx True ?len i] obtain t where
      t: "request_finalize E wk ReqNull ctx True ?iov i s3 = Some (0, t)"
    "trace t = trace s3 @ (if printed i s3 then map (EvPrint \<circ> str) [0..<k] else [])"
    "faults t = faults s3" by auto
  have "client_server_communication E wk ep type True i s = Some (0, leave_frame ctx t)"
    using type e f p t(1)
    by (auto simp: client_server_communication_def send_recv_stream_def send_recv_tag_def)
  moreover have "printed i s3 = printed i s" by (simp add: printed_def cfg)
  ultimately show ?thesis using t s2 ctx by (simp add: leave_frame_def) (simp add: s3_def)
qed

text \<open>
  The eager active message: the callback has put the data into the buffers of the frame that
  waits, so that reading them as one gives the message.
\<close>

lemma am_eager_delivered:
  assumes fr: "am_recv_buf s = Some f" "frames s f = Some fr" "fr_iov fr = fresh_iov b k len"
    and k: "unat (iov_cnt s) = k" and n: "test_string_length s = len" "unat len = n"
    and host: "test_mem_type s = MEM_HOST"
    and blocks: "\<forall>i<k. \<exists>bs. heap s (b + i) = Some bs \<and> length bs = n"
    and data: "length data = k * n"
    and cb: "ucp_am_data_cb hl (AmEager data) s = (st, t)"
  shows "st = UCS_OK" "am_complete t = am_complete s + 1" "am_is_rndv t = 0" "faults t = faults s"
    "gather (payload_of (fresh_iov b k len) (iov_cnt s)) t = map Some data"
proof -
  let ?s = "s\<lparr>am_complete := am_complete s + 1, am_is_rndv := 0\<rparr>"
  have "am_length (AmEager data) = of_nat (unat (iov_cnt s) * unat len)" by (simp add: data k n(2))
  also have "\<dots> = iov_cnt s * test_string_length s" by (simp add: n(1))
  finally have "am_length (AmEager data) = iov_cnt s * test_string_length s" .
  then have st: "st = UCS_OK" and t: "t = copy_data (fresh_iov b k len) data 0 ?s"
    using cb fr by (auto simp: ucp_am_data_cb_def)
  have c: "holds_bytes b k (\<lambda>i. take n (drop (i * n) data)) t \<and> faults t = faults s"
    using copy_data_fresh [of ?s len n k b 0 data] host n blocks data by (simp add: t)
  have "\<And>i. i < k \<Longrightarrow> length (take n (drop (i * n) data)) = n"
  proof -
    fix i assume "i < k"
    then have "Suc i * n \<le> length data" using data by (simp only: mult_le_mono1 Suc_leI)
    then show "length (take n (drop (i * n) data)) = n" by simp
  qed
  then have "gather (payload_of (fresh_iov b k len) (iov_cnt s)) t =
      map Some (concat (map (\<lambda>i. take n (drop (i * n) data)) [0..<k]))"
    using c k n by (intro gather_filled) auto
  with concat_take_drop [of k n data] data
  show "gather (payload_of (fresh_iov b k len) (iov_cnt s)) t = map Some data" by simp
  show "st = UCS_OK" "faults t = faults s" using st c by simp_all
  have "am_complete (copy_data vs d off u) = am_complete u \<and> am_is_rndv (copy_data vs d off u) = am_is_rndv u"
    for vs d off and u :: "'a cs"
  proof (induction vs d off u rule: copy_data.induct)
    case (2 v vs d off u)
    define u' where "u' = (case test_mem_type u of
                 MEM_HOST \<Rightarrow>
                   if off + unat (iov_length v) \<le> length d
                   then store (iov_buffer v) 0 (map Some (take (unat (iov_length v)) (drop off d))) u
                   else fault (BadLoad 0) u
               | _ \<Rightarrow> u)"
    have "am_complete u' = am_complete u" "am_is_rndv u' = am_is_rndv u"
      by (auto simp: u'_def store_def split: mem_type.split option.split)
    moreover have "copy_data (v # vs) d off u = copy_data vs d (off + unat (iov_length v)) u'"
      by (simp only: copy_data.simps Let_def u'_def)
    ultimately show ?case using "2.IH" [OF refl u'_def] by simp
  qed simp
  then show "am_complete t = am_complete s + 1" "am_is_rndv t = 0" by (simp_all add: t)
qed


text \<open>
  A message that was counted before the transfer began: the server does not wait, takes what the
  flag says of the last message, and for an eager one goes on with buffers nobody wrote to.
\<close>

lemma print_iov_from_none:
  "test_mem_type s = MEM_HOST \<Longrightarrow> unat (test_string_length s) = n \<Longrightarrow> \<forall>i<k. heap s (b + i) = Some (replicate n None) \<Longrightarrow>
   print_iov_from msg (fresh_iov b k len) s = s\<lparr>faults := faults s @ replicate k BadString\<rparr>"
proof (induction k arbitrary: b s msg)
  case 0
  then show ?case by (simp add: fresh_iov_def)
next
  case (Suc k)
  let ?s = "s\<lparr>faults := faults s @ [BadString]\<rparr>"
  have "heap s b = Some (replicate n None)" using Suc.prems(3) by force
  moreover have "c_string (replicate n None) = None" by (cases n) auto
  ultimately have "print_iov_from msg (fresh_iov b (Suc k) len) s =
      print_iov_from (replicate n None) (fresh_iov (Suc b) k len) ?s"
    using Suc.prems by (simp add: fresh_iov_Suc fault_def load_def)
  also have "\<dots> = ?s\<lparr>faults := faults ?s @ replicate k BadString\<rparr>"
    using Suc.prems by (intro Suc.IH) auto
  finally show ?case by simp
qed

lemma am_counted_before:
  fixes s :: "'w cs"
  assumes mem: "\<And>k w. fst (alloc_ok E k w)" and wf: "cs_wf s" and host: "test_mem_type s = MEM_HOST"
    and n: "unat (test_string_length s) = n" "0 < n" "n < 2 ^ 31" and k: "unat (iov_cnt s) = k"
    and counted: "am_last s \<noteq> am_complete s" "am_is_rndv s = 0"
  shows "\<exists>t. send_recv_am E wk ep True i s = Some (0, t) \<and> trace t = trace s \<and> am_last t = am_last s + 1 \<and>
    faults t = faults s @ (if printed i s then replicate k BadString else [])"
proof -
  let ?len = "test_string_length s"
  let ?iov = "fresh_iov (brk s) k ?len" let ?msg = "payload_of ?iov (iov_cnt s)"
  obtain ctx iov s1 where e: "enter_frame s = (ctx, iov, s1)" by (metis prod_cases3)
  from fill_request_param_ok [OF mem wf host n k e, of False] obtain s2 where
      f: "fill_request_param E iov False ctx s1 = (Some (?iov, ?msg), s2)"
    and s2: "\<forall>i<k. heap s2 (brk s + i) = Some (replicate n None)" "trace s2 = trace s" "faults s2 = faults s"
      "cs_config s2 = cs_config s" "am_last s2 = am_last s" "am_complete s2 = am_complete s" "am_is_rndv s2 = am_is_rndv s"
    by auto
  define s3 where "s3 = s2\<lparr>am_recv_buf := Some ctx, am_last := am_last s2 + 1\<rparr>"
  define s4 where "s4 = (if printed i s then s3\<lparr>faults := faults s3 @ replicate k BadString\<rparr> else s3)"
  have cfg: "test_mem_type s3 = MEM_HOST" "unat (test_string_length s3) = n" "num_iterations s3 = num_iterations s"
    using s2(4) host n(1) by (simp_all add: s3_def cs_config_def)
  have h3: "\<forall>i<k. heap s3 (brk s + i) = Some (replicate n None)" using s2(1) by (simp add: s3_def)
  have pr: "printed i s3 = printed i s" by (simp add: printed_def cfg)
  have "print_result True ?iov i s3 = s3\<lparr>faults := faults s3 @ replicate k BadString\<rparr>"
    using print_iov_from_none [OF cfg(1,2) h3] by (simp add: print_result_def print_iov_def)
  then have fin: "request_finalize E wk ReqNull ctx True ?iov i s3 = Some (0, buffer_free ?iov s4)"
    using pr by (auto simp: request_finalize_def request_wait_def printed_def s4_def)
  have b: "0 < brk s" using wf by (simp add: cs_wf_def wf_heap_def)
  have host4: "test_mem_type s4 = MEM_HOST" and live: "\<forall>i<k. heap s4 (brk s + i) \<noteq> None"
    using cfg(1) h3 by (auto simp: s4_def)
  have w: "while_option (\<lambda>s. am_last s = am_complete s) (cs_progress E wk) (s2\<lparr>am_recv_buf := Some ctx\<rparr>) =
      Some (s2\<lparr>am_recv_buf := Some ctx\<rparr>)"
    using counted(1) s2(5,6) by (intro while_option_done) simp
  have "send_recv_am E wk ep True i s = Some (0, leave_frame ctx (buffer_free ?iov s4))"
    using e f w fin counted(2) s2(7) by (simp add: send_recv_am_def s3_def Let_def)
  then show ?thesis
    unfolding buffer_free_fresh [OF host4 b live]
    using s2 by (auto simp: leave_frame_def s4_def s3_def)
qed

text \<open>Waiting for a request returns exactly when the flag of its context is set at some point.\<close>

lemma request_wait_returns_iff:
  "(\<exists>st t. request_wait E wk (ReqPtr r) ctx s = Some (st, t)) \<longleftrightarrow>
   (\<exists>n. ctx_complete ctx (progressed E (cs_dispatch E) wk n s) \<noteq> 0)"
  by (simp add: request_wait_def bind_eq_Some_conv while_option_returns_iff progressed_def)

lemmas transfer_run [run_simps] =
  print_iov_def print_result_def ctx_complete_def request_wait_def PRINT_INTERVAL_def request_finalize_def
  enter_frame_def leave_frame_def fill_request_param_def TAG_def TEST_AM_ID_def
  send_recv_stream_def send_recv_tag_def send_recv_am_def client_server_communication_def

section \<open>Properties\<close>

text \<open>
  A client transfer over any of the APIs, when there is memory and the library completes at once,
  posts exactly one operation, with the test string once for each buffer, prints that string when
  the iteration is one to print, and touches no memory it does not own.
\<close>

theorem client_sends_test_strings:
  fixes s :: "'w cs"
  assumes "\<And>k w. fst (alloc_ok E k w)" and "\<And>c bs w. fst (u_post E c bs w) = (ReqNull, [])"
    and "cs_wf s" and "test_mem_type s = MEM_HOST"
    and "unat (test_string_length s) = n" "0 < n" "n < 2 ^ 31" and "unat (iov_cnt s) = k"
    and "type \<in> {SEND_RECV_STREAM, SEND_RECV_TAG, SEND_RECV_AM}"
  shows "\<exists>t. client_server_communication E wk ep type False i s = Some (0, t) \<and>
    trace t = trace s @
      EvPost (send_call type ep (payload_of (fresh_iov (brk s) k (test_string_length s)) (iov_cnt s)) (next_frame s))
        (map Some (concat (replicate k (test_string n)))) ReqNull #
      (if printed i s then replicate k (EvPrint (map letter [0..<n - 1])) else []) \<and>
    faults t = faults s"
  by (rule client_sends [OF assms])

theorem client_sends_test_strings_witness:
  "\<exists>t. client_server_communication (obliging_env :: (unit, cs_upcall) env) 1 2 SEND_RECV_TAG False 0
         (cs_init ()\<lparr>iov_cnt := 2, test_string_length := 3\<rparr>) = Some (0, t) \<and>
       trace t = [EvPost (TagSend 2 (IovArray [\<lparr>iov_buffer = 1, iov_length = 3\<rparr>, \<lparr>iov_buffer = Suc 1, iov_length = 3\<rparr>] 2) TAG (Some 0))
                    (map Some [65, 66, 0, 65, 66, 0]) ReqNull, EvPrint [65, 66], EvPrint [65, 66]] \<and> faults t = []"
proof -
  let ?s = "cs_init ()\<lparr>iov_cnt := 2, test_string_length := 3\<rparr>"
  have "cs_wf ?s" by (simp add: cs_wf_def wf_heap_def cs_init_def frame_iovs_def)
  from client_sends_test_strings [of "obliging_env :: (unit, cs_upcall) env" ?s 3 2 SEND_RECV_TAG 1 2 0, OF _ _ this]
  show ?thesis
    by (simp add: cs_init_def payload_of_def fresh_iov_def upt_rec printed_def test_string_def letter_def
        replicate_numeral)
qed

text \<open>
  The round trip of one transfer that is complete at once: when the library hands a stream or tag server the bytes a client posted with the
  same options, the server prints in that iteration the lines the client printed, and neither
  touches memory it does not own.
\<close>

theorem server_prints_what_client_sent:
  fixes c :: "'w cs" and s :: "'v cs"
  assumes client: "\<And>k w. fst (alloc_ok Ec k w)" "\<And>call bs w. fst (u_post Ec call bs w) = (ReqNull, [])"
      "cs_wf c" "test_mem_type c = MEM_HOST" "unat (test_string_length c) = n" "unat (iov_cnt c) = k"
    and sent: "client_server_communication Ec wkc epc type False i c = Some (rc, c')"
      "trace c' = trace c @ EvPost call bytes r # printed_c" "bytes = map Some data"
    and server: "\<And>k w. fst (alloc_ok Es k w)"
      "\<And>msg ctx w. fst (u_post Es (recv_call type wks eps msg ctx) [] w) = (ReqNull, scatter msg data)"
      "cs_wf s" "test_mem_type s = MEM_HOST" "unat (test_string_length s) = n" "unat (iov_cnt s) = k"
      "num_iterations s = num_iterations c"
    and n: "0 < n" "n < 2 ^ 31" and type: "type \<in> {SEND_RECV_STREAM, SEND_RECV_TAG}"
  shows "\<exists>s' post. client_server_communication Es wks eps type True i s = Some (0, s') \<and>
    trace s' = trace s @ post # printed_c \<and> faults s' = faults s \<and> rc = 0 \<and> faults c' = faults c"
proof -
  obtain t where t: "client_server_communication Ec wkc epc type False i c = Some (0, t)"
    "trace t = trace c @
      EvPost (send_call type epc (payload_of (fresh_iov (brk c) k (test_string_length c)) (iov_cnt c)) (next_frame c))
        (map Some (concat (replicate k (test_string n)))) ReqNull #
      (if printed i c then replicate k (EvPrint (map letter [0..<n - 1])) else [])"
    "faults t = faults c"
    using client_sends [OF client(1-5) n client(6), of type wkc epc i] type by blast
  with sent have c: "rc = 0" "faults c' = faults c" "data = concat (replicate k (test_string n))"
      "printed_c = (if printed i c then replicate k (EvPrint (map letter [0..<n - 1])) else [])"
    by (auto dest: map_injective)
  have part: "take n (drop (j * n) data) = test_string n" if "j < k" for j
  proof -
    have "k = j + Suc (k - Suc j)" using that by simp
    then have "replicate k (test_string n) = replicate j (test_string n) @ test_string n # replicate (k - Suc j) (test_string n)"
      by (metis replicate_Suc replicate_add)
    then have "data = concat (replicate j (test_string n)) @ test_string n @ concat (replicate (k - Suc j) (test_string n))"
      by (simp add: c(3))
    moreover have "length (concat (replicate j (test_string n))) = j * n"
      by (simp add: length_concat sum_list_replicate)
    ultimately show ?thesis by simp
  qed
  have len: "length data = k * n" by (simp add: c(3) length_concat sum_list_replicate)
  have strs: "\<forall>j<k. c_string (map Some (take n (drop (j * n) data))) = Some (map letter [0..<n - 1])"
    using part n(1) by (simp add: c_string_test_string)
  obtain s' where s': "client_server_communication Es wks eps type True i s = Some (0, s')"
    "trace s' = trace s @
      EvPost (recv_call type wks eps (payload_of (fresh_iov (brk s) k (test_string_length s)) (iov_cnt s)) (next_frame s)) [] ReqNull #
      (if printed i s then map (EvPrint \<circ> (\<lambda>_. map letter [0..<n - 1])) [0..<k] else [])"
    "faults s' = faults s"
    using server_receives [OF server(1,2,3,4,5) n server(6) len strs type, of i] by blast
  have "printed i s = printed i c" by (simp add: printed_def server(7))
  with s' c show ?thesis by (auto simp: map_replicate_const comp_def)
qed

text \<open>An environment that delivers given bytes with every receive of a stream or a tagged message.\<close>

definition delivering_env :: "byte list \<Rightarrow> (unit, cs_upcall) env" where
  "delivering_env data = obliging_env
     \<lparr>u_post := (\<lambda>c bs w. case c of
                   StreamRecv _ msg _ _ \<Rightarrow> ((ReqNull, scatter msg data), w)
                 | TagRecv _ msg _ _ _ \<Rightarrow> ((ReqNull, scatter msg data), w)
                 | _ \<Rightarrow> ((ReqNull, []), w))\<rparr>"

theorem server_prints_what_client_sent_witness:
  "\<exists>c' s' post. client_server_communication (obliging_env :: (unit, cs_upcall) env) 1 2 SEND_RECV_STREAM False 0 (cs_init ()) = Some (0, c') \<and>
     client_server_communication (delivering_env (test_string 16)) 3 4 SEND_RECV_STREAM True 0 (cs_init ()) = Some (0, s') \<and>
     trace s' = [post, EvPrint (map letter [0..<15])] \<and> faults s' = []"
proof -
  let ?s = "cs_init ()" and ?E = "obliging_env :: (unit, cs_upcall) env"
  have s: "test_mem_type ?s = MEM_HOST" "unat (test_string_length ?s) = 16" "unat (iov_cnt ?s) = 1"
    by (simp_all add: cs_init_def)
  obtain c' where c': "client_server_communication ?E 1 2 SEND_RECV_STREAM False 0 ?s = Some (0, c')"
    "trace c' = trace ?s @ EvPost (send_call SEND_RECV_STREAM 2
       (payload_of (fresh_iov (brk ?s) 1 (test_string_length ?s)) (iov_cnt ?s)) (next_frame ?s))
       (map Some (concat (replicate 1 (test_string 16)))) ReqNull #
      (if printed 0 ?s then replicate 1 (EvPrint (map letter [0..<16 - 1])) else [])"
    using client_sends [of ?E ?s 16 1 SEND_RECV_STREAM 1 2 0] s by (auto simp: cs_wf_init)
  note p = server_prints_what_client_sent [OF _ _ cs_wf_init(1) s c' refl _ _ cs_wf_init(1) s refl,
      where Es = "delivering_env (concat (replicate 1 (test_string 16)))" and wks = 3 and eps = 4]
  have "\<exists>s' post. client_server_communication (delivering_env (concat (replicate 1 (test_string 16)))) 3 4 SEND_RECV_STREAM True 0 ?s = Some (0, s') \<and>
      trace s' = trace ?s @ post # (if printed 0 ?s then replicate 1 (EvPrint (map letter [0..<16 - 1])) else []) \<and>
      faults s' = faults ?s \<and> (0::int) = 0 \<and> faults c' = faults ?s"
    by (rule p) (simp_all add: delivering_env_def)
  then obtain s' post where "client_server_communication (delivering_env (test_string 16)) 3 4 SEND_RECV_STREAM True 0 ?s = Some (0, s')"
      "trace s' = [post, EvPrint (map letter [0..<15])]" "faults s' = []"
    by (auto simp: printed_def cs_init_def)
  with c'(1) show ?thesis by blast
qed

text \<open>
  C12: An eager active message is scattered over the buffers of the waiting transfer so that reading
  them one after the other gives the message; it is counted once, as no rendezvous, and nothing
  else is written.
\<close>

theorem am_eager_message_delivered:
  assumes "am_recv_buf s = Some f" "frames s f = Some fr" "fr_iov fr = fresh_iov b k len"
    and "unat (iov_cnt s) = k" and "test_string_length s = len" "unat len = n"
    and "test_mem_type s = MEM_HOST"
    and "\<forall>i<k. \<exists>bs. heap s (b + i) = Some bs \<and> length bs = n"
    and "length data = k * n"
    and "ucp_am_data_cb hl (AmEager data) s = (st, t)"
  shows "st = UCS_OK \<and> am_complete t = am_complete s + 1 \<and> am_is_rndv t = 0 \<and> faults t = faults s \<and>
    gather (payload_of (fresh_iov b k len) (iov_cnt s)) t = map Some data"
  using am_eager_delivered [OF assms] by blast


theorem am_eager_message_delivered_witness:
  "let s = cs_init ()\<lparr>iov_cnt := 2, test_string_length := 2, am_recv_buf := Some 0,
        frames := [0 \<mapsto> \<lparr>fr_iov = fresh_iov 1 2 2, fr_complete = 0\<rparr>],
        heap := [1 \<mapsto> [None, None], 2 \<mapsto> [None, None]], brk := 3\<rparr>;
       t = snd (ucp_am_data_cb 0 (AmEager [1, 2, 3, 4]) s)
   in am_complete t = 1 \<and> gather (payload_of (fresh_iov 1 2 2) 2) t = map Some [1, 2, 3, 4]"
proof -
  let ?s = "cs_init ()\<lparr>iov_cnt := 2, test_string_length := 2, am_recv_buf := Some 0,
        frames := [0 \<mapsto> \<lparr>fr_iov = fresh_iov 1 2 2, fr_complete = 0\<rparr>],
        heap := [1 \<mapsto> [None, None], 2 \<mapsto> [None, None]], brk := 3\<rparr>"
  have "\<forall>i<2. \<exists>bs. heap ?s (1 + i) = Some bs \<and> length bs = 2" by (auto simp: less_2_cases_iff)
  then have "fst (ucp_am_data_cb 0 (AmEager [1, 2, 3, 4]) ?s) = UCS_OK \<and>
      am_complete (snd (ucp_am_data_cb 0 (AmEager [1, 2, 3, 4]) ?s)) = am_complete ?s + 1 \<and>
      am_is_rndv (snd (ucp_am_data_cb 0 (AmEager [1, 2, 3, 4]) ?s)) = 0 \<and>
      faults (snd (ucp_am_data_cb 0 (AmEager [1, 2, 3, 4]) ?s)) = faults ?s \<and>
      gather (payload_of (fresh_iov 1 2 2) (iov_cnt ?s)) (snd (ucp_am_data_cb 0 (AmEager [1, 2, 3, 4]) ?s)) = map Some [1, 2, 3, 4]"
    by (intro am_eager_message_delivered [where f = 0 and n = 2 and hl = 0 and
          fr = "\<lparr>fr_iov = fresh_iov 1 2 2, fr_complete = 0\<rparr>"]) (simp_all add: cs_init_def)
  then show ?thesis by (simp add: cs_init_def)
qed

text \<open>
  C11: A message that was counted before the transfer began, because one call of
  \<open>ucp_worker_progress\<close> delivered two, is lost: the server does not wait, makes no call, returns
  success, and prints buffers nobody has written to. The callback put the data into the buffers
  of the transfer before.
\<close>

theorem am_second_message_is_lost:
  fixes s :: "'w cs"
  assumes "\<And>k w. fst (alloc_ok E k w)" and "cs_wf s" and "test_mem_type s = MEM_HOST"
    and "unat (test_string_length s) = n" "0 < n" "n < 2 ^ 31" and "unat (iov_cnt s) = k"
    and "am_last s \<noteq> am_complete s" "am_is_rndv s = 0"
  shows "\<exists>t. send_recv_am E wk ep True i s = Some (0, t) \<and> trace t = trace s \<and> am_last t = am_last s + 1 \<and>
    faults t = faults s @ (if printed i s then replicate k BadString else [])"
  by (rule am_counted_before [OF assms])

text \<open>Two messages in the first call of \<open>ucp_worker_progress\<close>, none afterwards.\<close>

definition two_messages :: "(bool, cs_upcall) env" where
  "two_messages = obliging_env
     \<lparr>u_progress := (\<lambda>wk w. ((2, if w then [] else
        [UpAmData 0 (AmEager [65, 0]), UpAmData 0 (AmEager [66, 0])]), True))\<rparr>"

lemma two_messages_simps:
  "alloc_ok two_messages n w = (True, w)"
  "u_progress two_messages wk False = ((2, [UpAmData 0 (AmEager [65, 0]), UpAmData 0 (AmEager [66, 0])]), True)"
  by (simp_all add: two_messages_def)

theorem am_second_message_is_lost_witness:
  "\<exists>s t. send_recv_am two_messages 1 2 True 0 (cs_init False\<lparr>test_string_length := 2, num_iterations := 2\<rparr>) = Some (0, s) \<and>
     EvPrint [66] \<in> set (trace s) \<and>
     send_recv_am two_messages 1 2 True 1 s = Some (0, t) \<and> trace t = trace s \<and> BadString \<in> set (faults t)"
proof -
  let ?s0 = "cs_init False\<lparr>test_string_length := 2, num_iterations := 2\<rparr>"
  have "map_option (\<lambda>(ret, s). (ret, EvPrint [66] \<in> set (trace s), am_last s, am_complete s, am_is_rndv s,
          num_iterations s, test_string_length s, iov_cnt s, test_mem_type s))
        (send_recv_am two_messages 1 2 True 0 ?s0) = Some (0, True, 1, 2, 0, 2, 2, 1, MEM_HOST)"
    by (simp add: run_simps two_messages_simps cong: run_congs)
  then obtain s where s: "send_recv_am two_messages 1 2 True 0 ?s0 = Some (0, s)" "EvPrint [66] \<in> set (trace s)"
      "am_last s = 1" "am_complete s = 2" "am_is_rndv s = 0" "num_iterations s = 2" "test_string_length s = 2"
      "iov_cnt s = 1" "test_mem_type s = MEM_HOST" by auto
  have wf0: "cs_wf ?s0" "held ?s0 = Some {#}" using cs_wf_init [of False] by (simp_all add: cs_wf_def wf_heap_def frame_iovs_def)
  have "cs_keeps ?s0 s" using send_recv_am_keeps [OF wf0 s(1)] by blast
  then have wf: "cs_wf s" using wf0(1) by (rule cs_keeps_wf)
  have "\<exists>t. send_recv_am two_messages 1 2 True 1 s = Some (0, t) \<and> trace t = trace s \<and> am_last t = am_last s + 1 \<and>
      faults t = faults s @ (if printed 1 s then replicate 1 BadString else [])"
    by (rule am_second_message_is_lost [where n = 2]) (use wf s in \<open>simp_all add: two_messages_simps\<close>)
  with s(1,2,6) show ?thesis by (auto simp: printed_def)
qed

text \<open>
  Waiting for a posted request returns exactly when, after some number of progress calls, the
  callback has set the flag in the context of the transfer; no other answer of the library ends it.
\<close>

lemma request_wait_returns_iff_completed:
  "(\<exists>st t. request_wait E wk (ReqPtr r) ctx s = Some (st, t)) \<longleftrightarrow>
   (\<exists>n. ctx_complete ctx (progressed E (cs_dispatch E) wk n s) \<noteq> 0)"
  by (rule request_wait_returns_iff)

end
