(* ===== verification/Cs_Address.thy ===== *)
theory Cs_Address
  imports Cs_State
begin

text \<open>
  \<open>ucp_client_server.c\<close>: socket addresses. A \<open>sockaddr_storage\<close> is the record \<open>sockaddr\<close>; its
  port is in network byte order, as \<open>sin_port\<close> and \<open>sin6_port\<close> are (both lie at the same
  place of the structure). \<open>inet_pton\<close> and \<open>inet_ntop\<close> are functions of the C library that
  the model takes as parameters.
\<close>

text \<open>\<open>htons\<close> and \<open>ntohs\<close> of a little-endian machine swap the two bytes.\<close>

definition htons :: "u16 \<Rightarrow> u16" where
  "htons x = or (push_bit 8 x) (drop_bit 8 x)"

definition ntohs :: "u16 \<Rightarrow> u16" where
  "ntohs x = htons x"

text \<open>The result of \<open>inet_pton\<close> is not looked at: when it fails, the zeros of \<open>memset\<close> stay.\<close>

definition pton_or_zero :: "('w, 'u, 'e) env_scheme \<Rightarrow> family \<Rightarrow> nat \<Rightarrow> string \<Rightarrow> byte list" where
  "pton_or_zero E af n str =
     (case inet_pton E af str of None \<Rightarrow> replicate n 0 | Some bs \<Rightarrow> bs)"

definition set_sock_addr :: "('w, 'u, 'e) env_scheme \<Rightarrow> string option \<Rightarrow> 'w cs \<Rightarrow> sockaddr" where
  "set_sock_addr E address_str s =
     (case ai_family s of
        AF_INET \<Rightarrow>
          \<lparr>ss_family = AF_INET, ss_port = htons (server_port s),
           ss_addr = (case address_str of
                        None \<Rightarrow> replicate 4 0
                      | Some str \<Rightarrow> pton_or_zero E AF_INET 4 str)\<rparr>
      | AF_INET6 \<Rightarrow>
          \<lparr>ss_family = AF_INET6, ss_port = htons (server_port s),
           ss_addr = (case address_str of
                        None \<Rightarrow> replicate 16 0
                      | Some str \<Rightarrow> pton_or_zero E AF_INET6 16 str)\<rparr>
      | _ \<Rightarrow> \<lparr>ss_family = AF_UNSPEC, ss_port = 0, ss_addr = []\<rparr>)"

definition sockaddr_get_ip_str :: "(family \<Rightarrow> byte list \<Rightarrow> nat \<Rightarrow> string) \<Rightarrow> sockaddr \<Rightarrow> nat \<Rightarrow> string" where
  "sockaddr_get_ip_str inet_ntop sa max_size =
     (case ss_family sa of
        AF_INET \<Rightarrow> inet_ntop AF_INET (ss_addr sa) max_size
      | AF_INET6 \<Rightarrow> inet_ntop AF_INET6 (ss_addr sa) max_size
      | _ \<Rightarrow> ''Invalid address family'')"

definition sockaddr_get_port_str :: "sockaddr \<Rightarrow> nat \<Rightarrow> string" where
  "sockaddr_get_port_str sa max_size =
     (case ss_family sa of
        AF_INET \<Rightarrow> snprintf_dec max_size (unat (ntohs (ss_port sa)))
      | AF_INET6 \<Rightarrow> snprintf_dec max_size (unat (ntohs (ss_port sa)))
      | _ \<Rightarrow> ''Invalid address family'')"

definition PORT_STRING_LEN :: nat where
  "PORT_STRING_LEN = 8"

definition IP_STRING_LEN :: nat where
  "IP_STRING_LEN = 50"

lemmas address_run [run_simps] =
  htons_def ntohs_def pton_or_zero_def set_sock_addr_def sockaddr_get_ip_str_def sockaddr_get_port_str_def
  PORT_STRING_LEN_def IP_STRING_LEN_def

section \<open>Properties\<close>

lemma htons_htons: "htons (htons x) = x"
proof (rule bit_word_eqI)
  fix n assume "n < LENGTH(16)"
  then show "bit (htons (htons x)) n = bit x n"
    by (auto simp: htons_def bit_or_iff bit_push_bit_iff bit_drop_bit_eq not_le dest: bit_imp_le_length)
qed

text \<open>
  The port the server prints is the port that was set: for both families the string built from the
  address holds exactly the decimal digits of \<open>server_port\<close>, never cut off by the 8-byte buffer,
  so that reading it back gives the port.
\<close>

theorem port_string_round_trip:
  "let str = sockaddr_get_port_str (set_sock_addr E addr s) PORT_STRING_LEN in
   if ai_family s = AF_INET \<or> ai_family s = AF_INET6
   then str = dec_digits (unat (server_port s)) \<and> length str < PORT_STRING_LEN \<and>
        strtol_value str = uint (server_port s)
   else str = ''Invalid address family''"
proof -
  have "unat (server_port s) < 2 ^ LENGTH(16)" by (rule unsigned_less)
  then have "length (dec_digits (unat (server_port s))) \<le> Suc 4" by (intro length_dec_digits) simp
  then show ?thesis
    by (auto simp: Let_def sockaddr_get_port_str_def set_sock_addr_def PORT_STRING_LEN_def snprintf_dec_def
        ntohs_def htons_htons strtol_dec_digits split: family.split)
qed

text \<open>
  The result of \<open>inet_pton\<close> is not looked at: a server told to listen on a string that is no
  address listens on every interface, as if no address had been given.
\<close>

theorem unparsable_address_means_any:
  "inet_pton E (ai_family s) str = None \<Longrightarrow> set_sock_addr E (Some str) s = set_sock_addr E None s"
  by (auto simp: set_sock_addr_def pton_or_zero_def split: family.split)

theorem unparsable_address_means_any_witness:
  "ss_addr (set_sock_addr (obliging_env :: (unit, cs_upcall) env) (Some ''localhost'') (cs_init ())) = [0, 0, 0, 0]"
  by (subst unparsable_address_means_any) (simp_all add: set_sock_addr_def cs_init_def replicate_numeral)

end
