(* ===== verification/Cs_Session.thy ===== *)
theory Cs_Session
  imports Cs_Transfer Cs_Address
begin

text \<open>
  \<open>ucp_client_server.c\<close>: a session between a client and a server (the iterations and the FIN
  message), the server that serves one client after the other, the client, the command line and
  \<open>main\<close>.
\<close>

section \<open>One session\<close>

text \<open>\<open>for (i = 0; i < num_iterations; i++)\<close>: the result, the value of \<open>i\<close> and the state.\<close>

function do_iterations :: "('w, cs_upcall, 'e) env_scheme \<Rightarrow> nat \<Rightarrow> nat \<Rightarrow> send_recv_type \<Rightarrow> bool \<Rightarrow>
    int \<Rightarrow> int \<Rightarrow> 'w cs \<Rightarrow> (int \<times> int \<times> 'w cs) option" where
  "do_iterations E wk ep type is_server i n s =
     (if i < n then
        do { (ret, s) \<leftarrow> client_server_communication E wk ep type is_server i s;
             if ret \<noteq> 0 then Some (ret, i, s)
             else do_iterations E wk ep type is_server (i + 1) n s }
      else Some (0, i, s))"
  by pat_completeness auto
termination
  by (relation "measure (\<lambda>(E, wk, ep, type, is_server, i, n, s). nat (n - i))") auto

declare do_iterations.simps [simp del]

definition register_am_recv_callback :: "('w, 'u, 'e) env_scheme \<Rightarrow> nat \<Rightarrow> 'w cs \<Rightarrow>
    ucs_status \<times> 'w cs" where
  "register_am_recv_callback E wk s = call_status E (SetAmHandler wk TEST_AM_ID) s"

definition client_server_do_work :: "('w, cs_upcall, 'e) env_scheme \<Rightarrow> nat \<Rightarrow> nat \<Rightarrow>
    send_recv_type \<Rightarrow> bool \<Rightarrow> 'w cs \<Rightarrow> (int \<times> 'w cs) option" where
  "client_server_do_work E wk ep type is_server s =
     (let s = s\<lparr>connection_closed := 0\<rparr>
      in do {
        (ret, i, s) \<leftarrow> do_iterations E wk ep type is_server 0 (sint (num_iterations s)) s;
        if ret \<noteq> 0 then Some (ret, s)
        else
          let (status, s) =
            (if \<not> is_server \<and> type = SEND_RECV_AM then register_am_recv_callback E wk s
             else (UCS_OK, s))
          in if status \<noteq> UCS_OK then Some (-1, s)
             else do {
               (ret, s) \<leftarrow> client_server_communication E wk ep type (\<not> is_server) (i + 1) s;
               if ret \<noteq> 0 then Some (ret, s)
               else do {
                 s \<leftarrow> while_option (\<lambda>s. is_server \<and> connection_closed s = 0)
                        (cs_progress E wk) s;
                 Some (ret, s) } } })"

section \<open>The server\<close>

definition init_worker :: "('w, 'u, 'e) env_scheme \<Rightarrow> nat \<Rightarrow> 'w cs \<Rightarrow> int \<times> nat \<times> 'w cs" where
  "init_worker E ucp_context s =
     (let ((status, wk), s) = call_create E (WorkerCreate ucp_context) s
      in (if status \<noteq> UCS_OK then -1 else 0, wk, s))"

definition server_create_ep :: "('w, 'u, 'e) env_scheme \<Rightarrow> nat \<Rightarrow> nat \<Rightarrow> 'w cs \<Rightarrow>
    (ucs_status \<times> nat) \<times> 'w cs" where
  "server_create_ep E data_worker conn s = call_create E (EpCreateConn data_worker conn) s"

definition start_server :: "('w, 'u, 'e) env_scheme \<Rightarrow> nat \<Rightarrow> string option \<Rightarrow> 'w cs \<Rightarrow>
    ucs_status \<times> 'w cs" where
  "start_server E wk address_str s =
     (let listen_addr = set_sock_addr E address_str s;
          ((status, l), s) = call_create E (ListenerCreate wk listen_addr) s;
          s = s\<lparr>cs_listener := l\<rparr>
      in if status \<noteq> UCS_OK then (status, s)
         else
           let (status, s) = call_status E (ListenerQuery l) s
           in if status \<noteq> UCS_OK then (status, call_void E (ListenerDestroy l) s)
              else (status, s))"

text \<open>
  One round of \<open>while (1)\<close>: \<open>Inl\<close> the state for the next round, or \<open>Inr\<close> the result, the
  endpoint still to close (the label \<open>err_ep\<close>; none for \<open>err_listener\<close>) and the state.
\<close>

definition serve_client :: "('w, cs_upcall, 'e) env_scheme \<Rightarrow> nat \<Rightarrow> nat \<Rightarrow> send_recv_type \<Rightarrow>
    'w cs \<Rightarrow> ('w cs + int \<times> nat option \<times> 'w cs) option" where
  "serve_client E wk data_worker type s =
     do { s \<leftarrow> while_option (\<lambda>s. conn_request s = None) (cs_progress E wk) s;
          conn \<leftarrow> conn_request s;
          let ((status, ep), s) = server_create_ep E data_worker conn s;
          if status \<noteq> UCS_OK then Some (Inr (-1, None, s))
          else do {
            (ret, s) \<leftarrow> client_server_do_work E data_worker ep type True s;
            if ret \<noteq> 0 then Some (Inr (ret, Some ep, s))
            else do {
              s \<leftarrow> ep_close E (cs_dispatch E) data_worker ep True s;
              Some (Inl (s\<lparr>conn_request := None\<rparr>)) } } }"

definition run_server :: "('w, cs_upcall, 'e) env_scheme \<Rightarrow> nat \<Rightarrow> nat \<Rightarrow> string option \<Rightarrow>
    send_recv_type \<Rightarrow> 'w cs \<Rightarrow> (int \<times> 'w cs) option" where
  "run_server E ucp_context wk listen_addr type s =
     (let (ret, data_worker, s) = init_worker E ucp_context s
      in if ret \<noteq> 0 then Some (ret, s)
         else
           let (status, s) =
             (if type = SEND_RECV_AM then register_am_recv_callback E data_worker s
              else (UCS_OK, s))
           in if status \<noteq> UCS_OK then Some (-1, call_void E (WorkerDestroy data_worker) s)
              else
                let s = s\<lparr>conn_request := None\<rparr>;
                    (status, s) = start_server E wk listen_addr s
                in if status \<noteq> UCS_OK
                   then Some (-1, call_void E (WorkerDestroy data_worker) s)
                   else do {
                     (ret, ep, s) \<leftarrow> loop (serve_client E wk data_worker type) s;
                     s \<leftarrow> (case ep of
                             Some ep \<Rightarrow> ep_close E (cs_dispatch E) data_worker ep True s
                           | None \<Rightarrow> Some s);
                     let s = call_void E (ListenerDestroy (cs_listener s)) s;
                     Some (ret, call_void E (WorkerDestroy data_worker) s) })"

section \<open>The client\<close>

definition start_client :: "('w, 'u, 'e) env_scheme \<Rightarrow> nat \<Rightarrow> string \<Rightarrow> 'w cs \<Rightarrow>
    (ucs_status \<times> nat) \<times> 'w cs" where
  "start_client E wk address_str s =
     (let connect_addr = set_sock_addr E (Some address_str) s
      in call_create E (EpCreateSock wk connect_addr) s)"

definition run_client :: "('w, cs_upcall, 'e) env_scheme \<Rightarrow> nat \<Rightarrow> string \<Rightarrow> send_recv_type \<Rightarrow>
    'w cs \<Rightarrow> (int \<times> 'w cs) option" where
  "run_client E wk server_addr type s =
     (let ((status, ep), s) = start_client E wk server_addr s
      in if status \<noteq> UCS_OK then Some (-1, s)
         else do {
           (ret, s) \<leftarrow> client_server_do_work E wk ep type False s;
           s \<leftarrow> ep_close E (cs_dispatch E) wk ep True s;
           Some (ret, s) })"

section \<open>The command line\<close>

record cs_args =
  arg_server_addr :: "string option"
  arg_listen_addr :: "string option"
  arg_type :: send_recv_type

definition parse_send_recv_type :: "string \<Rightarrow> send_recv_type" where
  "parse_send_recv_type optarg =
     (if strcasecmp_eq optarg ''stream'' then SEND_RECV_STREAM
      else if strcasecmp_eq optarg ''tag'' then SEND_RECV_TAG
      else if strcasecmp_eq optarg ''am'' then SEND_RECV_AM
      else SEND_RECV_DEFAULT)"

text \<open>
  One option of the \<open>switch\<close>: \<open>Inl\<close> the value \<open>parse_cmd\<close> returns, or \<open>Inr\<close> what it has
  set. \<open>optarg\<close> is only read for options that have one.
\<close>

definition parse_opt :: "('w, 'u, 'e) env_scheme \<Rightarrow> char \<Rightarrow> string \<Rightarrow> cs_args \<Rightarrow> 'w cs \<Rightarrow>
    int \<times> cs_args \<times> 'w cs" where
  "parse_opt E c optarg a s =
     (if c = CHR ''a'' then (0, a\<lparr>arg_server_addr := Some optarg\<rparr>, s)
      else if c = CHR ''c'' then (0, a\<lparr>arg_type := parse_send_recv_type optarg\<rparr>, s)
      else if c = CHR ''l'' then (0, a\<lparr>arg_listen_addr := Some optarg\<rparr>, s)
      else if c = CHR ''p'' then
        let port = sint (atoi optarg)
        in if port < 0 \<or> port > 65535 then (-1, a, s)
           else (0, a, s\<lparr>server_port := word_of_int port\<rparr>)
      else if c = CHR ''6'' then (0, a, s\<lparr>ai_family := AF_INET6\<rparr>)
      else if c = CHR ''i'' then (0, a, s\<lparr>num_iterations := atoi optarg\<rparr>)
      else if c = CHR ''s'' then
        let s = s\<lparr>test_string_length := atol optarg\<rparr>
        in if sint (test_string_length s) < 0 then (status_code E UCS_ERR_UNSUPPORTED, a, s)
           else (0, a, s)
      else if c = CHR ''v'' then
        let s = s\<lparr>iov_cnt := atol optarg\<rparr>
        in if sint (iov_cnt s) \<le> 0 then (status_code E UCS_ERR_UNSUPPORTED, a, s)
           else (0, a, s)
      else if c = CHR ''m'' then
        let s = s\<lparr>test_mem_type := parse_mem_type optarg s\<rparr>
        in if test_mem_type s = MEM_LAST then (status_code E UCS_ERR_UNSUPPORTED, a, s)
           else (0, a, s)
      else (-1, a, s))"

fun parse_opts :: "('w, 'u, 'e) env_scheme \<Rightarrow> opt list \<Rightarrow> cs_args \<Rightarrow> 'w cs \<Rightarrow>
    int \<times> cs_args \<times> 'w cs" where
  "parse_opts E [] a s = (0, a, s)"
| "parse_opts E ((c, optarg) # os) a s =
     (let (ret, a, s) = parse_opt E c (case optarg of None \<Rightarrow> [] | Some x \<Rightarrow> x) a s
      in if ret \<noteq> 0 then (ret, a, s) else parse_opts E os a s)"

definition cs_optstring :: string where
  "cs_optstring = ''a:l:p:c:6i:s:v:m:h''"

definition parse_cmd :: "('w, 'u, 'e) env_scheme \<Rightarrow> string list \<Rightarrow> cs_args \<Rightarrow> 'w cs \<Rightarrow>
    int \<times> cs_args \<times> 'w cs" where
  "parse_cmd E argv a s = parse_opts E (fst (getopt_all cs_optstring argv)) a s"

section \<open>Initialisation and main\<close>

definition init_context :: "('w, 'u, 'e) env_scheme \<Rightarrow> send_recv_type \<Rightarrow> 'w cs \<Rightarrow>
    int \<times> nat \<times> nat \<times> 'w cs" where
  "init_context E type s =
     (let features = (if type = SEND_RECV_STREAM then [FEATURE_STREAM]
                      else if type = SEND_RECV_TAG then [FEATURE_TAG]
                      else [FEATURE_AM]);
          ((status, ctx), s) = call_create E (UcpInit features) s
      in if status \<noteq> UCS_OK then (-1, ctx, 0, s)
         else
           let (ret, wk, s) = init_worker E ctx s
           in if ret \<noteq> 0 then (ret, ctx, wk, call_void E (UcpCleanup ctx) s)
              else (ret, ctx, wk, s))"

definition cs_main :: "('w, cs_upcall, 'e) env_scheme \<Rightarrow> string list \<Rightarrow> 'w cs \<Rightarrow>
    (int \<times> 'w cs) option" where
  "cs_main E argv s =
     (let (ret, a, s) = parse_cmd E argv
            \<lparr>arg_server_addr = None, arg_listen_addr = None, arg_type = SEND_RECV_DEFAULT\<rparr> s
      in if ret \<noteq> 0 then Some (ret, s)
         else
           let (ret, ctx, wk, s) = init_context E (arg_type a) s
           in if ret \<noteq> 0 then Some (ret, s)
              else do {
                (ret, s) \<leftarrow>
                  (case arg_server_addr a of
                     None \<Rightarrow> run_server E ctx wk (arg_listen_addr a) (arg_type a) s
                   | Some addr \<Rightarrow> run_client E wk addr (arg_type a) s);
                let s = call_void E (WorkerDestroy wk) s;
                Some (ret, call_void E (UcpCleanup ctx) s) })"

section \<open>The contract of a transfer\<close>

text \<open>
  What a session relies on, whichever API it runs over: a transfer that returns has given back
  everything it took, and its result is 0 or -1.
\<close>

locale transfer =
  fixes xfer :: "bool \<Rightarrow> int \<Rightarrow> 'w cs \<Rightarrow> (int \<times> 'w cs) option"
  assumes xfer_keeps: "cs_wf s \<Longrightarrow> held s = Some M \<Longrightarrow> xfer b i s = Some (ret, t) \<Longrightarrow> cs_keeps s t"
    and xfer_ret: "cs_wf s \<Longrightarrow> held s = Some M \<Longrightarrow> xfer b i s = Some (ret, t) \<Longrightarrow> ret = 0 \<or> ret = -1"
begin

lemma xfer_wf: "cs_wf s \<Longrightarrow> held s = Some M \<Longrightarrow> xfer b i s = Some (ret, t) \<Longrightarrow> cs_wf t \<and> held t = Some M"
  using xfer_keeps cs_keeps_wf by (metis cs_keeps_def)

lemma xfer_trans:
  "cs_wf s \<Longrightarrow> held s = Some M \<Longrightarrow> xfer b i s = Some (ret, t) \<Longrightarrow> cs_keeps t u \<Longrightarrow> cs_keeps s u"
  using xfer_keeps cs_keeps_trans by blast

end

interpretation stream: transfer "send_recv_stream E wk ep" for E wk ep
  by unfold_locales (blast dest: send_recv_stream_keeps)+

interpretation tag: transfer "send_recv_tag E wk ep" for E wk ep
  by unfold_locales (blast dest: send_recv_tag_keeps)+

interpretation am: transfer "send_recv_am E wk ep" for E wk ep
  by unfold_locales (blast dest: send_recv_am_keeps)+

lemma client_server_communication_keeps:
  "cs_wf s \<Longrightarrow> held s = Some M \<Longrightarrow> client_server_communication E wk ep type b i s = Some (ret, t) \<Longrightarrow>
   cs_keeps s t \<and> (ret = 0 \<or> ret = -1)"
  by (cases type)
    (auto simp: client_server_communication_def dest: stream.xfer_keeps tag.xfer_keeps am.xfer_keeps
      stream.xfer_ret tag.xfer_ret am.xfer_ret)

interpretation comm: transfer "client_server_communication E wk ep type" for E wk ep type
  by unfold_locales (blast dest: client_server_communication_keeps)+

section \<open>The iterations\<close>

text \<open>\<open>k\<close> transfers in a row, numbered from \<open>i\<close>, all of which succeed.\<close>

fun transfers_ok :: "(int \<Rightarrow> 's \<Rightarrow> (int \<times> 's) option) \<Rightarrow> int \<Rightarrow> nat \<Rightarrow> 's \<Rightarrow> 's \<Rightarrow> bool" where
  "transfers_ok f i 0 s t \<longleftrightarrow> t = s"
| "transfers_ok f i (Suc k) s t \<longleftrightarrow>
     (case f i s of Some (ret, u) \<Rightarrow> ret = 0 \<and> transfers_ok f (i + 1) k u t | None \<Rightarrow> False)"

lemma do_iterations_first_failure:
  "do_iterations E wk ep type b i n s = Some (ret, j, t) \<Longrightarrow> i \<le> n \<Longrightarrow>
   i \<le> j \<and> j \<le> n \<and>
   (\<exists>u. transfers_ok (client_server_communication E wk ep type b) i (nat (j - i)) s u \<and>
        (if j = n then ret = 0 \<and> t = u
         else ret \<noteq> 0 \<and> client_server_communication E wk ep type b j u = Some (ret, t)))"
proof (induction E wk ep type b i n s rule: do_iterations.induct)
  case (1 E wk ep type b i n s)
  show ?case
  proof (cases "i < n")
    case False
    with "1.prems" show ?thesis by (auto simp: do_iterations.simps)
  next
    case True
    with "1.prems" obtain r1 s1 where c: "client_server_communication E wk ep type b i s = Some (r1, s1)"
      by (auto simp: do_iterations.simps [of E wk ep type b i n s] bind_eq_Some_conv)
    show ?thesis
    proof (cases "r1 = 0")
      case False
      with "1.prems" c True show ?thesis
        by (auto simp: do_iterations.simps [of E wk ep type b i n s])
    next
      case r0: True
      with "1.prems" c True have rest: "do_iterations E wk ep type b (i + 1) n s1 = Some (ret, j, t)"
        by (simp add: do_iterations.simps [of E wk ep type b i n s])
      have IH: "i + 1 \<le> j \<and> j \<le> n \<and>
         (\<exists>u. transfers_ok (client_server_communication E wk ep type b) (i + 1) (nat (j - (i + 1))) s1 u \<and>
        (if j = n then ret = 0 \<and> t = u
         else ret \<noteq> 0 \<and> client_server_communication E wk ep type b j u = Some (ret, t)))"
        by (rule "1.IH" [OF True c refl _ rest]) (use True r0 in auto)
      then have "i + 1 \<le> j" by blast
      then have "nat (j - i) = Suc (nat (j - (i + 1)))" by simp
      with IH c r0 show ?thesis by auto
    qed
  qed
qed

lemma do_iterations_keeps:
  "do_iterations E wk ep type b i n s = Some (ret, j, t) \<Longrightarrow> cs_wf s \<Longrightarrow> held s = Some M \<Longrightarrow>
   cs_keeps s t \<and> (ret = 0 \<or> ret = -1)"
proof (induction E wk ep type b i n s rule: do_iterations.induct)
  case (1 E wk ep type b i n s)
  show ?case
  proof (cases "i < n")
    case False
    with "1.prems" show ?thesis by (auto simp: do_iterations.simps)
  next
    case True
    with "1.prems" obtain r1 s1 where c: "client_server_communication E wk ep type b i s = Some (r1, s1)"
      by (auto simp: do_iterations.simps [of E wk ep type b i n s] bind_eq_Some_conv)
    note s1 = comm.xfer_keeps [OF "1.prems"(2,3) c] comm.xfer_wf [OF "1.prems"(2,3) c]
      comm.xfer_ret [OF "1.prems"(2,3) c]
    show ?thesis
    proof (cases "r1 = 0")
      case False
      with "1.prems" c True s1 show ?thesis
        by (auto simp: do_iterations.simps [of E wk ep type b i n s])
    next
      case r0: True
      with "1.prems" c True have "do_iterations E wk ep type b (i + 1) n s1 = Some (ret, j, t)"
        by (simp add: do_iterations.simps [of E wk ep type b i n s])
      with "1.IH" [OF True c refl] r0 s1 show ?thesis by (auto intro: cs_keeps_trans)
    qed
  qed
qed

section \<open>A session\<close>

lemma register_am_recv_callback_keeps:
  "register_am_recv_callback E wk s = (st, t) \<Longrightarrow> cs_keeps s t \<and> held t = held s"
  by (auto simp: register_am_recv_callback_def call_status_def cs_keeps_def cs_config_def
      heap_shape_def frame_iovs_def fun_eq_iff split: prod.splits)

lemma client_server_do_work_keeps:
  assumes run: "client_server_do_work E wk ep type is_server s = Some (ret, t)"
    and wf: "cs_wf s" and held: "held s = Some M"
  shows "cs_keeps s t" "ret = 0 \<or> ret = -1" "ret = 0 \<Longrightarrow> is_server \<Longrightarrow> connection_closed t \<noteq> 0"
proof -
  let ?s = "s\<lparr>connection_closed := 0\<rparr>"
  have k0: "cs_keeps s ?s" by simp
  then have wf0: "cs_wf ?s" "held ?s = Some M" using cs_keeps_wf [OF k0 wf] held by simp_all
  from run obtain r1 i s1 where it: "do_iterations E wk ep type is_server 0 (sint (num_iterations ?s)) ?s = Some (r1, i, s1)"
    by (auto simp: client_server_do_work_def bind_eq_Some_conv Let_def)
  note k1 = do_iterations_keeps [OF it wf0]
  have wf1: "cs_wf s1" "held s1 = Some M"
    using cs_keeps_wf [OF conjunct1 [OF k1] wf0(1)] k1 wf0(2) by (simp_all add: cs_keeps_def)
  have k01: "cs_keeps s s1" using k0 conjunct1 [OF k1] by (rule cs_keeps_trans)
  have "cs_keeps s t \<and> (ret = 0 \<or> ret = -1) \<and> (ret = 0 \<longrightarrow> is_server \<longrightarrow> connection_closed t \<noteq> 0)"
  proof (cases "r1 = 0")
    case False
    with run it k01 k1 show ?thesis
      by (auto simp: client_server_do_work_def Let_def intro: cs_keeps_trans)
  next
    case True
    obtain st s2 where reg: "(if \<not> is_server \<and> type = SEND_RECV_AM then register_am_recv_callback E wk s1
             else (UCS_OK, s1)) = (st, s2)" by fastforce
    have k2: "cs_keeps s1 s2" using reg by (auto split: if_splits dest: register_am_recv_callback_keeps)
    have wf2: "cs_wf s2" "held s2 = Some M"
      using cs_keeps_wf [OF k2 wf1(1)] k2 wf1(2) by (simp_all add: cs_keeps_def)
    have k02: "cs_keeps s s2" using k01 k2 by (rule cs_keeps_trans)
    show ?thesis
    proof (cases "st = UCS_OK")
      case False
      with run it True reg k02 show ?thesis
        by (auto simp: client_server_do_work_def Let_def)
    next
      case ok: True
      with run it True reg obtain r3 s3 where
          fin: "client_server_communication E wk ep type (\<not> is_server) (i + 1) s2 = Some (r3, s3)"
        by (auto simp: client_server_do_work_def Let_def bind_eq_Some_conv)
      note k3 = client_server_communication_keeps [OF wf2 fin]
      show ?thesis
      proof (cases "r3 = 0")
        case False
        with run it True reg ok fin k3 k02 show ?thesis
          by (auto simp: client_server_do_work_def Let_def intro: cs_keeps_trans)
      next
        case r3: True
        with run it True reg ok fin have w: "while_option (\<lambda>s. is_server \<and> connection_closed s = 0)
            (cs_progress E wk) s3 = Some t" and ret: "ret = 0"
          by (auto simp: client_server_do_work_def Let_def bind_eq_Some_conv)
        have "cs_keeps s3 t" using cs.wait_R [OF w] by (rule cs_frame_keeps)
        with k3 k02 ret while_option_stop [OF w] show ?thesis by (auto intro: cs_keeps_trans)
      qed
    qed
  qed
  then show "cs_keeps s t" "ret = 0 \<or> ret = -1" "ret = 0 \<Longrightarrow> is_server \<Longrightarrow> connection_closed t \<noteq> 0"
    by blast+
qed


section \<open>The server and the client\<close>

text \<open>\<open>cs_same s t\<close>: like \<open>cs_keeps\<close>, for steps that acquire or release a handle.\<close>

definition cs_same :: "'w cs \<Rightarrow> 'w cs \<Rightarrow> bool" where
  "cs_same s t \<longleftrightarrow>
     heap_shape t = heap_shape s \<and> frame_iovs t = frame_iovs s \<and> cs_config t = cs_config s \<and>
     brk s \<le> brk t \<and> next_frame s \<le> next_frame t"

lemma cs_same_refl [simp]: "cs_same s s"
  by (simp add: cs_same_def)

lemma cs_same_trans [trans]: "cs_same s t \<Longrightarrow> cs_same t u \<Longrightarrow> cs_same s u"
  by (auto simp: cs_same_def)

lemma cs_keeps_same: "cs_keeps s t \<Longrightarrow> cs_same s t"
  by (simp add: cs_keeps_def cs_same_def)

lemma cs_same_wf: "cs_same s t \<Longrightarrow> cs_wf s \<Longrightarrow> cs_wf t"
  by (auto simp: cs_same_def cs_wf_def wf_heap_shape cs_config_def)

lemma cs_same_upd [simp]:
  "cs_same s (emit e s)" "cs_same s (s\<lparr>world := w\<rparr>)" "cs_same s (emit e (s\<lparr>world := w\<rparr>))"
  "cs_same s (s\<lparr>cs_listener := l\<rparr>)" "cs_same s (s\<lparr>conn_request := c\<rparr>)" "cs_same s (call_void E c' s)"
  by (simp_all add: cs_same_def cs_config_def heap_shape_def frame_iovs_def fun_eq_iff call_void_def)

lemma call_create_same:
  assumes "call_create E c s = ((st, h), t)"
  shows "cs_same s t" "held t = monitor_step (held s) (EvCreate c st h)" "cs_listener t = cs_listener s"
    "conn_request t = conn_request s"
  using assms by (auto simp: call_create_def split: prod.splits)

lemma call_status_same:
  assumes "call_status E c s = (st, t)"
  shows "cs_same s t" "held t = monitor_step (held s) (EvStatus c st)" "cs_listener t = cs_listener s"
  using assms by (auto simp: call_status_def split: prod.splits)

lemma cs_core_call_void: "cs_core (call_void E c s) = cs_core s"
  by (simp add: call_void_def emit_def cs_core_def heap_shape_def frame_iovs_def fun_eq_iff)

text \<open>\<open>ep_close\<close> releases the endpoint and the request of the close, nothing else.\<close>

lemma ep_close_same:
  assumes close: "ep_close E (cs_dispatch E) wk ep force s = Some t"
    and held: "held s = Some (add_mset (REp ep) M)"
  shows "cs_same s t" "held t = Some M" "cs_listener t = cs_listener s"
proof -
  show "held t = Some M" using close held by (rule cs_held.ep_close_held)
  from close have "cs_core t = cs_core s"
  proof (cases rule: cs.ep_close_cases)
    case (immediate req)
    then show ?thesis by (simp add: call_post_frame(1))
  next
    case (waited r s1 s2)
    then have "cs_core s2 = cs_core s"
      using call_post_frame(1) [OF waited(1)] by (simp add: cs_frame_def cs_view_def)
    with waited(3) show ?thesis by (simp add: cs_core_call_void)
  qed
  then show "cs_same s t" "cs_listener t = cs_listener s"
    by (simp_all add: cs_core_def cs_same_def cs_config_def)
qed

lemma serve_client_cases:
  assumes run: "serve_client E wk dw type s = Some r" and wf: "cs_wf s" and held: "held s = Some M"
  shows "case r of
      Inl t \<Rightarrow> cs_same s t \<and> held t = Some M \<and> cs_listener t = cs_listener s \<and> conn_request t = None
    | Inr (ret, ep, t) \<Rightarrow> ret = -1 \<and> cs_same s t \<and> cs_listener t = cs_listener s \<and>
        held t = Some (M + (case ep of None \<Rightarrow> {#} | Some e \<Rightarrow> {#REp e#}))"
proof -
  from run obtain s1 conn where w: "while_option (\<lambda>s. conn_request s = None) (cs_progress E wk) s = Some s1"
      and conn: "conn_request s1 = Some conn"
    by (auto simp: serve_client_def bind_eq_Some_conv)
  have k: "cs_keeps s s1" using cs.wait_R [OF w] by (rule cs_frame_keeps)
  have k1: "cs_same s s1" "held s1 = Some M" "cs_listener s1 = cs_listener s"
    using cs_keeps_same [OF k] k held by (simp_all add: cs_keeps_def)
  obtain st ep s2 where c: "server_create_ep E dw conn s1 = ((st, ep), s2)" by (metis surj_pair)
  note k2 = call_create_same [OF c [unfolded server_create_ep_def]]
  show ?thesis
  proof (cases "st = UCS_OK")
    case False
    with run w conn c have "r = Inr (-1, None, s2)" by (simp add: serve_client_def)
    with False k1 k2 show ?thesis by (auto simp: monitor_step_def intro: cs_same_trans)
  next
    case True
    have h2: "held s2 = Some (add_mset (REp ep) M)" using k1 k2 True by (simp add: monitor_step_def)
    have wf2: "cs_wf s2" using wf k1(1) k2(1) by (blast intro: cs_same_wf)
    from run w conn c True obtain ret s3 where d: "client_server_do_work E dw ep type True s2 = Some (ret, s3)"
      by (auto simp: serve_client_def bind_eq_Some_conv)
    note k3 = client_server_do_work_keeps [OF d wf2 h2]
    have "cs_same s s2" using k1(1) k2(1) by (rule cs_same_trans)
    then have same3: "cs_same s s3" "held s3 = Some (add_mset (REp ep) M)" "cs_listener s3 = cs_listener s"
      using cs_keeps_same [OF k3(1)] k3(1) k1(3) k2(3) h2
      by (blast intro: cs_same_trans, simp_all add: cs_keeps_def)
    show ?thesis
    proof (cases "ret = 0")
      case False
      with run w conn c True d have "r = Inr (ret, Some ep, s3)" by (simp add: serve_client_def)
      with False k3 same3 show ?thesis by auto
    next
      case ok: True
      with run w conn c True d obtain s4 where cl: "ep_close E (cs_dispatch E) dw ep True s3 = Some s4"
          and r: "r = Inl (s4\<lparr>conn_request := None\<rparr>)"
        by (auto simp: serve_client_def bind_eq_Some_conv)
      have "cs_same s s4" using same3(1) ep_close_same(1) [OF cl same3(2)] by (rule cs_same_trans)
      with ep_close_same [OF cl same3(2)] same3 r show ?thesis by (auto intro: cs_same_trans)
    qed
  qed
qed

section \<open>The server, from the data worker to its end\<close>

lemma cs_same_call_void [simp]: "cs_same s (call_void E c t) \<longleftrightarrow> cs_same s t"
  using cs_core_call_void [of E c t] by (simp add: cs_same_def cs_config_def cs_core_def)

text \<open>Starting the server: a listener, or nothing.\<close>

lemma start_server_cases:
  assumes "start_server E wk addr s = (st, t)" and "held s = Some M"
  shows "cs_same s t" "held t = Some (M + (if st = UCS_OK then {#RListener (cs_listener t)#} else {#}))"
proof -
  obtain st1 l s1 where c: "call_create E (ListenerCreate wk (set_sock_addr E addr s)) s = ((st1, l), s1)"
    by (metis surj_pair)
  note k1 = call_create_same [OF c]
  have "cs_same s t \<and> held t = Some (M + (if st = UCS_OK then {#RListener (cs_listener t)#} else {#}))"
  proof (cases "st1 = UCS_OK")
    case False
    with assms c have "st = st1" "t = s1\<lparr>cs_listener := l\<rparr>" by (simp_all add: start_server_def)
    with False k1 assms(2) show ?thesis by (auto simp: monitor_step_def intro: cs_same_trans)
  next
    case True
    let ?s = "s1\<lparr>cs_listener := l\<rparr>"
    have s: "cs_same s ?s" using k1(1) cs_same_upd(4) by (rule cs_same_trans)
    obtain st2 s2 where q: "call_status E (ListenerQuery l) ?s = (st2, s2)" by fastforce
    note k2 = call_status_same [OF q]
    have h2: "held s2 = Some (add_mset (RListener l) M)"
      using k2(2) k1(2) assms(2) True by (simp add: monitor_step_def)
    from assms(1) c True q have "st = st2" "t = (if st2 \<noteq> UCS_OK then call_void E (ListenerDestroy l) s2 else s2)"
      by (auto simp: start_server_def Let_def split: if_splits)
    with h2 k2(3) cs_same_trans [OF s k2(1)] show ?thesis
      by (auto simp: monitor_step_release intro: cs_same_trans)
  qed
  then show "cs_same s t" "held t = Some (M + (if st = UCS_OK then {#RListener (cs_listener t)#} else {#}))"
    by blast+
qed

lemma init_worker_cases:
  assumes "init_worker E ctx s = (ret, wk, t)" and "held s = Some M"
  shows "cs_same s t" "ret = 0 \<and> held t = Some (add_mset (RWorker wk) M) \<or> ret = -1 \<and> held t = Some M"
proof -
  obtain st h s1 where c: "call_create E (WorkerCreate ctx) s = ((st, h), s1)" by (metis surj_pair)
  note k = call_create_same [OF c]
  from assms(1) c have "ret = (if st \<noteq> UCS_OK then -1 else 0)" "wk = h" "t = s1"
    by (auto simp: init_worker_def)
  with k(1,2) assms(2) show "cs_same s t"
    "ret = 0 \<and> held t = Some (add_mset (RWorker wk) M) \<or> ret = -1 \<and> held t = Some M"
    by (auto simp: monitor_step_def)
qed

text \<open>
  The accept loop: what holds in every round, and therefore of whatever it is left with. It is
  only left with -1.
\<close>

lemma serve_loop_cases:
  assumes run: "loop (serve_client E wk dw type) s = Some (ret, ep, t)"
    and wf: "cs_wf s" and held: "held s = Some M"
  shows "ret = -1" "cs_same s t" "cs_listener t = cs_listener s"
    "held t = Some (M + (case ep of None \<Rightarrow> {#} | Some e \<Rightarrow> {#REp e#}))"
proof -
  let ?P = "\<lambda>u. cs_same s u \<and> held u = Some M \<and> cs_listener u = cs_listener s"
  let ?Q = "\<lambda>(ret, ep, t). ret = -1 \<and> cs_same s t \<and> cs_listener t = cs_listener s \<and>
    held t = Some (M + (case ep of None \<Rightarrow> {#} | Some e \<Rightarrow> {#REp e#}))"
  have "?Q (ret, ep, t)"
  proof (rule loop_rule [where P = ?P and Q = ?Q, OF run])
    show "?P s" using held by simp
  next
    fix u u' assume P: "?P u" and b: "serve_client E wk dw type u = Some (Inl u')"
    then have "cs_wf u" using wf by (blast intro: cs_same_wf)
    from serve_client_cases [OF b this] P show "?P u'" by (auto intro: cs_same_trans)
  next
    fix u q assume P: "?P u" and b: "serve_client E wk dw type u = Some (Inr q)"
    then have "cs_wf u" using wf by (blast intro: cs_same_wf)
    from serve_client_cases [OF b this] P show "?Q q" by (cases q) (auto intro: cs_same_trans)
  qed
  then show "ret = -1" "cs_same s t" "cs_listener t = cs_listener s"
    "held t = Some (M + (case ep of None \<Rightarrow> {#} | Some e \<Rightarrow> {#REp e#}))" by auto
qed

lemma run_server_cases:
  assumes run: "run_server E ctx wk addr type s = Some (ret, t)"
    and wf: "cs_wf s" and held: "held s = Some M"
  shows "ret = -1" "cs_same s t" "held t = Some M"
proof -
  obtain r1 dw s1 where w: "init_worker E ctx s = (r1, dw, s1)" by (metis prod_cases3)
  note k1 = init_worker_cases [OF w held]
  have "ret = -1 \<and> cs_same s t \<and> held t = Some M"
  proof (cases "r1 = 0")
    case False
    with run w k1 show ?thesis by (auto simp: run_server_def)
  next
    case True
    with k1(2) have h1: "held s1 = Some (add_mset (RWorker dw) M)" by simp
    obtain st2 s2 where reg: "(if type = SEND_RECV_AM then register_am_recv_callback E dw s1
              else (UCS_OK, s1)) = (st2, s2)" by fastforce
    have k2: "cs_same s1 s2" "held s2 = held s1"
      using reg by (auto split: if_splits dest!: register_am_recv_callback_keeps cs_keeps_same)
    have s02: "cs_same s s2" using k1(1) k2(1) by (rule cs_same_trans)
    show ?thesis
    proof (cases "st2 = UCS_OK")
      case False
      with run w True reg s02 k2(2) h1 show ?thesis
        by (auto simp: run_server_def monitor_step_release intro: cs_same_trans)
    next
      case ok: True
      let ?s2 = "s2\<lparr>conn_request := None\<rparr>"
      obtain st3 s3 where l: "start_server E wk addr ?s2 = (st3, s3)" by fastforce
      have h2: "held ?s2 = Some (add_mset (RWorker dw) M)" using k2(2) h1 by simp
      note k3 = start_server_cases [OF l h2]
      have s03: "cs_same s s3" by (rule cs_same_trans [OF cs_same_trans [OF s02 cs_same_upd(5)] k3(1)])
      show ?thesis
      proof (cases "st3 = UCS_OK")
        case False
        with run w True reg ok l have "ret = -1" "t = call_void E (WorkerDestroy dw) s3"
          by (auto simp: run_server_def Let_def)
        with False s03 k3(2) show ?thesis by (auto simp: monitor_step_release intro: cs_same_trans)
      next
        case ok3: True
        let ?M = "add_mset (RListener (cs_listener s3)) (add_mset (RWorker dw) M)"
        have h3: "held s3 = Some ?M" using k3(2) ok3 by simp
        have wf3: "cs_wf s3" using s03 wf by (rule cs_same_wf)
        from run w True reg ok l ok3 obtain ep s4 s5 where
            lp: "loop (serve_client E wk dw type) s3 = Some (ret, ep, s4)"
          and cl: "(case ep of Some ep \<Rightarrow> ep_close E (cs_dispatch E) dw ep True s4 | None \<Rightarrow> Some s4) = Some s5"
          and t: "t = call_void E (WorkerDestroy dw) (call_void E (ListenerDestroy (cs_listener s5)) s5)"
          by (auto simp: run_server_def Let_def bind_eq_Some_conv)
        note k4 = serve_loop_cases [OF lp wf3 h3]
        have k5: "cs_same s4 s5 \<and> held s5 = Some ?M \<and> cs_listener s5 = cs_listener s4"
        proof (cases ep)
          case None
          with cl k4 show ?thesis by simp
        next
          case (Some e)
          with cl have c: "ep_close E (cs_dispatch E) dw e True s4 = Some s5" by simp
          from k4(4) Some have "held s4 = Some (add_mset (REp e) ?M)" by simp
          note e = ep_close_same [OF c this]
          with k4 show ?thesis by simp
        qed
        have "cs_same s s5" using s03 k4(2) k5 by (blast intro: cs_same_trans)
        then have "cs_same s t" by (simp add: t)
        with k4 k5 show ?thesis by (simp add: t monitor_step_release add_mset_commute)
      qed
    qed
  qed
  then show "ret = -1" "cs_same s t" "held t = Some M" by blast+
qed

section \<open>The client and the whole program\<close>

lemma run_client_cases:
  assumes run: "run_client E wk addr type s = Some (ret, t)"
    and wf: "cs_wf s" and held: "held s = Some M"
  shows "ret = 0 \<or> ret = -1" "cs_same s t" "held t = Some M"
proof -
  obtain st ep s1 where c: "start_client E wk addr s = ((st, ep), s1)" by (metis surj_pair)
  note k1 = call_create_same [OF c [unfolded start_client_def Let_def]]
  have "(ret = 0 \<or> ret = -1) \<and> cs_same s t \<and> held t = Some M"
  proof (cases "st = UCS_OK")
    case False
    with run c k1 held show ?thesis by (auto simp: run_client_def monitor_step_def)
  next
    case True
    have h1: "held s1 = Some (add_mset (REp ep) M)" using k1(2) True held by (simp add: monitor_step_def)
    have wf1: "cs_wf s1" using k1(1) wf by (rule cs_same_wf)
    from run c True obtain s2 where d: "client_server_do_work E wk ep type False s1 = Some (ret, s2)"
        and cl: "ep_close E (cs_dispatch E) wk ep True s2 = Some t"
      by (auto simp: run_client_def bind_eq_Some_conv)
    note k2 = client_server_do_work_keeps [OF d wf1 h1]
    have h2: "held s2 = Some (add_mset (REp ep) M)" using k2(1) h1 by (simp add: cs_keeps_def)
    note k3 = ep_close_same [OF cl h2]
    have "cs_same s t" by (rule cs_same_trans [OF cs_same_trans [OF k1(1) cs_keeps_same [OF k2(1)]] k3(1)])
    with k2(2) k3(2) show ?thesis by blast
  qed
  then show "ret = 0 \<or> ret = -1" "cs_same s t" "held t = Some M" by blast+
qed

lemma init_context_cases:
  assumes "init_context E type s = (ret, ctx, wk, t)" and "held s = Some M"
  shows "cs_same s t"
    "ret = 0 \<and> held t = Some (add_mset (RWorker wk) (add_mset (RContext ctx) M)) \<or> ret = -1 \<and> held t = Some M"
proof -
  define fs where "fs = (if type = SEND_RECV_STREAM then [FEATURE_STREAM]
                      else if type = SEND_RECV_TAG then [FEATURE_TAG] else [FEATURE_AM])"
  obtain st h s1 where c: "call_create E (UcpInit fs) s = ((st, h), s1)" by (metis surj_pair)
  note k1 = call_create_same [OF c]
  have "cs_same s t \<and> (ret = 0 \<and> held t = Some (add_mset (RWorker wk) (add_mset (RContext ctx) M)) \<or>
     ret = -1 \<and> held t = Some M)"
  proof (cases "st = UCS_OK")
    case False
    with assms c k1 show ?thesis by (auto simp: init_context_def fs_def [symmetric] monitor_step_def)
  next
    case True
    have h1: "held s1 = Some (add_mset (RContext h) M)" using k1(2) True assms(2) by (simp add: monitor_step_def)
    obtain r w s2 where i: "init_worker E h s1 = (r, w, s2)" by (metis prod_cases3)
    note k2 = init_worker_cases [OF i h1]
    have s02: "cs_same s s2" using k1(1) k2(1) by (rule cs_same_trans)
    from assms(1) c True i have "ret = r" "ctx = h" "wk = w"
        "t = (if r \<noteq> 0 then call_void E (UcpCleanup h) s2 else s2)"
      by (auto simp: init_context_def fs_def [symmetric] split: if_splits)
    with k2(2) s02 show ?thesis by (auto simp: monitor_step_release intro: cs_same_trans)
  qed
  then show "cs_same s t"
    "ret = 0 \<and> held t = Some (add_mset (RWorker wk) (add_mset (RContext ctx) M)) \<or> ret = -1 \<and> held t = Some M"
    by blast+
qed

section \<open>The command line and main\<close>

text \<open>Parsing only writes options: nothing of the process moves.\<close>

definition cs_process :: "'w cs \<Rightarrow> _" where
  "cs_process s =
     ((world s, heap s, brk s, faults s, trace s),
      (connection_closed s, am_complete s, am_is_rndv s, am_desc s, am_recv_buf s, am_last s),
      (conn_request s, cs_listener s, frames s, next_frame s))"

lemma parse_opt_process: "parse_opt E c optarg a s = (ret, a', t) \<Longrightarrow> cs_process t = cs_process s"
  by (auto simp: parse_opt_def cs_process_def Let_def split: if_splits)

lemma parse_opts_process: "parse_opts E os a s = (ret, a', t) \<Longrightarrow> cs_process t = cs_process s"
  by (induction E os a s rule: parse_opts.induct)
    (auto split: prod.splits if_splits dest: parse_opt_process)

text \<open>The options after a successful parse.\<close>

definition cs_options_ok :: "'w cs \<Rightarrow> bool" where
  "cs_options_ok s \<longleftrightarrow>
     0 < sint (iov_cnt s) \<and> 0 \<le> sint (test_string_length s) \<and> test_mem_type s \<noteq> MEM_LAST"

lemma parse_opt_ok:
  "parse_opt E c optarg a s = (0, a', t) \<Longrightarrow> cs_options_ok s \<Longrightarrow> status_code E UCS_ERR_UNSUPPORTED \<noteq> 0 \<Longrightarrow>
   cs_options_ok t"
  by (auto simp: parse_opt_def cs_options_ok_def Let_def split: if_splits)

lemma parse_opts_ok:
  "parse_opts E os a s = (0, a', t) \<Longrightarrow> cs_options_ok s \<Longrightarrow> status_code E UCS_ERR_UNSUPPORTED \<noteq> 0 \<Longrightarrow>
   cs_options_ok t"
  by (induction E os a s rule: parse_opts.induct)
    (auto split: prod.splits if_splits dest: parse_opt_ok)

lemma cs_options_ok_init: "cs_options_ok (cs_init w)"
  by (simp add: cs_options_ok_def cs_init_def)

lemma word_pos_sint: "0 < sint (x :: u64) \<Longrightarrow> 0 < x"
  by (cases "x = 0") (auto simp: word_greater_zero_iff)

lemma cs_process_wf:
  assumes "cs_process t = cs_process s" "cs_wf s" "cs_options_ok t"
  shows "cs_wf t" "held t = held s" "heap_shape t = heap_shape s" "frame_iovs t = frame_iovs s"
  using assms
  by (auto simp: cs_process_def cs_wf_def wf_heap_def cs_options_ok_def heap_shape_def frame_iovs_def
      fun_eq_iff intro: word_pos_sint)

lemma cs_main_cases:
  assumes run: "cs_main E argv s = Some (ret, t)" and code: "status_code E UCS_ERR_UNSUPPORTED \<noteq> 0"
    and wf: "cs_wf s" and opts: "cs_options_ok s" and held: "held s = Some M"
  shows "held t = Some M" "heap_shape t = heap_shape s" "frame_iovs t = frame_iovs s"
proof -
  let ?a = "\<lparr>arg_server_addr = None, arg_listen_addr = None, arg_type = SEND_RECV_DEFAULT\<rparr>"
  obtain r1 a s1 where p: "parse_cmd E argv ?a s = (r1, a, s1)" by (metis prod_cases3)
  have proc: "cs_process s1 = cs_process s"
    using p by (auto simp: parse_cmd_def dest: parse_opts_process)
  have "held t = Some M \<and> heap_shape t = heap_shape s \<and> frame_iovs t = frame_iovs s"
  proof (cases "r1 = 0")
    case False
    with run p have "t = s1" by (simp add: cs_main_def)
    with proc held show ?thesis
      by (auto simp: cs_process_def heap_shape_def frame_iovs_def fun_eq_iff)
  next
    case True
    have "cs_options_ok s1"
      using p True opts code by (auto simp: parse_cmd_def dest: parse_opts_ok)
    note k1 = cs_process_wf [OF proc wf this]
    have h1: "held s1 = Some M" using k1(2) held by simp
    obtain r2 ctx wk s2 where i: "init_context E (arg_type a) s1 = (r2, ctx, wk, s2)"
      by (metis prod_cases4)
    note k2 = init_context_cases [OF i h1]
    show ?thesis
    proof (cases "r2 = 0")
      case False
      with run p True i k1 k2 show ?thesis by (auto simp: cs_main_def cs_same_def)
    next
      case ok: True
      let ?M = "add_mset (RWorker wk) (add_mset (RContext ctx) M)"
      have h2: "held s2 = Some ?M" using k2(2) ok by simp
      have wf2: "cs_wf s2" using k2(1) k1(1) by (rule cs_same_wf)
      from run p True i ok obtain s3 where
          w: "(case arg_server_addr a of
                 None \<Rightarrow> run_server E ctx wk (arg_listen_addr a) (arg_type a) s2
               | Some addr \<Rightarrow> run_client E wk addr (arg_type a) s2) = Some (ret, s3)"
        and t: "t = call_void E (UcpCleanup ctx) (call_void E (WorkerDestroy wk) s3)"
        by (auto simp: cs_main_def bind_eq_Some_conv)
      have "cs_same s2 s3 \<and> held s3 = Some ?M"
      proof (cases "arg_server_addr a")
        case None
        with w have "run_server E ctx wk (arg_listen_addr a) (arg_type a) s2 = Some (ret, s3)" by simp
        from run_server_cases [OF this wf2 h2] show ?thesis by blast
      next
        case (Some addr)
        with w have "run_client E wk addr (arg_type a) s2 = Some (ret, s3)" by simp
        from run_client_cases [OF this wf2 h2] show ?thesis by blast
      qed
      then have "cs_same s1 t" "held t = Some M"
        using cs_same_trans [OF k2(1)] by (auto simp: t monitor_step_release)
      with k1 show ?thesis by (simp add: cs_same_def)
    qed
  qed
  then show "held t = Some M" "heap_shape t = heap_shape s" "frame_iovs t = frame_iovs s" by blast+
qed

lemma u16_of_sint: "0 \<le> sint (x :: i32) \<Longrightarrow> sint x \<le> 65535 \<Longrightarrow> uint (scast x :: u16) = sint x"
  by (simp only: scast_eq uint_word_of_int) simp

text \<open>The port option is taken exactly when it is a 16-bit number.\<close>

lemma parse_opt_port:
  "parse_opt E CHR ''p'' optarg a s = (ret, a', t) \<Longrightarrow>
   (ret = 0 \<longleftrightarrow> 0 \<le> sint (atoi optarg) \<and> sint (atoi optarg) \<le> 65535) \<and>
   (ret = 0 \<longrightarrow> uint (server_port t) = sint (atoi optarg))"
  by (auto simp: parse_opt_def Let_def u16_of_sint split: if_splits)

lemmas session_run [run_simps] =
  do_iterations.simps register_am_recv_callback_def client_server_do_work_def init_worker_def
  server_create_ep_def start_server_def serve_client_def start_client_def run_client_def
  parse_send_recv_type_def parse_opt_def cs_optstring_def parse_cmd_def init_context_def cs_main_def

section \<open>Properties\<close>

text \<open>
  C1: Whatever UCX and the allocator answer, when \<open>ucp_client_server\<close> returns it has released every
  handle it acquired exactly once (contexts, workers, listeners, endpoints, requests), every heap
  block and every frame, on every path through the program: option errors, failed
  initialisation, the client, and the server with any number of clients. The only assumption is
  that \<open>UCS_ERR_UNSUPPORTED\<close> is not 0.
\<close>

theorem cs_main_releases_everything:
  assumes "cs_main E argv (cs_init w) = Some (ret, t)" and "status_code E UCS_ERR_UNSUPPORTED \<noteq> 0"
  shows "held t = Some {#} \<and> heap t = (\<lambda>_. None) \<and> frames t = (\<lambda>_. None)"
proof -
  note k = cs_main_cases [OF assms cs_wf_init(1) cs_options_ok_init cs_wf_init(2)]
  have "heap_shape t = (\<lambda>_. None)" "frame_iovs t = (\<lambda>_. None)"
    using k(2,3) by (simp_all add: cs_init_def heap_shape_def frame_iovs_def fun_eq_iff)
  then have "heap t = (\<lambda>_. None)" "frames t = (\<lambda>_. None)"
    by (simp_all add: heap_shape_def frame_iovs_def fun_eq_iff)
  with k(1) show ?thesis by blast
qed

text \<open>A client whose library completes everything at once: one transfer, the FIN, the close.\<close>

theorem cs_main_releases_everything_witness:
  "\<exists>t. cs_main (obliging_env :: (unit, cs_upcall) env) [''-a'', ''10.0.0.1''] (cs_init ()) = Some (0, t) \<and>
       held t = Some {#} \<and> heap t = (\<lambda>_. None) \<and> frames t = (\<lambda>_. None)"
proof -
  have "map_option fst (cs_main (obliging_env :: (unit, cs_upcall) env) [''-a'', ''10.0.0.1''] (cs_init ())) = Some 0"
    by (simp add: run_simps cong: run_congs)
  from map_fst_Some [OF this] obtain t where t: "cs_main (obliging_env :: (unit, cs_upcall) env) [''-a'', ''10.0.0.1''] (cs_init ()) = Some (0, t)" ..
  have "held t = Some {#} \<and> heap t = (\<lambda>_. None) \<and> frames t = (\<lambda>_. None)"
    by (rule cs_main_releases_everything [OF t]) simp
  with t show ?thesis by blast
qed

text \<open>
  C7: A server never ends well: its loop over clients has no successful exit, so \<open>run_server\<close>, if it
  returns at all, returns -1, and has then given back the data worker, the listener and the
  endpoint of the client it was serving.
\<close>

theorem run_server_ends_only_with_error:
  assumes "run_server E ctx wk addr type s = Some (ret, t)" and "cs_wf s" and "held s = Some M"
  shows "ret = -1 \<and> held t = Some M \<and> heap_shape t = heap_shape s"
  using run_server_cases [OF assms] by (simp add: cs_same_def)

text \<open>
  An environment with two clients in a row: a connection request and a lost connection in every
  progress call, the message delivered with the receive, and no endpoint for the second client.
\<close>

definition two_clients :: "(nat, cs_upcall) env" where
  "two_clients = obliging_env
     \<lparr>u_progress := (\<lambda>wk w. ((2, [UpConnRequest 7, UpErrCb UCS_OK]), w)),
      u_create := (\<lambda>c w. case c of EpCreateConn _ _ \<Rightarrow> (if w = 0 then (UCS_OK, 9) else (UCS_ERR 0, 0), w + 1)
                          | _ \<Rightarrow> ((UCS_OK, 5), w)),
      u_post := (\<lambda>c bs w. case c of
                   TagRecv _ msg _ _ _ \<Rightarrow> ((ReqNull, scatter msg (test_string 16)), w)
                 | _ \<Rightarrow> ((ReqNull, []), w))\<rparr>"

lemma two_clients_simps:
  "alloc_ok two_clients n w = (True, w)" "u_void two_clients c w = w" "u_status two_clients c w = (UCS_OK, w)"
  "u_create two_clients (WorkerCreate ctx) w = ((UCS_OK, 5), w)"
  "u_create two_clients (ListenerCreate wk a) w = ((UCS_OK, 5), w)"
  "u_create two_clients (EpCreateConn wk conn) w = (if w = 0 then (UCS_OK, 9) else (UCS_ERR 0, 0), w + 1)"
  "u_post two_clients (TagRecv wk msg tag msk ud) bs w = ((ReqNull, scatter msg (test_string 16)), w)"
  "u_post two_clients (TagSend ep msg tag ud) bs w = ((ReqNull, []), w)"
  "u_post two_clients (EpClose ep force) bs w = ((ReqNull, []), w)"
  "u_progress two_clients wk w = ((2, [UpConnRequest 7, UpErrCb UCS_OK]), w)"
  "inet_pton two_clients af str = None"
  by (simp_all add: two_clients_def)

theorem run_server_ends_only_with_error_witness:
  "\<exists>t. run_server two_clients 1 2 None SEND_RECV_TAG (cs_init 0) = Some (-1, t) \<and> held t = Some {#} \<and>
       heap_shape t = (\<lambda>_. None) \<and> EvPrint (map letter [0..<15]) \<in> set (trace t)"
proof -
  have "map_option (\<lambda>(ret, t). (ret, EvPrint (map letter [0..<15]) \<in> set (trace t)))
      (run_server two_clients 1 2 None SEND_RECV_TAG (cs_init 0)) = Some (-1, True)"
    by (simp add: run_server_def run_simps two_clients_simps c_string_test_string loop_next loop_exit cong: run_congs)
  then obtain t where t: "run_server two_clients 1 2 None SEND_RECV_TAG (cs_init 0) = Some (-1, t)"
      "EvPrint (map letter [0..<15]) \<in> set (trace t)" by auto
  with run_server_ends_only_with_error [OF t(1) cs_wf_init] show ?thesis
    by (auto simp: heap_shape_def cs_init_def fun_eq_iff)
qed

text \<open>
  C8: A transfer over any of the three APIs that returns, successfully or not, has released its
  request, its buffers and its frame, has left the options alone, and its result is 0 or -1.
\<close>

theorem transfer_releases_everything:
  assumes "client_server_communication E wk ep type is_server i s = Some (ret, t)"
    and "cs_wf s" and "held s = Some M"
  shows "held t = Some M \<and> heap_shape t = heap_shape s \<and> frame_iovs t = frame_iovs s \<and>
    cs_config t = cs_config s \<and> (ret = 0 \<or> ret = -1)"
  using comm.xfer_keeps [OF assms(2,3,1)] comm.xfer_ret [OF assms(2,3,1)] assms(3)
  by (simp add: cs_keeps_def)

theorem transfer_releases_everything_witness:
  "\<exists>t. client_server_communication (obliging_env :: (unit, cs_upcall) env) 1 2 SEND_RECV_AM False 0 (cs_init ()) = Some (0, t) \<and>
       held t = Some {#} \<and> heap_shape t = (\<lambda>_. None)"
proof -
  have "map_option fst (client_server_communication (obliging_env :: (unit, cs_upcall) env) 1 2 SEND_RECV_AM False 0 (cs_init ())) = Some 0"
    by (simp add: run_simps cong: run_congs)
  from map_fst_Some [OF this] obtain t where t: "client_server_communication (obliging_env :: (unit, cs_upcall) env) 1 2 SEND_RECV_AM False 0 (cs_init ()) = Some (0, t)" ..
  with transfer_releases_everything [OF t cs_wf_init] show ?thesis
    by (auto simp: cs_init_def heap_shape_def fun_eq_iff)
qed

text \<open>
  C9: The operations are well typed: whatever the callbacks of the library do, every operation that returns
  leaves a state in which block and frame numbers are fresh and there is at least one buffer, with
  the options as they were; a callback, a transfer, a session, a round of the server, the whole
  server and the whole client; and their results are 0 or -1, as the callers expect, those of the
  server only -1.
\<close>

theorem operations_keep_states_well_formed:
  assumes "cs_wf s" and "held s = Some M"
  shows "cs_wf (cs_dispatch E u s) \<and> cs_config (cs_dispatch E u s) = cs_config s \<and>
    (\<forall>ret t. client_server_communication E wk ep type b i s = Some (ret, t) \<longrightarrow>
       cs_wf t \<and> cs_config t = cs_config s \<and> ret \<in> {0, -1}) \<and>
    (\<forall>ret t. client_server_do_work E wk ep type b s = Some (ret, t) \<longrightarrow>
       cs_wf t \<and> cs_config t = cs_config s \<and> ret \<in> {0, -1}) \<and>
    (\<forall>t. serve_client E wk dw type s = Some (Inl t) \<longrightarrow> cs_wf t \<and> cs_config t = cs_config s) \<and>
    (\<forall>ret ep t. serve_client E wk dw type s = Some (Inr (ret, ep, t)) \<longrightarrow> cs_wf t \<and> cs_config t = cs_config s \<and> ret = -1) \<and>
    (\<forall>ret t. run_client E wk addr type s = Some (ret, t) \<longrightarrow> cs_wf t \<and> cs_config t = cs_config s \<and> ret \<in> {0, -1}) \<and>
    (\<forall>ret t. run_server E ctx wk laddr type s = Some (ret, t) \<longrightarrow> cs_wf t \<and> cs_config t = cs_config s \<and> ret = -1)"
proof -
  have same: "cs_wf t \<and> cs_config t = cs_config s" if "cs_same s t" for t
    using that cs_same_wf [OF that assms(1)] by (simp add: cs_same_def)
  have keeps: "cs_wf t \<and> cs_config t = cs_config s" if "cs_keeps s t" for t
    using same cs_keeps_same [OF that] by blast
  show ?thesis
  proof (intro conjI allI impI)
    show "cs_wf (cs_dispatch E u s)" "cs_config (cs_dispatch E u s) = cs_config s"
      using keeps [OF cs_frame_keeps [OF cs_frame_dispatch]] by blast+
  next
    fix ret t assume "client_server_communication E wk ep type b i s = Some (ret, t)"
    from client_server_communication_keeps [OF assms this] keeps
    show "cs_wf t" "cs_config t = cs_config s" "ret \<in> {0, -1}" by blast+
  next
    fix ret t assume "client_server_do_work E wk ep type b s = Some (ret, t)"
    from client_server_do_work_keeps(1,2) [OF this assms] keeps
    show "cs_wf t" "cs_config t = cs_config s" "ret \<in> {0, -1}" by blast+
  next
    fix t assume "serve_client E wk dw type s = Some (Inl t)"
    from serve_client_cases [OF this assms] have "cs_same s t" by simp
    with same show "cs_wf t" "cs_config t = cs_config s" by blast+
  next
    fix ret ep t assume "serve_client E wk dw type s = Some (Inr (ret, ep, t))"
    from serve_client_cases [OF this assms] have "cs_same s t" "ret = -1" by simp_all
    with same show "cs_wf t" "cs_config t = cs_config s" "ret = -1" by blast+
  next
    fix ret t assume "run_client E wk addr type s = Some (ret, t)"
    from run_client_cases(1,2) [OF this assms] same
    show "cs_wf t" "cs_config t = cs_config s" "ret \<in> {0, -1}" by blast+
  next
    fix ret t assume "run_server E ctx wk laddr type s = Some (ret, t)"
    from run_server_cases(1,2) [OF this assms] same
    show "cs_wf t" "cs_config t = cs_config s" "ret = -1" by blast+
  qed
qed

theorem operations_keep_states_well_formed_witness:
  "\<exists>t. client_server_communication (obliging_env :: (unit, cs_upcall) env) 1 2 SEND_RECV_TAG False 0
       (cs_dispatch (obliging_env :: (unit, cs_upcall) env) (UpTagRecvCb (Some 3) UCS_OK) (cs_init ())) = Some (0, t) \<and> cs_wf t \<and> next_frame t = 1"
proof -
  let ?E = "obliging_env :: (unit, cs_upcall) env" 
  let ?s = "cs_dispatch ?E (UpTagRecvCb (Some 3) UCS_OK) (cs_init ())"
  have h: "held ?s = Some {#}" by (simp add: tag_recv_cb_def common_cb_def cs_init_def held_after_def)
  note s = operations_keep_states_well_formed [OF cs_wf_init, of ?E "UpTagRecvCb (Some 3) UCS_OK" "()", THEN conjunct1]
  have "map_option (\<lambda>(ret, t). (ret, next_frame t)) (client_server_communication ?E 1 2 SEND_RECV_TAG False 0 ?s) = Some (0, 1)"
    by (simp add: run_simps cong: run_congs)
  then obtain t where t: "client_server_communication ?E 1 2 SEND_RECV_TAG False 0 ?s = Some (0, t)" "next_frame t = 1"
    by auto
  with operations_keep_states_well_formed [OF s h, of ?E undefined 1 2 SEND_RECV_TAG False 0] show ?thesis by blast
qed

text \<open>
  C10: The iterations of a session stop at the first transfer that fails, and the result is that
  failure; all transfers before it succeeded, in order and numbered from 0. Without a failure
  exactly \<open>num_iterations\<close> transfers ran.
\<close>

theorem iterations_stop_at_first_failure:
  assumes "do_iterations E wk ep type is_server 0 n s = Some (ret, j, t)" and "0 \<le> n"
  shows "0 \<le> j \<and> j \<le> n \<and>
   (\<exists>u. transfers_ok (client_server_communication E wk ep type is_server) 0 (nat j) s u \<and>
        (if j = n then ret = 0 \<and> t = u
         else ret \<noteq> 0 \<and> client_server_communication E wk ep type is_server j u = Some (ret, t)))"
  using do_iterations_first_failure [OF assms] by simp

text \<open>The allocator has no memory left after the first transfer.\<close>

definition short_of_memory :: "(nat, cs_upcall) env" where
  "short_of_memory = obliging_env \<lparr>alloc_ok := (\<lambda>n w. (w < 2, w + 1))\<rparr>"

lemma short_of_memory_simps:
  "alloc_ok short_of_memory n 0 = (True, 1)" "alloc_ok short_of_memory n (Suc 0) = (True, 2)"
  "alloc_ok short_of_memory n 2 = (False, 3)" "u_post short_of_memory c bs w = ((ReqNull, []), w)"
  by (simp_all add: short_of_memory_def)

theorem iterations_stop_at_first_failure_witness:
  "\<exists>t u. do_iterations short_of_memory 1 2 SEND_RECV_STREAM False 0 5 ((cs_init 0)\<lparr>test_string_length := 2\<rparr>) = Some (-1, 1, t) \<and>
     transfers_ok (client_server_communication short_of_memory 1 2 SEND_RECV_STREAM False) 0 (nat 1) ((cs_init 0)\<lparr>test_string_length := 2\<rparr>) u \<and>
     client_server_communication short_of_memory 1 2 SEND_RECV_STREAM False 1 u = Some (-1, t)"
proof -
  have "map_option (\<lambda>(ret, i, t). (ret, i))
      (do_iterations short_of_memory 1 2 SEND_RECV_STREAM False 0 5 ((cs_init 0)\<lparr>test_string_length := 2\<rparr>)) = Some (-1, 1)"
    by (simp add: run_simps short_of_memory_simps cong: run_congs)
  then obtain t where t: "do_iterations short_of_memory 1 2 SEND_RECV_STREAM False 0 5 ((cs_init 0)\<lparr>test_string_length := 2\<rparr>) = Some (-1, 1, t)"
    by (cases "do_iterations short_of_memory 1 2 SEND_RECV_STREAM False 0 5 ((cs_init 0)\<lparr>test_string_length := 2\<rparr>)") auto
  have "\<exists>u. transfers_ok (client_server_communication short_of_memory 1 2 SEND_RECV_STREAM False) 0 (nat 1) ((cs_init 0)\<lparr>test_string_length := 2\<rparr>) u \<and>
      client_server_communication short_of_memory 1 2 SEND_RECV_STREAM False 1 u = Some (-1, t)"
    using iterations_stop_at_first_failure [OF t] by (simp del: transfers_ok.simps One_nat_def)
  with t show ?thesis by blast
qed

text \<open>
  C17: The command line is checked: when \<open>parse_cmd\<close> succeeds, the number of buffers is positive, the
  length of a message is not negative and the memory type is a known one, whatever the words are.
\<close>

theorem parse_cmd_checks_options:
  assumes "parse_cmd E argv a (cs_init w) = (0, a', t)" and "status_code E UCS_ERR_UNSUPPORTED \<noteq> 0"
  shows "0 < sint (iov_cnt t) \<and> 0 \<le> sint (test_string_length t) \<and> test_mem_type t \<noteq> MEM_LAST \<and>
    trace t = [] \<and> heap t = (\<lambda>_. None)"
  using parse_opts_ok [OF assms(1) [unfolded parse_cmd_def] cs_options_ok_init assms(2)]
    parse_opts_process [OF assms(1) [unfolded parse_cmd_def]]
  by (auto simp: cs_options_ok_def cs_process_def) (simp_all add: cs_init_def)

theorem parse_cmd_checks_options_witness:
  "\<exists>a' t. parse_cmd (obliging_env :: (unit, cs_upcall) env) [''-v'', ''3'', ''-s42'', ''x''] \<lparr>arg_server_addr = None, arg_listen_addr = None, arg_type = SEND_RECV_TAG\<rparr> (cs_init ()) = (0, a', t) \<and>
     0 < sint (iov_cnt t) \<and> iov_cnt t = 3 \<and> test_string_length t = 42"
proof -
  obtain t where t: "parse_cmd (obliging_env :: (unit, cs_upcall) env) [''-v'', ''3'', ''-s42'', ''x''] \<lparr>arg_server_addr = None, arg_listen_addr = None, arg_type = SEND_RECV_TAG\<rparr> (cs_init ()) = (0, \<lparr>arg_server_addr = None, arg_listen_addr = None, arg_type = SEND_RECV_TAG\<rparr>, t)"
      "iov_cnt t = 3" "test_string_length t = 42"
    by (simp add: run_simps cong: run_congs)
  with parse_cmd_checks_options [OF t(1)] show ?thesis by auto
qed

text \<open>
  C18: \<open>-p\<close> is checked by what \<open>atoi\<close> gives: a value of 16 bits becomes the port, any other is refused
  with -1 and no port is set; and the decimal digits of any port select that port. So a string that
  is no number is port 0, a random port on the server, and a number that \<open>atoi\<close> cuts to its low 32
  bits is taken by these.
\<close>

theorem port_option_is_exact:
  "parse_cmd E [''-p'', arg] a s =
     (if 0 \<le> sint (atoi arg) \<and> sint (atoi arg) \<le> 65535
      then (0, a, s\<lparr>server_port := word_of_int (sint (atoi arg))\<rparr>) else (-1, a, s)) \<and>
   parse_cmd E [''-p'', dec_digits (unat p)] a s = (0, a, s\<lparr>server_port := p\<rparr>) \<and>
   parse_cmd E [''-p'', ''abc''] a s = (0, a, s\<lparr>server_port := 0\<rparr>) \<and>
   parse_cmd E [''-p'', ''4294967376''] a s = (0, a, s\<lparr>server_port := 80\<rparr>)"
proof -
  have opts: "getopt_all cs_optstring [''-p'', arg] = ([(CHR ''p'', Some arg)], [])" for arg
    by (simp add: getopt_all.simps cs_optstring_def)
  have parse: "parse_cmd E [''-p'', arg] a s =
      (if 0 \<le> sint (atoi arg) \<and> sint (atoi arg) \<le> 65535
       then (0, a, s\<lparr>server_port := word_of_int (sint (atoi arg))\<rparr>) else (-1, a, s))" for arg
    by (auto simp: parse_cmd_def opts parse_opt_def Let_def)
  have "unat p < 2 ^ LENGTH(16)" by (rule unsigned_less)
  then obtain n where n: "unat p = n" "n \<le> 65535" by simp
  have p: "p = of_nat n" by (simp flip: n(1))
  from n(2) have "atol (dec_digits n) = word_of_int (int n)"
    by (simp add: atol_def strtol_dec_digits)
  with n(2) have port: "sint (atoi (dec_digits n)) = int n"
    using sint_ucast_size [of "of_nat n" n] by (simp add: atoi_def unsigned_of_nat take_bit_nat_eq_self)
  have "parse_cmd E [''-p'', dec_digits n] a s = (0, a, s\<lparr>server_port := of_nat n\<rparr>)"
    by (simp only: parse port) (simp add: n(2))
  then have "parse_cmd E [''-p'', dec_digits (unat p)] a s = (0, a, s\<lparr>server_port := p\<rparr>)"
    by (simp only: n(1) p [symmetric])
  moreover have "sint (atoi ''abc'') = 0" "sint (atoi ''4294967376'') = 80" by (simp_all add: run_simps)
  then have "parse_cmd E [''-p'', ''abc''] a s = (0, a, s\<lparr>server_port := 0\<rparr>)"
    "parse_cmd E [''-p'', ''4294967376''] a s = (0, a, s\<lparr>server_port := 80\<rparr>)"
    by (simp_all only: parse) simp_all
  ultimately show ?thesis using parse by blast
qed

text \<open>
  C19: \<open>-m cuda\<close> is accepted by a build without CUDA, because \<open>check_mem_type_support\<close> looks at the
  type selected so far and not at the one asked for; every transfer then fails at its first
  allocation, before any call.
\<close>

theorem cuda_is_accepted_and_every_transfer_fails:
  "parse_cmd E [''-m'', ''cuda''] a (cs_init w) = (0, a, cs_init w\<lparr>test_mem_type := MEM_CUDA\<rparr>) \<and>
   (\<exists>t. client_server_communication E wk ep type is_server i (cs_init w\<lparr>test_mem_type := MEM_CUDA\<rparr>) = Some (-1, t) \<and>
        trace t = [] \<and> heap t = (\<lambda>_. None))"
proof
  have "getopt_all cs_optstring [''-m'', ''cuda''] = ([(CHR ''m'', Some ''cuda'')], [])"
    by (simp add: getopt_all.simps cs_optstring_def)
  then show "parse_cmd E [''-m'', ''cuda''] a (cs_init w) = (0, a, cs_init w\<lparr>test_mem_type := MEM_CUDA\<rparr>)"
    by (simp add: parse_cmd_def parse_opt_def parse_mem_type_def check_mem_type_support_def cs_init_def)
next
  let ?s = "cs_init w\<lparr>test_mem_type := MEM_CUDA\<rparr>"
  obtain ctx iov s1 where e: "enter_frame ?s = (ctx, iov, s1)" by (metis prod_cases3)
  note ef = enter_frame_fields [OF e]
  have s1: "test_mem_type s1 \<noteq> MEM_HOST" "0 < iov_cnt s1" using ef(6) by (simp_all add: cs_config_def cs_init_def)
  obtain r iov2 s2 where m: "buffer_malloc E (zero_iov s1) s1 = (r, iov2, s2)" by (metis prod_cases3)
  with buffer_malloc_other [OF m s1] ef(2) have "fill_request_param E iov c ctx s1 = (None, s1)" for c
    by (simp add: fill_request_param_def)
  with e have fails: "send_recv_stream E wk ep is_server i ?s = Some (-1, leave_frame ctx s1)"
    "send_recv_tag E wk ep is_server i ?s = Some (-1, leave_frame ctx s1)"
    "send_recv_am E wk ep is_server i ?s = Some (-1, leave_frame ctx s1)"
    by (simp_all add: send_recv_stream_def send_recv_tag_def send_recv_am_def)
  have "trace (leave_frame ctx s1) = []" "heap (leave_frame ctx s1) = (\<lambda>_. None)"
    using ef(4,11) by (simp_all add: leave_frame_def cs_init_def)
  moreover have "trace ?s = []" "heap ?s = (\<lambda>_. None)" by (simp_all add: cs_init_def)
  ultimately show "\<exists>t. client_server_communication E wk ep type is_server i ?s = Some (-1, t) \<and>
        trace t = [] \<and> heap t = (\<lambda>_. None)"
    by (cases type) (simp_all add: client_server_communication_def fails)
qed

end
