(* ===== verification/Scopes.thy ===== *)
theory Scopes
  imports Ucp_Util
begin

text \<open>
  How a well-behaved client of UCX uses its handles, as a grammar of traces: every handle has a
  scope, from the call that creates it to the call that gives it back; scopes are nested like
  blocks of a program; a call only works on handles in whose scope it lies; and there is at most
  one endpoint and at most one request at a time. Both C programs are proved to follow it
  (\<open>Cs_Scopes\<close>, \<open>Hw_Scopes\<close>). The handles are contexts, workers, listeners, endpoints and requests.
\<close>

section \<open>What a call works on\<close>

fun is_handle :: "resource \<Rightarrow> bool" where
  "is_handle (RContext _) = True"
| "is_handle (RWorker _) = True"
| "is_handle (RListener _) = True"
| "is_handle (REp _) = True"
| "is_handle (RRequest _) = True"
| "is_handle _ = False"

fun is_ep :: "resource \<Rightarrow> bool" where
  "is_ep (REp _) = True"
| "is_ep _ = False"

fun is_request :: "resource \<Rightarrow> bool" where
  "is_request (RRequest _) = True"
| "is_request _ = False"

text \<open>
  The two calls of the connection handler (\<open>ConnQuery\<close>, \<open>ListenerReject\<close>) work on arguments the
  library passes in: it calls the handler only while the listener exists.
\<close>

fun used_by :: "ucx_call \<Rightarrow> resource set" where
  "used_by (UcpCleanup c) = {RContext c}"
| "used_by (WorkerCreate c) = {RContext c}"
| "used_by (WorkerDestroy wk) = {RWorker wk}"
| "used_by (WorkerQuery wk) = {RWorker wk}"
| "used_by (ReleaseAddress wk) = {RWorker wk}"
| "used_by (WorkerProgress wk) = {RWorker wk}"
| "used_by (WorkerWait wk) = {RWorker wk}"
| "used_by (WorkerGetEfd wk) = {RWorker wk}"
| "used_by (WorkerArm wk) = {RWorker wk}"
| "used_by (ListenerCreate wk _) = {RWorker wk}"
| "used_by (ListenerQuery l) = {RListener l}"
| "used_by (ListenerDestroy l) = {RListener l}"
| "used_by (SetAmHandler wk _) = {RWorker wk}"
| "used_by (EpCreateConn wk _) = {RWorker wk}"
| "used_by (EpCreateSock wk _) = {RWorker wk}"
| "used_by (EpCreateAddr wk _ _) = {RWorker wk}"
| "used_by (EpClose ep _) = {REp ep}"
| "used_by (EpDestroy ep) = {REp ep}"
| "used_by (EpFlush ep) = {REp ep}"
| "used_by (StreamSend ep _ _) = {REp ep}"
| "used_by (StreamRecv ep _ _ _) = {REp ep}"
| "used_by (TagSend ep _ _ _) = {REp ep}"
| "used_by (TagRecv wk _ _ _ _) = {RWorker wk}"
| "used_by (TagProbe wk _ _) = {RWorker wk}"
| "used_by (TagMsgRecv wk _ _ _) = {RWorker wk}"
| "used_by (AmSend ep _ _ _) = {REp ep}"
| "used_by (AmRecvData wk _ _ _ _) = {RWorker wk}"
| "used_by (ReqFree r) = {RRequest r}"
| "used_by _ = {}"

fun uses :: "event \<Rightarrow> resource set" where
  "uses (EvVoid c) = used_by c"
| "uses (EvStatus c _) = used_by c"
| "uses (EvCreate c _ _) = used_by c"
| "uses (EvPost c _ _) = used_by c"
| "uses _ = {}"

definition taken :: "event \<Rightarrow> resource multiset" where
  "taken e = filter_mset is_handle (acquired e)"

definition given :: "event \<Rightarrow> resource multiset" where
  "given e = filter_mset is_handle (released e)"

lemma taken_simps [simp]:
  "taken (EvVoid c) = {#}" "taken (EvPrint x) = {#}"
  "given (EvStatus c st) = {#}" "given (EvCreate c st h) = {#}" "given (EvPrint x) = {#}"
  by (simp_all add: taken_def given_def)

section \<open>The grammar\<close>

text \<open>\<open>alone h H\<close>: with \<open>H\<close> in scope, \<open>h\<close> may become live.\<close>

definition alone :: "resource \<Rightarrow> resource set \<Rightarrow> bool" where
  "alone h H \<longleftrightarrow> (is_ep h \<longrightarrow> (\<forall>x \<in> H. \<not> is_ep x)) \<and> (is_request h \<longrightarrow> (\<forall>x \<in> H. \<not> is_request x))"

text \<open>
  \<open>scoped H es\<close>: a run that starts and ends with the handles \<open>H\<close>. The last rule is for a close that
  gives the handle back and hands out a request of its own, which lives on.
\<close>

inductive scoped :: "resource set \<Rightarrow> event list \<Rightarrow> bool" where
  scoped_Nil: "scoped H []"
| scoped_append: "scoped H xs \<Longrightarrow> scoped H ys \<Longrightarrow> scoped H (xs @ ys)"
| scoped_step: "taken e = {#} \<Longrightarrow> given e = {#} \<Longrightarrow> uses e \<subseteq> H \<Longrightarrow> scoped H [e]"
| scoped_scope:
    "taken a = {#h#} \<Longrightarrow> given a = {#} \<Longrightarrow> uses a \<subseteq> H \<Longrightarrow> alone h H \<Longrightarrow> scoped (insert h H) es \<Longrightarrow>
     taken z = {#} \<Longrightarrow> given z = {#h#} \<Longrightarrow> uses z \<subseteq> insert h H \<Longrightarrow> scoped H (a # es @ [z])"
| scoped_closing:
    "taken a = {#h#} \<Longrightarrow> given a = {#} \<Longrightarrow> uses a \<subseteq> H \<Longrightarrow> alone h H \<Longrightarrow> scoped (insert h H) es \<Longrightarrow>
     taken c = {#q#} \<Longrightarrow> given c = {#h#} \<Longrightarrow> uses c \<subseteq> insert h H \<Longrightarrow> alone q H \<Longrightarrow>
     scoped (insert q H) fs \<Longrightarrow> taken z = {#} \<Longrightarrow> given z = {#q#} \<Longrightarrow> uses z \<subseteq> insert q H \<Longrightarrow>
     scoped H (a # es @ c # fs @ [z])"

section \<open>What the grammar promises\<close>

text \<open>The handles that are live after a trace, \<open>None\<close> once one was given back that was not.\<close>

definition live_step :: "resource multiset option \<Rightarrow> event \<Rightarrow> resource multiset option" where
  "live_step L e =
     (case L of
        None \<Rightarrow> None
      | Some M \<Rightarrow> if given e \<subseteq># M then Some (M - given e + taken e) else None)"

definition live_after :: "event list \<Rightarrow> resource multiset option" where
  "live_after tr = foldl live_step (Some {#}) tr"

text \<open>This is the monitor \<open>held\<close> restricted to handles.\<close>

lemma live_after_held: "held_after tr = Some M \<Longrightarrow> live_after tr = Some (filter_mset is_handle M)"
proof (induction tr arbitrary: M rule: rev_induct)
  case Nil
  then show ?case by (simp add: live_after_def)
next
  case (snoc e tr)
  then obtain M0 where M0: "held_after tr = Some M0" "released e \<subseteq># M0" "M = M0 - released e + acquired e"
    by (auto simp: monitor_step_def split: option.splits if_splits)
  with snoc.IH have "live_after tr = Some (filter_mset is_handle M0)" by blast
  moreover from M0(2) have "given e \<subseteq># filter_mset is_handle M0"
    unfolding given_def by (rule multiset_filter_mono)
  ultimately show ?case
    by (simp add: live_after_def live_step_def M0(3) given_def taken_def filter_diff_mset)
qed

text \<open>At most one endpoint and one request.\<close>

definition tidy :: "resource multiset \<Rightarrow> bool" where
  "tidy M \<longleftrightarrow> size (filter_mset is_ep M) \<le> 1 \<and> size (filter_mset is_request M) \<le> 1"

text \<open>Every event of a run is emitted in a tidy state and works on live handles.\<close>

fun safe_from :: "resource multiset option \<Rightarrow> event list \<Rightarrow> bool" where
  "safe_from L [] \<longleftrightarrow> True"
| "safe_from L (e # es) \<longleftrightarrow>
     (case L of None \<Rightarrow> False | Some M \<Rightarrow> tidy M \<and> uses e \<subseteq> set_mset M) \<and> safe_from (live_step L e) es"

lemma safe_from_append: "safe_from L (xs @ ys) \<longleftrightarrow> safe_from L xs \<and> safe_from (foldl live_step L xs) ys"
  by (induction xs arbitrary: L) auto

lemma safe_from_at:
  "safe_from (Some {#}) (before @ e # after) \<Longrightarrow>
   \<exists>M. live_after before = Some M \<and> tidy M \<and> uses e \<subseteq> set_mset M"
  by (auto simp: safe_from_append live_after_def split: option.splits)

lemma live_step_step: "taken e = {#} \<Longrightarrow> given e = {#} \<Longrightarrow> live_step L e = L"
  by (simp add: live_step_def split: option.split)

lemma live_step_take: "given e = {#} \<Longrightarrow> live_step (Some M) e = Some (M + taken e)"
  by (simp add: live_step_def)

lemma live_step_give: "given e = {#h#} \<Longrightarrow> live_step (Some (add_mset h M)) e = Some (M + taken e)"
  by (simp add: live_step_def)

lemma tidy_alone: "tidy M \<Longrightarrow> alone h (set_mset M) \<Longrightarrow> tidy (add_mset h M)"
  by (auto simp: tidy_def alone_def filter_mset_eq_conv)

lemma scoped_sound:
  "scoped H es \<Longrightarrow> set_mset M = H \<Longrightarrow> tidy M \<Longrightarrow>
   foldl live_step (Some M) es = Some M \<and> safe_from (Some M) es"
proof (induction arbitrary: M rule: scoped.induct)
  case (scoped_Nil H)
  show ?case by simp
next
  case (scoped_append H xs ys)
  then show ?case by (simp add: safe_from_append)
next
  case (scoped_step e H)
  then show ?case by (simp add: live_step_step)
next
  case (scoped_scope a h H es z)
  have "tidy (add_mset h M)" using scoped_scope.hyps(4) scoped_scope.prems by (blast intro: tidy_alone)
  with scoped_scope show ?case
    by (simp add: live_step_take live_step_give safe_from_append)
next
  case (scoped_closing a h H es c q fs z)
  have "tidy (add_mset h M)" "tidy (add_mset q M)"
    using scoped_closing.hyps(4,9) scoped_closing.prems by (blast intro: tidy_alone)+
  with scoped_closing show ?case
    by (simp add: live_step_take live_step_give safe_from_append)
qed

lemma scoped_run: "scoped {} tr \<Longrightarrow> live_after tr = Some {#} \<and> safe_from (Some {#}) tr"
  using scoped_sound [of "{}" tr "{#}"] by (simp add: live_after_def tidy_def)

section \<open>Runs of a program\<close>

text \<open>\<open>within H s t\<close>: what a piece of a program does between \<open>s\<close> and \<open>t\<close>, with the handles \<open>H\<close> in scope.\<close>

definition within :: "resource set \<Rightarrow> ('w, 'b) machine_scheme \<Rightarrow> ('w, 'b) machine_scheme \<Rightarrow> bool" where
  "within H s t \<longleftrightarrow> (\<exists>es. trace t = trace s @ es \<and> scoped H es)"

lemma within_same: "trace t = trace s \<Longrightarrow> within H s t"
  by (auto simp: within_def intro: scoped_Nil)

lemma within_refl [simp, intro]: "within H s s"
  by (simp add: within_same)

lemma within_trans [trans]: "within H s t \<Longrightarrow> within H t u \<Longrightarrow> within H s u"
  by (fastforce simp: within_def intro: scoped_append)

lemma within_step:
  "trace t = trace s @ [e] \<Longrightarrow> taken e = {#} \<Longrightarrow> given e = {#} \<Longrightarrow> uses e \<subseteq> H \<Longrightarrow> within H s t"
  by (auto simp: within_def intro: scoped_step)

lemma within_scope:
  assumes "trace s1 = trace s @ [a]" "taken a = {#h#}" "given a = {#}" "uses a \<subseteq> H" "alone h H"
    and "within (insert h H) s1 s2"
    and "trace t = trace s2 @ [z]" "taken z = {#}" "given z = {#h#}" "uses z \<subseteq> insert h H"
  shows "within H s t"
proof -
  from assms(6) obtain es where es: "trace s2 = trace s1 @ es" "scoped (insert h H) es"
    by (auto simp: within_def)
  then have "scoped H (a # es @ [z])" using assms by (blast intro: scoped_scope)
  with es(1) assms(1,7) show ?thesis by (auto simp: within_def)
qed

text \<open>The calls that neither take nor give back a handle.\<close>

lemma within_call_void:
  "filter_mset is_handle (released_by c) = {#} \<Longrightarrow> used_by c \<subseteq> H \<Longrightarrow> within H s (call_void E c s)"
  by (rule within_step [OF call_void_trace]) (simp_all add: given_def)

lemma within_call_status:
  "call_status E c s = (st, t) \<Longrightarrow> filter_mset is_handle (got_by c) = {#} \<Longrightarrow> used_by c \<subseteq> H \<Longrightarrow> within H s t"
  by (rule within_step [OF call_status_trace]) (simp_all add: taken_def)

lemma within_call_create:
  "call_create E c s = ((st, h), t) \<Longrightarrow> st = UCS_OK \<Longrightarrow> handle_of c h = {#} \<Longrightarrow> used_by c \<subseteq> H \<Longrightarrow> within H s t"
  "call_create E c s = ((st, h), t) \<Longrightarrow> st \<noteq> UCS_OK \<Longrightarrow> used_by c \<subseteq> H \<Longrightarrow> within H s t"
  by (erule within_step [OF call_create_trace]; simp add: taken_def)+

text \<open>The life of a request: posted, waited for, freed; or not handed out at all.\<close>

lemma within_post:
  assumes "call_post E c bytes s = (req, s1)" "released_by c = {#}" "used_by c \<subseteq> H" "req_of req = {#}"
  shows "within H s s1"
  by (rule within_step [OF call_post_trace [OF assms(1)]]) (use assms in \<open>simp_all add: taken_def given_def\<close>)

lemma within_request:
  assumes "call_post E c bytes s = (ReqPtr r, s1)" "released_by c = {#}" "used_by c \<subseteq> H"
    and "\<forall>x \<in> H. \<not> is_request x" and "within (insert (RRequest r) H) s1 s2"
    and "trace t = trace s2 @ [EvVoid (ReqFree r)]"
  shows "within H s t"
  by (rule within_scope [OF call_post_trace [OF assms(1)] _ _ _ _ assms(5,6)])
    (use assms(2-4) in \<open>simp_all add: taken_def given_def alone_def\<close>)

text \<open>The life of an endpoint: created, used, closed, possibly with a request for the close.\<close>

lemma within_endpoint:
  assumes create: "call_create E c s = ((UCS_OK, ep), s1)" "handle_of c ep = {#REp ep#}" "used_by c \<subseteq> H"
    and alone: "\<forall>x \<in> H. \<not> is_ep x \<and> \<not> is_request x"
    and body: "within (insert (REp ep) H) s1 s2"
    and post: "call_post E' (EpClose ep force) bs s2 = (req, s3)"
    and close: "case req of ReqPtr r \<Rightarrow> \<exists>s4. within (insert (RRequest r) H) s3 s4 \<and> trace t = trace s4 @ [EvVoid (ReqFree r)]
                | _ \<Rightarrow> t = s3"
  shows "within H s t"
proof (cases req)
  case (ReqPtr r)
  with close obtain s4 where s4: "within (insert (RRequest r) H) s3 s4" "trace t = trace s4 @ [EvVoid (ReqFree r)]"
    by auto
  from body obtain es where es: "trace s2 = trace s1 @ es" "scoped (insert (REp ep) H) es"
    by (auto simp: within_def)
  from s4(1) obtain fs where fs: "trace s4 = trace s3 @ fs" "scoped (insert (RRequest r) H) fs"
    by (auto simp: within_def)
  have "scoped H (EvCreate c UCS_OK ep # es @ EvPost (EpClose ep force) bs req # fs @ [EvVoid (ReqFree r)])"
    by (rule scoped_closing [where h = "REp ep" and q = "RRequest r"])
      (use create(2,3) alone es(2) fs(2) ReqPtr in \<open>auto simp: taken_def given_def alone_def\<close>)
  with call_create_trace [OF create(1)] es(1) call_post_trace [OF post] fs(1) s4(2) show ?thesis
    by (auto simp: within_def)
next
  case ReqNull
  then show ?thesis
    using within_scope [OF call_create_trace [OF create(1)] _ _ _ _ body call_post_trace [OF post]] create(2,3) alone close
    by (simp add: taken_def given_def alone_def)
next
  case (ReqErr st)
  then show ?thesis
    using within_scope [OF call_create_trace [OF create(1)] _ _ _ _ body call_post_trace [OF post]] create(2,3) alone close
    by (simp add: taken_def given_def alone_def)
qed

text \<open>
  A run that is cut off: it could still be completed to one that follows the grammar. Such a run
  is as safe as a complete one, it only leaves scopes open.
\<close>

definition cut_off :: "resource set \<Rightarrow> ('w, 'b) machine_scheme \<Rightarrow> ('w, 'b) machine_scheme \<Rightarrow> bool" where
  "cut_off H s t \<longleftrightarrow> (\<exists>es fs. trace t = trace s @ es \<and> scoped H (es @ fs))"

lemma within_cut_off: "within H s t \<Longrightarrow> cut_off H s t"
  unfolding within_def cut_off_def by (metis append_Nil2)

lemma cut_off_after: "within H s t \<Longrightarrow> cut_off H t u \<Longrightarrow> cut_off H s u"
  unfolding within_def cut_off_def by (metis append.assoc scoped_append)

lemma cut_off_scope:
  assumes "trace s1 = trace s @ [a]" "taken a = {#h#}" "given a = {#}" "uses a \<subseteq> H" "alone h H"
    and "cut_off (insert h H) s1 t" and "taken z = {#}" "given z = {#h#}" "uses z \<subseteq> insert h H"
  shows "cut_off H s t"
proof -
  from assms(6) obtain es fs where es: "trace t = trace s1 @ es" "scoped (insert h H) (es @ fs)"
    by (auto simp: cut_off_def)
  then have "scoped H (a # (es @ fs) @ [z])" using assms by (blast intro: scoped_scope)
  with es(1) assms(1) show ?thesis unfolding cut_off_def by (intro exI [of _ "a # es"] exI [of _ "fs @ [z]"]) simp
qed

lemma cut_off_safe: "cut_off {} s t \<Longrightarrow> trace s = [] \<Longrightarrow> safe_from (Some {#}) (trace t)"
  using scoped_run by (fastforce simp: cut_off_def safe_from_append)

end
