(* ===== verification/Cs_Scopes.thy ===== *)
theory Cs_Scopes
  imports Cs_Session Scopes
begin

text \<open>
  \<open>ucp_client_server.c\<close> follows the grammar of \<open>Scopes\<close>: the handles it takes live in nested scopes
  and it calls the library only with handles that are live.
\<close>

section \<open>Steps with the listener untouched\<close>

definition cs_within :: "resource set \<Rightarrow> 'w cs \<Rightarrow> 'w cs \<Rightarrow> bool" where
  "cs_within H s t \<longleftrightarrow> within H s t \<and> cs_listener t = cs_listener s"

lemma cs_within_refl [simp, intro]: "cs_within H s s"
  by (simp add: cs_within_def)

lemma cs_within_trans [trans]: "cs_within H s t \<Longrightarrow> cs_within H t u \<Longrightarrow> cs_within H s u"
  by (auto simp: cs_within_def intro: within_trans)

lemma cs_within_same [intro]: "trace t = trace s \<Longrightarrow> cs_listener t = cs_listener s \<Longrightarrow> cs_within H s t"
  by (simp add: cs_within_def within_same)

lemma cs_within_heap_only: "heap_only s t \<Longrightarrow> cs_within H s t"
  by (rule cs_within_same) (simp_all add: heap_onlyD heap_only_cs)

lemma cs_within_dispatch: "cs_within H s (cs_dispatch E u s)"
proof -
  have "within H s (cs_dispatch E u s)"
  proof (cases "\<exists>conn. u = UpConnRequest conn")
    case True
    then obtain conn where u: "u = UpConnRequest conn" ..
    obtain st s1 where q: "call_status E (ConnQuery conn) s = (st, s1)" by fastforce
    have "within H s s1" using q by (rule within_call_status) simp_all
    moreover have "within H s1 (snd (call_status E (ListenerReject (cs_listener s1) conn) s1))"
      by (rule within_call_status [OF surjective_pairing]) simp_all
    moreover have "within H s1 (s1\<lparr>conn_request := Some conn\<rparr>)" by (simp add: within_same)
    ultimately show ?thesis
      by (auto simp: u server_conn_handle_cb_def q split: option.split intro: within_trans)
  next
    case False
    have copy: "trace (copy_data vs data off v) = trace v" for vs data off and v :: "'a cs"
      by (induction vs data off v rule: copy_data.induct)
        (simp_all add: Let_def split: mem_type.split)
    have am: "trace (snd (ucp_am_data_cb hl data s)) = trace s" for hl data
      by (simp add: ucp_am_data_cb_def Let_def copy split: am_data.split option.split)
    have common: "trace (common_cb d s) = trace s" for d
      by (simp add: common_cb_def split: option.split)
    from False show ?thesis
      by (cases u)
        (simp_all add: within_same am common send_cb_def tag_recv_cb_def stream_recv_cb_def am_recv_cb_def
          err_cb_def)
  qed
  then show ?thesis by (simp add: cs_within_def cs_frameD(12) [OF cs_frame_dispatch])
qed

interpretation cs_scope: progress_frame "cs_within (insert (RWorker wk) H)" "cs_dispatch E" wk for E wk H
proof unfold_locales
  fix s :: "'a cs" and w
  show "cs_within (insert (RWorker wk) H) s (emit (EvVoid (WorkerProgress wk)) (s\<lparr>world := w\<rparr>))"
    by (auto simp: cs_within_def given_def intro: within_step)
qed (auto intro: cs_within_trans cs_within_dispatch)

lemma cs_within_wait:
  "while_option b (cs_progress E wk) s = Some t \<Longrightarrow> RWorker wk \<in> H \<Longrightarrow> cs_within H s t"
  by (drule cs_scope.wait_R [where H = H]) (simp add: insert_absorb)

lemma cs_within_progress_request:
  "progress_request E (cs_dispatch E) wk r s = Some (st, t) \<Longrightarrow> RWorker wk \<in> H \<Longrightarrow> cs_within H s t"
  by (drule cs_scope.progress_request_R [where H = H]) (simp add: insert_absorb)

section \<open>One transfer\<close>

lemma buffer_malloc_from_heap_only: "heap_only s (snd (snd (buffer_malloc_from E before vs s)))"
proof (induction E before vs s rule: buffer_malloc_from.induct)
  case (1 E before s)
  then show ?case by simp
next
  case (2 E before v vs s)
  obtain p s1 where m: "mem_type_malloc E (test_string_length s) s = (p, s1)" by fastforce
  have s1: "heap_only s s1" using mem_type_malloc_heap_only [of s E "test_string_length s"] by (simp add: m)
  have "heap_only s1 (buffer_free vs' s1)" for vs' using buffer_free_frame [of s1 vs'] by blast
  with s1 2 m show ?case by (auto simp: Let_def intro: heap_only_trans)
qed

lemma fill_buffer_heap_only: "heap_only s (snd (fill_buffer E vs s))"
proof (induction E vs s rule: fill_buffer.induct)
  case (1 E s)
  then show ?case by simp
next
  case (2 E v vs s)
  obtain r s1 where g: "generate_test_string E (iov_buffer v) 0 (ucast (iov_length v)) s = (r, s1)" by fastforce
  have "heap_only s s1" using generate_test_string_heap_only [OF g] .
  with 2 g show ?case by (auto intro: heap_only_trans)
qed

lemma fill_request_param_memory:
  assumes "fill_request_param E iov c ctx s = (filled, t)"
  obtains u where "heap_only s u" "t = u \<or> (\<exists>fr. t = u\<lparr>frames := fr\<rparr>)"
proof -
  obtain r iov2 s2 where m: "buffer_malloc E iov s = (r, iov2, s2)" by (metis prod_cases3)
  have s2: "heap_only s s2"
    using buffer_malloc_from_heap_only [of s E "[]" iov] m by (simp add: buffer_malloc_def)
  obtain r3 s3 where f: "(if c then fill_buffer E iov2 s2 else (0, s2)) = (r3, s3)" by fastforce
  have "heap_only s2 s3" using fill_buffer_heap_only [of s2 E iov2] f by (auto split: if_splits)
  with s2 have s3: "heap_only s s3" by (rule heap_only_trans)
  have s4: "heap_only s (buffer_free iov2 s3)"
    by (rule heap_only_trans [OF s3 conjunct1 [OF buffer_free_frame]])
  from assms m f have "t = s2 \<or> t = buffer_free iov2 s3 \<or> (\<exists>fr. t = s3\<lparr>frames := fr\<rparr>)"
    by (auto simp: fill_request_param_def Let_def split: if_splits)
  with that s2 s3 s4 show thesis by blast
qed

lemma fill_request_param_within:
  assumes "fill_request_param E iov c ctx s = (filled, t)" shows "cs_within H s t"
proof -
  from assms obtain u where "heap_only s u" "t = u \<or> (\<exists>fr. t = u\<lparr>frames := fr\<rparr>)"
    by (rule fill_request_param_memory)
  then show ?thesis by (auto simp: heap_onlyD heap_only_cs)
qed

lemma enter_frame_within: "enter_frame s = (ctx, iov, t) \<Longrightarrow> cs_within H s t"
  by (rule cs_within_same) (auto simp: enter_frame_def Let_def)

lemma leave_frame_within: "cs_within H s (leave_frame ctx s)"
  by (rule cs_within_same) (simp_all add: leave_frame_def)

lemma print_iov_from_within: "cs_within H s (print_iov_from msg vs s)"
proof (induction msg vs s rule: print_iov_from.induct)
  case (1 msg s)
  show ?case by simp
next
  case (2 msg v vs s)
  obtain msg' s1 where m: "(case test_mem_type s of
                        MEM_HOST \<Rightarrow>
                          (case load (iov_buffer v) 0 (unat (test_string_length s)) s of
                             None \<Rightarrow> (msg, fault (BadLoad (iov_buffer v)) s)
                           | Some bs \<Rightarrow> (bs, s))
                      | _ \<Rightarrow> (msg, s)) = (msg', s1)" by fastforce
  then have s1: "cs_within H s s1" by (auto split: mem_type.splits option.splits)
  define s2 where "s2 = (case c_string msg' of None \<Rightarrow> fault BadString s1 | Some str \<Rightarrow> emit (EvPrint str) s1)"
  have "cs_within H s1 s2"
    by (auto simp: s2_def cs_within_def intro: within_step within_same split: option.splits)
  moreover have "print_iov_from msg (v # vs) s = print_iov_from msg' vs s2"
    using m by (simp add: s2_def Let_def)
  ultimately show ?case
    using "2.IH" [OF refl refl m [symmetric] s2_def] s1 by (auto intro: cs_within_trans)
qed

lemma finish_within:
  assumes "request_finalize E wk request ctx is_server iov i s = Some (ret, t)"
  obtains st s1 where "request_wait E wk request ctx s = Some (st, s1)" "cs_within H s1 t"
proof -
  from assms obtain st s1 where w: "request_wait E wk request ctx s = Some (st, s1)"
      and t: "t = buffer_free iov s1 \<or> t = buffer_free iov (print_result is_server iov i s1)"
    by (auto simp: request_finalize_def bind_eq_Some_conv split: if_splits)
  have free: "cs_within H u (buffer_free iov u)" for u by (rule cs_within_same) simp_all
  from t have "cs_within H s1 t"
    using free print_iov_from_within [of H s1] by (auto simp: print_result_def print_iov_def intro: cs_within_trans)
  with w that show thesis by blast
qed

text \<open>What a transfer needs: its worker and endpoint live, and no request.\<close>

definition connected :: "nat \<Rightarrow> nat \<Rightarrow> resource set \<Rightarrow> bool" where
  "connected wk ep H \<longleftrightarrow> RWorker wk \<in> H \<and> REp ep \<in> H \<and> (\<forall>x \<in> H. \<not> is_request x)"

lemma call_post_listener: "call_post E c bytes s = (r, t) \<Longrightarrow> cs_listener t = cs_listener (s :: 'w cs)"
  by (drule call_post_frame(1)) (simp add: cs_core_def)

lemma transfer_within:
  assumes H: "connected wk ep H" and post: "call_post E c bytes s = (req, s0)" and early: "s1 = fold (cs_dispatch E) us s0"
    and c: "released_by c = {#}" "used_by c \<subseteq> H"
    and run: "request_finalize E wk req ctx is_server iov i s1 = Some (ret, t)"
  shows "cs_within H s t"
proof -
  obtain st s2 where w: "request_wait E wk req ctx s1 = Some (st, s2)" and fin: "cs_within H s2 t"
    using finish_within [OF run] .
  have cb: "cs_within H' s0 s1" if "RWorker wk \<in> H'" for H'
    using cs_scope.fold_hnd [of wk H' s0 E us] that by (simp add: early insert_absorb)
  have "cs_within H s s2"
  proof (cases req)
    case (ReqPtr r)
    with w obtain s3 where l: "while_option (\<lambda>s. ctx_complete ctx s = 0) (cs_progress E wk) s1 = Some s3"
        and s2: "s2 = call_void E (ReqFree r) s3"
      by (auto simp: request_wait_def bind_eq_Some_conv)
    have "cs_within (insert (RRequest r) H) s1 s3"
      using l by (rule cs_within_wait) (use H in \<open>simp add: connected_def\<close>)
    moreover have "cs_within (insert (RRequest r) H) s0 s1" using H by (intro cb) (simp add: connected_def)
    ultimately have b: "cs_within (insert (RRequest r) H) s0 s3" by (blast intro: cs_within_trans)
    have "within H s s2"
      by (rule within_request [OF post [unfolded ReqPtr] c _ _ call_void_trace [of E "ReqFree r" s3, folded s2]])
        (use H b in \<open>simp_all add: connected_def cs_within_def\<close>)
    with b call_post_listener [OF post] show ?thesis by (simp add: cs_within_def s2 call_void_def)
  qed (use w post c cb [of H] H call_post_listener [OF post] in
      \<open>auto simp: request_wait_def cs_within_def connected_def intro: within_trans [OF within_post]\<close>)
  with fin show ?thesis by (rule cs_within_trans [rotated])
qed

text \<open>The three transfers: enter, prepare, the request, leave.\<close>

lemma prepared_within:
  assumes "enter_frame s = (ctx, iov, s1)" "fill_request_param E iov c ctx s1 = (filled, s2)"
  shows "cs_within H s s2"
  using enter_frame_within [OF assms(1)] fill_request_param_within [OF assms(2)] by (rule cs_within_trans)

lemma left_within: "cs_within H s t \<Longrightarrow> cs_within H s (leave_frame ctx t)"
  using leave_frame_within by (rule cs_within_trans [rotated])

text \<open>The stream and the tag transfer differ in the two calls that post them.\<close>

lemma posted_within:
  assumes run: "(let (ctx, iov, s) = enter_frame s;
          (filled, s) = fill_request_param E iov (\<not> is_server) ctx s
      in case filled of
           None \<Rightarrow> Some (-1, leave_frame ctx s)
         | Some (iov, msg) \<Rightarrow>
             let (request, s) = (if \<not> is_server then call_post E (sending msg ctx) (gather msg s) s
                                 else call_post E (receiving msg ctx) [] s)
             in do { (ret, s) \<leftarrow> request_finalize E wk request ctx is_server iov i s;
                     Some (ret, leave_frame ctx s) }) = Some (ret, t)"
    and H: "connected wk ep H"
    and c: "\<And>msg ctx. released_by (sending msg ctx) = {#} \<and> used_by (sending msg ctx) \<subseteq> H"
      "\<And>msg ctx. released_by (receiving msg ctx) = {#} \<and> used_by (receiving msg ctx) \<subseteq> H"
  shows "cs_within H s t"
proof -
  obtain ctx iov s1 where e: "enter_frame s = (ctx, iov, s1)" by (metis prod_cases3)
  obtain filled s2 where f: "fill_request_param E iov (\<not> is_server) ctx s1 = (filled, s2)" by fastforce
  have k: "cs_within H s s2" using e f by (rule prepared_within)
  show ?thesis
  proof (cases filled)
    case None
    with run e f k show ?thesis by (auto intro: left_within)
  next
    case (Some p)
    obtain iov' msg where p: "p = (iov', msg)" by (cases p)
    define call where "call = (if is_server then receiving msg ctx else sending msg ctx)"
    define bs where "bs = (if is_server then [] else gather msg s2)"
    obtain r s3 where post: "call_post E call bs s2 = (r, s3)" by fastforce
    from run e f Some p post obtain u where
        fin: "request_finalize E wk r ctx is_server iov' i s3 = Some (ret, u)" and t: "t = leave_frame ctx u"
      by (auto simp: call_def bs_def bind_eq_Some_conv split: if_splits)
    have "cs_within H s2 u"
      by (rule transfer_within [where us = "[]", OF H post _ _ _ fin]) (use c in \<open>simp_all add: call_def\<close>)
    with k t show ?thesis by (auto intro: left_within cs_within_trans)
  qed
qed

lemma send_recv_stream_within:
  "send_recv_stream E wk ep is_server i s = Some (ret, t) \<Longrightarrow> connected wk ep H \<Longrightarrow> cs_within H s t"
  unfolding send_recv_stream_def by (erule (1) posted_within) (simp_all add: connected_def)

lemma send_recv_tag_within:
  "send_recv_tag E wk ep is_server i s = Some (ret, t) \<Longrightarrow> connected wk ep H \<Longrightarrow> cs_within H s t"
  unfolding send_recv_tag_def by (erule (1) posted_within) (simp_all add: connected_def)

lemma no_request_within:
  "request_finalize E wk ReqNull ctx is_server iov i s = Some (ret, t) \<Longrightarrow> cs_within H s t"
  by (erule finish_within [of E wk ReqNull ctx is_server iov i s ret t]) (simp add: request_wait_def)

lemma send_recv_am_within:
  assumes run: "send_recv_am E wk ep is_server i s = Some (ret, t)" and H: "connected wk ep H"
  shows "cs_within H s t"
proof -
  obtain ctx iov s1 where e: "enter_frame s = (ctx, iov, s1)" by (metis prod_cases3)
  obtain filled s2 where f: "fill_request_param E iov (\<not> is_server) ctx s1 = (filled, s2)" by fastforce
  have k: "cs_within H s s2" using e f by (rule prepared_within)
  show ?thesis
  proof (cases filled)
    case None
    with run e f k show ?thesis by (auto simp: send_recv_am_def intro: left_within)
  next
    case (Some p)
    obtain iov' msg where p: "p = (iov', msg)" by (cases p)
    have "\<exists>u. cs_within H s2 u \<and> t = leave_frame ctx u"
    proof (cases is_server)
      case False
      obtain r s3 where post: "call_post E (AmSend ep TEST_AM_ID msg (Some ctx)) (gather msg s2) s2 = (r, s3)"
        by fastforce
      from run e f Some p post False obtain u where
          fin: "request_finalize E wk r ctx is_server iov' i s3 = Some (ret, u)" and t: "t = leave_frame ctx u"
        by (auto simp: send_recv_am_def bind_eq_Some_conv)
      have "cs_within H s2 u"
        by (rule transfer_within [where us = "[]", OF H post _ _ _ fin]) (use H in \<open>simp_all add: connected_def\<close>)
      with t show ?thesis by blast
    next
      case True
      from run e f Some p True obtain s4 where
          w: "while_option (\<lambda>s. am_last s = am_complete s) (cs_progress E wk) (s2\<lparr>am_recv_buf := Some ctx\<rparr>) = Some s4"
        by (auto simp: send_recv_am_def bind_eq_Some_conv Let_def)
      let ?s5 = "s4\<lparr>am_last := am_last s4 + 1\<rparr>"
      have "cs_within H (s2\<lparr>am_recv_buf := Some ctx\<rparr>) s4"
        using w by (rule cs_within_wait) (use H in \<open>simp add: connected_def\<close>)
      moreover have "cs_within H s2 (s2\<lparr>am_recv_buf := Some ctx\<rparr>)" "cs_within H s4 ?s5"
        by (rule cs_within_same; simp)+
      ultimately have k5: "cs_within H s2 ?s5" by (blast intro: cs_within_trans)
      obtain r s3 where post: "(if am_is_rndv ?s5 \<noteq> 0
          then call_post_cb E (cs_dispatch E) (AmRecvData wk (am_desc ?s5) msg (Some ctx) [NO_IMM_CMPL]) [] ?s5
          else (ReqNull, ?s5)) = (r, s3)"
        by fastforce
      from run e f Some p True w post obtain u where
          fin: "request_finalize E wk r ctx is_server iov' i s3 = Some (ret, u)" and t: "t = leave_frame ctx u"
        by (auto simp: send_recv_am_def bind_eq_Some_conv Let_def)
      have "cs_within H ?s5 u"
      proof (cases "am_is_rndv ?s5 = 0")
        case True
        with post fin show ?thesis by (auto intro: no_request_within)
      next
        case False
        with post have "call_post_cb E (cs_dispatch E) (AmRecvData wk (am_desc ?s5) msg (Some ctx) [NO_IMM_CMPL]) [] ?s5 = (r, s3)"
          by simp
        from this obtain us v where
            "call_post E (AmRecvData wk (am_desc ?s5) msg (Some ctx) [NO_IMM_CMPL]) [] ?s5 = (r, v)" "s3 = fold (cs_dispatch E) us v"
          by (rule call_post_cb_cases)
        from transfer_within [OF H this _ _ fin] H show ?thesis by (simp add: connected_def)
      qed
      with k5 t show ?thesis by (blast intro: cs_within_trans)
    qed
    with k show ?thesis by (auto intro: left_within cs_within_trans)
  qed
qed

lemma client_server_communication_within:
  "client_server_communication E wk ep type b i s = Some (ret, t) \<Longrightarrow> connected wk ep H \<Longrightarrow> cs_within H s t"
  by (cases type)
    (auto simp: client_server_communication_def
      intro: send_recv_stream_within send_recv_tag_within send_recv_am_within)

section \<open>A session\<close>

lemma do_iterations_within:
  "do_iterations E wk ep type b i n s = Some (ret, j, t) \<Longrightarrow> connected wk ep H \<Longrightarrow> cs_within H s t"
proof (induction E wk ep type b i n s rule: do_iterations.induct)
  case (1 E wk ep type b i n s)
  show ?case
  proof (cases "i < n")
    case False
    with "1.prems" show ?thesis by (auto simp: do_iterations.simps)
  next
    case True
    with "1.prems" obtain r1 s1 where c: "client_server_communication E wk ep type b i s = Some (r1, s1)"
      by (auto simp: do_iterations.simps [of E wk ep type b i n s] bind_eq_Some_conv)
    note k = client_server_communication_within [OF c "1.prems"(2)]
    show ?thesis
    proof (cases "r1 = 0")
      case False
      with "1.prems" c True k show ?thesis by (simp add: do_iterations.simps [of E wk ep type b i n s])
    next
      case r0: True
      with "1.prems" c True have "do_iterations E wk ep type b (i + 1) n s1 = Some (ret, j, t)"
        by (simp add: do_iterations.simps [of E wk ep type b i n s])
      with "1.IH" [OF True c refl] r0 k "1.prems"(2) show ?thesis by (auto intro: cs_within_trans)
    qed
  qed
qed

lemma register_within:
  "register_am_recv_callback E wk s = (st, t) \<Longrightarrow> RWorker wk \<in> H \<Longrightarrow> cs_within H s t"
  by (auto simp: register_am_recv_callback_def cs_within_def dest: call_status_same(3) intro: within_call_status)

lemma client_server_do_work_within:
  assumes run: "client_server_do_work E wk ep type is_server s = Some (ret, t)" and H: "connected wk ep H"
  shows "cs_within H s t"
proof -
  let ?s = "s\<lparr>connection_closed := 0\<rparr>"
  from run obtain r1 i s1 where it: "do_iterations E wk ep type is_server 0 (sint (num_iterations ?s)) ?s = Some (r1, i, s1)"
    by (auto simp: client_server_do_work_def bind_eq_Some_conv Let_def)
  have "cs_within H s ?s" by (rule cs_within_same) simp_all
  also note do_iterations_within [OF it H]
  finally have k1: "cs_within H s s1" .
  obtain st s2 where reg: "(if \<not> is_server \<and> type = SEND_RECV_AM then register_am_recv_callback E wk s1
           else (UCS_OK, s1)) = (st, s2)" by fastforce
  have "cs_within H s1 s2" using reg H by (auto simp: connected_def split: if_splits intro: register_within)
  with k1 have k2: "cs_within H s s2" by (rule cs_within_trans)
  show ?thesis
  proof (cases "r1 = 0 \<and> st = UCS_OK")
    case False
    with run it reg k1 k2 show ?thesis by (auto simp: client_server_do_work_def Let_def split: if_splits)
  next
    case True
    with run it reg obtain r3 s3 where
        fin: "client_server_communication E wk ep type (\<not> is_server) (i + 1) s2 = Some (r3, s3)"
      by (auto simp: client_server_do_work_def Let_def bind_eq_Some_conv)
    have k3: "cs_within H s s3" using k2 client_server_communication_within [OF fin H] by (rule cs_within_trans)
    from run it True reg fin consider "t = s3"
      | "while_option (\<lambda>s. is_server \<and> connection_closed s = 0) (cs_progress E wk) s3 = Some t"
      by (auto simp: client_server_do_work_def Let_def bind_eq_Some_conv split: if_splits)
    then show ?thesis
      using k3 H by cases (auto simp: connected_def intro: cs_within_trans [OF k3] cs_within_wait)
  qed
qed

section \<open>The server\<close>

text \<open>\<open>serving E H s ep t\<close>: a run that has an endpoint open at its end.\<close>

definition serving :: "('w, cs_upcall, 'e) env_scheme \<Rightarrow> resource set \<Rightarrow> 'w cs \<Rightarrow> nat \<Rightarrow> 'w cs \<Rightarrow> bool" where
  "serving E H s ep t \<longleftrightarrow>
     (\<exists>c s0 s1. cs_within H s s0 \<and> call_create E c s0 = ((UCS_OK, ep), s1) \<and> handle_of c ep = {#REp ep#} \<and>
        used_by c \<subseteq> H \<and> cs_within (insert (REp ep) H) s1 t)"

text \<open>What is live around an endpoint: its worker, and neither an endpoint nor a request.\<close>

definition idle :: "nat \<Rightarrow> resource set \<Rightarrow> bool" where
  "idle wk H \<longleftrightarrow> RWorker wk \<in> H \<and> (\<forall>x \<in> H. \<not> is_ep x \<and> \<not> is_request x)"

lemma idle_connected: "idle wk H \<Longrightarrow> connected wk ep (insert (REp ep) H)"
  by (auto simp: idle_def connected_def)

lemma serving_prefix: "cs_within H s s' \<Longrightarrow> serving E H s' ep t \<Longrightarrow> serving E H s ep t"
  unfolding serving_def by (blast intro: cs_within_trans)

lemma serving_close:
  assumes opened: "serving E H s ep s2" and H: "idle wk H" and close: "ep_close E (cs_dispatch E) wk ep force s2 = Some t"
  shows "cs_within H s t"
proof -
  from opened obtain c s0 s1 where k0: "cs_within H s s0"
    and create: "call_create E c s0 = ((UCS_OK, ep), s1)" "handle_of c ep = {#REp ep#}" "used_by c \<subseteq> H"
    and body: "cs_within (insert (REp ep) H) s1 s2"
    unfolding serving_def by blast
  obtain req s3 where post: "call_post E (EpClose ep force) [] s2 = (req, s3)" by fastforce
  have fin: "(case req of ReqPtr r \<Rightarrow> \<exists>s4. within (insert (RRequest r) H) s3 s4 \<and> trace t = trace s4 @ [EvVoid (ReqFree r)]
      | _ \<Rightarrow> t = s3) \<and> cs_listener t = cs_listener s3"
  proof (cases req)
    case (ReqPtr r)
    with close post obtain st s4 where w: "progress_request E (cs_dispatch E) wk r s3 = Some (st, s4)"
        and t: "t = call_void E (ReqFree r) s4"
      by (auto simp: ep_close_def bind_eq_Some_conv)
    from w have "cs_within (insert (RRequest r) H) s3 s4"
      by (rule cs_within_progress_request) (use H in \<open>simp add: idle_def\<close>)
    moreover from t have "cs_listener t = cs_listener s4" by (simp add: call_void_def)
    ultimately show ?thesis using ReqPtr t by (auto simp: cs_within_def)
  qed (use close post in \<open>simp_all add: ep_close_def\<close>)
  have "within H s0 t"
    by (rule within_endpoint [OF create _ _ post conjunct1 [OF fin]])
      (use H body in \<open>simp_all add: idle_def cs_within_def\<close>)
  moreover have "cs_listener t = cs_listener s0"
    using fin call_post_listener [OF post] body call_create_same(3) [OF create(1)] by (simp add: cs_within_def)
  ultimately show ?thesis using k0 by (auto simp: cs_within_def intro: within_trans)
qed

lemma create_failed_within:
  "call_create E c s = ((st, h), t) \<Longrightarrow> st \<noteq> UCS_OK \<Longrightarrow> used_by c \<subseteq> H \<Longrightarrow> cs_within H s (t :: 'w cs)"
  by (auto simp: cs_within_def dest: call_create_same(3) intro: within_call_create(2))

lemma serve_client_within:
  assumes run: "serve_client E wk dw type s = Some r" and H: "RWorker wk \<in> H" "idle dw H"
  shows "case r of Inl t \<Rightarrow> cs_within H s t
                 | Inr (ret, None, t) \<Rightarrow> cs_within H s t
                 | Inr (ret, Some ep, t) \<Rightarrow> serving E H s ep t"
proof -
  from run obtain s1 conn where w: "while_option (\<lambda>s. conn_request s = None) (cs_progress E wk) s = Some s1"
      and conn: "conn_request s1 = Some conn"
    by (auto simp: serve_client_def bind_eq_Some_conv)
  have k1: "cs_within H s s1" using w H(1) by (rule cs_within_wait)
  obtain st ep s2 where c: "call_create E (EpCreateConn dw conn) s1 = ((st, ep), s2)" by (metis surj_pair)
  show ?thesis
  proof (cases "st = UCS_OK")
    case False
    with run w conn c have "r = Inr (-1, None, s2)" by (simp add: serve_client_def server_create_ep_def)
    with k1 create_failed_within [OF c False, of H] H(2) show ?thesis by (auto simp: idle_def intro: cs_within_trans)
  next
    case True
    from run w conn c True obtain ret s3 where d: "client_server_do_work E dw ep type True s2 = Some (ret, s3)"
      by (auto simp: serve_client_def server_create_ep_def bind_eq_Some_conv)
    have body: "cs_within (insert (REp ep) H) s2 s3"
      using d idle_connected [OF H(2)] by (rule client_server_do_work_within)
    have opened: "serving E H s ep s3"
      unfolding serving_def
      by (rule exI [of _ "EpCreateConn dw conn"], rule exI [of _ s1], rule exI [of _ s2])
        (use k1 c True body H(2) in \<open>simp add: idle_def\<close>)
    show ?thesis
    proof (cases "ret = 0")
      case False
      with run w conn c True d have "r = Inr (ret, Some ep, s3)" by (simp add: serve_client_def server_create_ep_def)
      with opened show ?thesis by simp
    next
      case ok: True
      with run w conn c True d obtain s4 where cl: "ep_close E (cs_dispatch E) dw ep True s3 = Some s4"
          and r: "r = Inl (s4\<lparr>conn_request := None\<rparr>)"
        by (auto simp: serve_client_def server_create_ep_def bind_eq_Some_conv)
      have "cs_within H s s4" using opened H(2) cl by (rule serving_close)
      moreover have "cs_within H s4 (s4\<lparr>conn_request := None\<rparr>)" by (rule cs_within_same) simp_all
      ultimately show ?thesis using r by (auto intro: cs_within_trans)
    qed
  qed
qed

lemma serve_loop_within:
  assumes run: "loop (serve_client E wk dw type) s = Some (ret, ep, t)" and H: "RWorker wk \<in> H" "idle dw H"
  shows "case ep of None \<Rightarrow> cs_within H s t | Some ep \<Rightarrow> serving E H s ep t"
proof -
  let ?Q = "\<lambda>(ret, ep, t). case ep of None \<Rightarrow> cs_within H s t | Some ep \<Rightarrow> serving E H s ep t"
  have "?Q (ret, ep, t)"
  proof (rule loop_rule [where P = "cs_within H s" and Q = ?Q, OF run])
    fix u u' assume "cs_within H s u" "serve_client E wk dw type u = Some (Inl u')"
    then show "cs_within H s u'" using serve_client_within [OF _ H] by (fastforce intro: cs_within_trans)
  next
    fix u q assume P: "cs_within H s u" and b: "serve_client E wk dw type u = Some (Inr q)"
    from serve_client_within [OF b H] P show "?Q q"
      by (cases q) (auto split: option.splits intro: cs_within_trans serving_prefix)
  qed simp
  then show ?thesis by simp
qed

text \<open>A listener or nothing.\<close>

lemma start_server_within:
  assumes run: "start_server E wk addr s = (st, t)" and wk: "RWorker wk \<in> H"
  shows "if st = UCS_OK
         then \<exists>a s1. trace s1 = trace s @ [EvCreate (ListenerCreate wk a) UCS_OK (cs_listener t)] \<and>
                     cs_listener s1 = cs_listener t \<and> cs_within (insert (RListener (cs_listener t)) H) s1 t
         else within H s t"
proof -
  let ?a = "set_sock_addr E addr s"
  obtain st1 l s1 where c: "call_create E (ListenerCreate wk ?a) s = ((st1, l), s1)" by (metis surj_pair)
  show ?thesis
  proof (cases "st1 = UCS_OK")
    case False
    with run c have "st = st1" "t = s1\<lparr>cs_listener := l\<rparr>" by (simp_all add: start_server_def)
    with False call_create_trace [OF c] wk show ?thesis by (auto intro: within_step simp: taken_def)
  next
    case True
    let ?s = "s1\<lparr>cs_listener := l\<rparr>"
    note tr = call_create_trace [OF c, unfolded True]
    obtain st2 s2 where q: "call_status E (ListenerQuery l) ?s = (st2, s2)" by fastforce
    have k: "cs_within (insert (RListener l) H) ?s s2"
      using q call_status_same(3) [OF q] by (auto simp: cs_within_def intro: within_call_status)
    show ?thesis
    proof (cases "st2 = UCS_OK")
      case False
      with run c True q have t: "st = st2" "t = call_void E (ListenerDestroy l) s2" by (simp_all add: start_server_def)
      have "within H s t"
        by (rule within_scope [where h = "RListener l" and ?s1.0 = ?s and ?s2.0 = s2])
          (use tr k wk t in \<open>auto simp: taken_def given_def alone_def cs_within_def\<close>)
      with False t show ?thesis by simp
    next
      case ok: True
      with run c True q have "st = UCS_OK" "t = s2" by (simp_all add: start_server_def)
      with k tr show ?thesis by (auto simp: cs_within_def intro!: exI [of _ ?s])
    qed
  qed
qed

lemma serve_within:
  assumes lp: "loop (serve_client E wk dw type) s = Some (ret, ep, s1)"
    and cl: "(case ep of Some ep \<Rightarrow> ep_close E (cs_dispatch E) dw ep True s1 | None \<Rightarrow> Some s1) = Some t"
    and H: "RWorker wk \<in> H" "idle dw H"
  shows "cs_within H s t"
  using serve_loop_within [OF lp H] cl H(2) by (auto split: option.splits intro: serving_close)

lemma run_server_within:
  assumes run: "run_server E ctx wk addr type s = Some (ret, t)" and H: "RContext ctx \<in> H" "idle wk H"
  shows "within H s t"
proof -
  obtain st0 dw s1 where c: "call_create E (WorkerCreate ctx) s = ((st0, dw), s1)" by (metis surj_pair)
  show ?thesis
  proof (cases "st0 = UCS_OK")
    case False
    with run c have "t = s1" by (simp add: run_server_def init_worker_def)
    with False c H(1) show ?thesis by (auto intro: within_call_create(2))
  next
    case True
    let ?H = "insert (RWorker dw) H"
    have H': "RWorker wk \<in> ?H" "idle dw ?H" "RWorker dw \<in> ?H" using H by (auto simp: idle_def)
    obtain st2 s2 where reg: "(if type = SEND_RECV_AM then register_am_recv_callback E dw s1
              else (UCS_OK, s1)) = (st2, s2)" by fastforce
    have k2: "within ?H s1 s2" using reg H'(3) by (auto simp: cs_within_def split: if_splits dest: register_within)
    have "\<exists>u. within ?H s1 u \<and> t = call_void E (WorkerDestroy dw) u"
    proof (cases "st2 = UCS_OK")
      case False
      with run c True reg k2 show ?thesis by (auto simp: run_server_def init_worker_def)
    next
      case ok: True
      let ?s2 = "s2\<lparr>conn_request := None\<rparr>"
      obtain st3 s3 where l: "start_server E wk addr ?s2 = (st3, s3)" by fastforce
      note st = start_server_within [OF l H'(1)]
      have k2': "within ?H s1 ?s2" using k2 within_same [of ?s2 s2 ?H] by (auto intro: within_trans)
      show ?thesis
      proof (cases "st3 = UCS_OK")
        case False
        with run c True reg ok l have "t = call_void E (WorkerDestroy dw) s3"
          by (simp add: run_server_def init_worker_def Let_def)
        with False st k2' show ?thesis by (auto intro: within_trans)
      next
        case ok3: True
        let ?l = "cs_listener s3"
        from st ok3 obtain a u where u: "trace u = trace ?s2 @ [EvCreate (ListenerCreate wk a) UCS_OK ?l]"
            "cs_within (insert (RListener ?l) ?H) u s3" by auto
        from run c True reg ok l ok3 obtain ep s4 s5 where
            lp: "loop (serve_client E wk dw type) s3 = Some (ret, ep, s4)"
          and cl: "(case ep of Some ep \<Rightarrow> ep_close E (cs_dispatch E) dw ep True s4 | None \<Rightarrow> Some s4) = Some s5"
          and t: "t = call_void E (WorkerDestroy dw) (call_void E (ListenerDestroy (cs_listener s5)) s5)"
          by (auto simp: run_server_def init_worker_def Let_def bind_eq_Some_conv)
        have k5: "cs_within (insert (RListener ?l) ?H) s3 s5"
          by (rule serve_within [OF lp cl]) (use H' in \<open>auto simp: idle_def\<close>)
        then have l5: "cs_listener s5 = ?l" by (simp add: cs_within_def)
        have "within ?H ?s2 (call_void E (ListenerDestroy (cs_listener s5)) s5)"
          by (rule within_scope [where h = "RListener ?l", OF u(1) _ _ _ _ _ call_void_trace])
            (use H' u(2) k5 in \<open>auto simp: l5 taken_def given_def alone_def cs_within_def intro: within_trans\<close>)
        with k2' t show ?thesis by (blast intro: within_trans)
      qed
    qed
    then obtain u where u: "within ?H s1 u" "t = call_void E (WorkerDestroy dw) u" by blast
    show ?thesis
      by (rule within_scope [where h = "RWorker dw", OF call_create_trace [OF c] _ _ _ _ u(1)])
        (use True H u(2) in \<open>auto simp: taken_def given_def alone_def\<close>)
  qed
qed

section \<open>The client and the whole program\<close>

lemma run_client_within:
  assumes run: "run_client E wk addr type s = Some (ret, t)" and H: "idle wk H"
  shows "within H s t"
proof -
  let ?a = "set_sock_addr E (Some addr) s"
  obtain st ep s1 where c: "call_create E (EpCreateSock wk ?a) s = ((st, ep), s1)" by (metis surj_pair)
  show ?thesis
  proof (cases "st = UCS_OK")
    case False
    with run c have "t = s1" by (simp add: run_client_def start_client_def)
    with False c H show ?thesis by (auto simp: idle_def intro: within_call_create(2))
  next
    case True
    from run c True obtain s2 where d: "client_server_do_work E wk ep type False s1 = Some (ret, s2)"
        and cl: "ep_close E (cs_dispatch E) wk ep True s2 = Some t"
      by (auto simp: run_client_def start_client_def bind_eq_Some_conv)
    have "cs_within (insert (REp ep) H) s1 s2"
      using d idle_connected [OF H] by (rule client_server_do_work_within)
    then have "serving E H s ep s2"
      unfolding serving_def
      by (intro exI [of _ "EpCreateSock wk ?a"] exI [of _ s] exI [of _ s1]) (use c True H in \<open>simp add: idle_def\<close>)
    with serving_close [OF _ H cl] show ?thesis by (simp add: cs_within_def)
  qed
qed

lemma init_context_within:
  assumes run: "init_context E type s = (ret, ctx, wk, t)"
  shows "if ret = 0
         then \<exists>fs. trace t = trace s @ [EvCreate (UcpInit fs) UCS_OK ctx, EvCreate (WorkerCreate ctx) UCS_OK wk]
         else within {} s t"
proof -
  define fs where "fs = (if type = SEND_RECV_STREAM then [FEATURE_STREAM]
                      else if type = SEND_RECV_TAG then [FEATURE_TAG] else [FEATURE_AM])"
  obtain st h s1 where c: "call_create E (UcpInit fs) s = ((st, h), s1)" by (metis surj_pair)
  obtain st' h' s2 where w: "call_create E (WorkerCreate h) s1 = ((st', h'), s2)" by (metis surj_pair)
  note tr = call_create_trace [OF c] call_create_trace [OF w]
  show ?thesis
  proof (cases "st = UCS_OK")
    case False
    with run c have "ret = -1" "t = s1" by (simp_all add: init_context_def fs_def [symmetric])
    with False c show ?thesis by (auto intro: within_call_create(2))
  next
    case ok: True
    show ?thesis
    proof (cases "st' = UCS_OK")
      case True
      with run c w ok have "ret = 0" "t = s2" "ctx = h" "wk = h'"
        by (simp_all add: init_context_def init_worker_def fs_def [symmetric])
      with tr ok True show ?thesis by auto
    next
      case False
      with run c w ok have "ret = -1" "t = call_void E (UcpCleanup h) s2"
        by (auto simp: init_context_def init_worker_def fs_def [symmetric])
      moreover have "within {RContext h} s1 s2" using w False by (rule within_call_create(2)) simp
      ultimately show ?thesis
        using within_scope [OF tr(1) _ _ _ _ _ call_void_trace [of E "UcpCleanup h" s2], of "RContext h" "{}"] ok
        by (simp add: taken_def given_def alone_def)
    qed
  qed
qed

lemma cs_main_within:
  assumes run: "cs_main E argv s = Some (ret, t)"
  shows "within {} s t"
proof -
  let ?a = "\<lparr>arg_server_addr = None, arg_listen_addr = None, arg_type = SEND_RECV_DEFAULT\<rparr>"
  obtain r1 a s1 where p: "parse_cmd E argv ?a s = (r1, a, s1)" by (metis prod_cases3)
  have tr: "trace s1 = trace s" using p by (auto simp: parse_cmd_def cs_process_def dest: parse_opts_process)
  obtain r2 ctx wk s2 where i: "init_context E (arg_type a) s1 = (r2, ctx, wk, s2)" by (metis prod_cases4)
  note k = init_context_within [OF i]
  show ?thesis
  proof (cases "r1 = 0 \<and> r2 = 0")
    case False
    with run p i have "t = s1 \<or> r2 \<noteq> 0 \<and> t = s2" by (auto simp: cs_main_def split: if_splits)
    with k tr show ?thesis by (auto simp: within_def intro: scoped_Nil)
  next
    case True
    let ?H = "{RWorker wk, RContext ctx}"
    from run p i True obtain s3 where
        w: "(case arg_server_addr a of
               None \<Rightarrow> run_server E ctx wk (arg_listen_addr a) (arg_type a) s2
             | Some addr \<Rightarrow> run_client E wk addr (arg_type a) s2) = Some (ret, s3)"
      and t: "t = call_void E (UcpCleanup ctx) (call_void E (WorkerDestroy wk) s3)"
      by (auto simp: cs_main_def bind_eq_Some_conv)
    have body: "within ?H s2 s3"
      using w by (cases "arg_server_addr a") (auto simp: idle_def intro: run_server_within run_client_within)
    from k True obtain fs where s2: "trace s2 = trace s1 @ [EvCreate (UcpInit fs) UCS_OK ctx, EvCreate (WorkerCreate ctx) UCS_OK wk]"
      by auto
    define u where "u = emit (EvCreate (UcpInit fs) UCS_OK ctx) s1"
    have u: "trace u = trace s1 @ [EvCreate (UcpInit fs) UCS_OK ctx]"
        "trace s2 = trace u @ [EvCreate (WorkerCreate ctx) UCS_OK wk]"
      by (simp_all add: u_def s2)
    have w1: "within {RContext ctx} u (call_void E (WorkerDestroy wk) s3)"
      by (rule within_scope [OF u(2) _ _ _ _ body call_void_trace]) (simp_all add: taken_def given_def alone_def)
    have "within {} s1 (call_void E (UcpCleanup ctx) (call_void E (WorkerDestroy wk) s3))"
      by (rule within_scope [OF u(1) _ _ _ _ w1 call_void_trace]) (simp_all add: taken_def given_def alone_def)
    then have "within {} s1 t" by (simp only: t)
    with tr show ?thesis by (simp add: within_def)
  qed
qed

section \<open>Properties\<close>

text \<open>
  C2: No use after release in \<open>ucp_client_server\<close>: whatever UCX and the allocator answer, the trace of a
  run that returns follows the grammar, so the handles live in nested scopes and none is live at
  the end; and at every event the handles the call works on are live, and at most one endpoint and
  at most one request are.
\<close>

theorem cs_main_uses_live_handles:
  assumes "cs_main E argv (cs_init w) = Some (ret, t)"
  shows "scoped {} (trace t) \<and> live_after (trace t) = Some {#} \<and>
    (\<forall>before e after. trace t = before @ e # after \<longrightarrow>
       (\<exists>M. live_after before = Some M \<and> tidy M \<and> uses e \<subseteq> set_mset M))"
proof -
  have "scoped {} (trace t)"
    using cs_main_within [OF assms] by (simp add: within_def cs_init_def)
  with scoped_run [OF this] show ?thesis by (auto dest: safe_from_at)
qed

lemma two_clients_run:
  "\<exists>t. cs_main two_clients [''-c'', ''tag''] (cs_init 0) = Some (-1, t) \<and>
       EvCreate (EpCreateConn 5 7) UCS_OK 9 \<in> set (trace t)"
proof -
  have init: "u_create two_clients (UcpInit fs) w = ((UCS_OK, 5), w)" for fs w by (simp add: two_clients_def)
  have "map_option (\<lambda>(ret, t). (ret, EvCreate (EpCreateConn 5 7) UCS_OK 9 \<in> set (trace t)))
      (cs_main two_clients [''-c'', ''tag''] (cs_init 0)) = Some (-1, True)"
    by (simp add: run_server_def run_simps init two_clients_simps c_string_test_string loop_next loop_exit cong: run_congs)
  then show ?thesis by auto
qed

text \<open>The endpoint of the first of two clients is created on a live worker.\<close>

theorem cs_main_uses_live_handles_witness:
  "\<exists>t before after M. cs_main two_clients [''-c'', ''tag''] (cs_init 0) = Some (-1, t) \<and>
     trace t = before @ EvCreate (EpCreateConn 5 7) UCS_OK 9 # after \<and>
     live_after before = Some M \<and> RWorker 5 \<in># M \<and> tidy M"
proof -
  obtain t where t: "cs_main two_clients [''-c'', ''tag''] (cs_init 0) = Some (-1, t)"
      "EvCreate (EpCreateConn 5 7) UCS_OK 9 \<in> set (trace t)"
    using two_clients_run by blast
  from split_list [OF t(2)] obtain before after where
      tr: "trace t = before @ EvCreate (EpCreateConn 5 7) UCS_OK 9 # after" by blast
  with cs_main_uses_live_handles [OF t(1)] have
      "\<exists>M. live_after before = Some M \<and> tidy M \<and> uses (EvCreate (EpCreateConn 5 7) UCS_OK 9) \<subseteq> set_mset M"
    by blast
  with t(1) tr show ?thesis by (intro exI [of _ t] exI [of _ before] exI [of _ after]) auto
qed

end
