(* ===== verification/Cs_Exchange.thy ===== *)
theory Cs_Exchange
  imports Cs_Session
begin

text \<open>
  What a transfer of \<open>ucp_client_server\<close> sends, receives and prints when the library carries the
  messages: the contract of such a library, the waits over it, and the three transfers on either
  side, whether an operation is complete at once or later.
\<close>

section \<open>What a trace shows\<close>

text \<open>The lines a program prints, and the bytes of its sends.\<close>

fun lines_of :: "event \<Rightarrow> byte list list" where
  "lines_of (EvPrint l) = [l]"
| "lines_of _ = []"

fun is_send :: "ucx_call \<Rightarrow> bool" where
  "is_send (StreamSend _ _ _) = True"
| "is_send (TagSend _ _ _ _) = True"
| "is_send (AmSend _ _ _ _) = True"
| "is_send _ = False"

fun sends_of :: "event \<Rightarrow> byte option list list" where
  "sends_of (EvPost c bs r) = (if is_send c then [bs] else [])"
| "sends_of _ = []"

definition lines :: "event list \<Rightarrow> byte list list" where
  "lines tr = concat (map lines_of tr)"

definition sends :: "event list \<Rightarrow> byte option list list" where
  "sends tr = concat (map sends_of tr)"

lemma lines_simps [simp]:
  "lines [] = []" "lines (e # tr) = lines_of e @ lines tr" "lines (tr @ us) = lines tr @ lines us"
  by (simp_all add: lines_def)

lemma sends_simps [simp]:
  "sends [] = []" "sends (e # tr) = sends_of e @ sends tr" "sends (tr @ us) = sends tr @ sends us"
  by (simp_all add: sends_def)

text \<open>Calls that return nothing are neither.\<close>

lemma quiet [simp]:
  assumes "set tr \<subseteq> range EvVoid" shows "lines tr = []" "sends tr = []"
  using assms by (induction tr) auto

lemma lines_prints [simp]: "lines (map (EvPrint \<circ> str) xs) = map str xs" "sends (map (EvPrint \<circ> str) xs) = []"
  by (induction xs) simp_all

section \<open>A library that carries messages\<close>

text \<open>What a receive that completes writes, and the context a transfer is posted with.\<close>

fun writes :: "ucx_call \<Rightarrow> byte list \<Rightarrow> dma list" where
  "writes (StreamRecv ep msg all ctx) data = scatter msg data"
| "writes (TagRecv wk msg tag tag_mask ctx) data = scatter msg data"
| "writes (AmRecvData wk desc msg ctx fl) data = scatter msg data"
| "writes _ data = []"

fun context_of :: "ucx_call \<Rightarrow> nat option" where
  "context_of (StreamSend ep msg ctx) = ctx"
| "context_of (StreamRecv ep msg all ctx) = ctx"
| "context_of (TagSend ep msg tag ctx) = ctx"
| "context_of (TagRecv wk msg tag tag_mask ctx) = ctx"
| "context_of (AmSend ep i msg ctx) = ctx"
| "context_of (AmRecvData wk desc msg ctx fl) = ctx"
| "context_of _ = None"

definition completion :: "nat \<Rightarrow> cs_upcall \<Rightarrow> bool" where
  "completion ctx u \<longleftrightarrow>
     u \<in> {UpSendCb (Some ctx) UCS_OK, UpTagRecvCb (Some ctx) UCS_OK, UpStreamRecvCb (Some ctx) UCS_OK,
          UpAmRecvCb (Some ctx) UCS_OK}"

text \<open>The two ways an active message with \<open>data\<close> may come.\<close>

definition brings :: "byte list \<Rightarrow> am_data \<Rightarrow> bool" where
  "brings data msg \<longleftrightarrow> msg = AmEager data \<or> (\<exists>desc. msg = AmRndv desc (of_nat (length data)))"

fun is_err :: "cs_upcall \<Rightarrow> bool" where
  "is_err (UpErrCb st) = True"
| "is_err _ = False"

text \<open>
  \<open>carries E wk lib data\<close> is what a session needs of the library. \<open>lib\<close> is what the library has to do:
  the transfer that is under way (its context and what is still to be written), and the number of
  active messages that have yet to come. There is memory, and the handler of active messages can be
  set. A transfer is complete when it is posted, or is under way until a later progress call writes
  what it receives and then calls back; with \<open>NO_IMM_CMPL\<close> no call returns \<open>NULL\<close>, and one that is complete
  when it is posted has called back before it returned. A progress call brings at most one active message, and none
  while a transfer is under way. Whatever is to be done is done after finitely many progress
  calls. Everything received is \<open>data\<close>. The error handler may be called at any time.
\<close>

type_synonym duties = "(nat \<times> dma list) option \<times> nat"

definition next_world :: "('w, 'u, 'e) env_scheme \<Rightarrow> nat \<Rightarrow> 'w \<Rightarrow> 'w" where
  "next_world E wk w = snd (u_progress E wk w)"

definition posted_as :: "('w, cs_upcall, 'e) env_scheme \<Rightarrow> ucx_call \<Rightarrow> nat \<Rightarrow> dma list \<Rightarrow> nat \<Rightarrow> ('w \<Rightarrow> duties) \<Rightarrow>
    req \<Rightarrow> dma list \<Rightarrow> 'w \<Rightarrow> bool" where
  "posted_as E c ctx wr m lib r ds w \<longleftrightarrow>
     (if NO_IMM_CMPL \<notin> set (flags_of c) \<and> r = ReqNull then ds = wr \<and> lib w = (None, m)
      else \<exists>q. r = ReqPtr q \<and> ds = [] \<and>
        (if early E c q w = [] then lib w = (Some (ctx, wr), m)
         else lib w = (None, m) \<and> (\<exists>u. completion ctx u \<and> early E c q w = map UpWrite wr @ [u])))"

definition carries :: "('w, cs_upcall, 'e) env_scheme \<Rightarrow> nat \<Rightarrow> ('w \<Rightarrow> duties) \<Rightarrow> byte list \<Rightarrow> bool" where
  "carries E wk lib data \<longleftrightarrow>
     (\<forall>n w. fst (alloc_ok E n w) \<and> lib (snd (alloc_ok E n w)) = lib w) \<and>
     (\<forall>c w. lib (u_void E c w) = lib w) \<and>
     (\<forall>i w. fst (u_status E (SetAmHandler wk i) w) = UCS_OK \<and> lib (snd (u_status E (SetAmHandler wk i) w)) = lib w) \<and>
     (\<forall>c bs ctx m w. context_of c = Some ctx \<longrightarrow> lib w = (None, m) \<longrightarrow>
        (case u_post E c bs w of ((r, ds), w') \<Rightarrow>
           posted_as E c ctx (writes c data) m lib r ds w')) \<and>
     (\<forall>w. case u_progress E wk w of ((n, us), w') \<Rightarrow>
        filter (\<lambda>u. \<not> is_err u) us = [] \<and> lib w' = lib w \<or>
        (\<exists>ctx ds m u. lib w = (Some (ctx, ds), m) \<and> lib w' = (None, m) \<and> completion ctx u \<and>
           filter (\<lambda>u. \<not> is_err u) us = map UpWrite ds @ [u]) \<or>
        (\<exists>m hl msg. lib w = (None, Suc m) \<and> lib w' = (None, m) \<and> brings data msg \<and>
           filter (\<lambda>u. \<not> is_err u) us = [UpAmData hl msg])) \<and>
     (\<forall>q m w. lib w = (None, m) \<longrightarrow> u_check E q w = UCS_OK) \<and>
     (\<forall>w. lib w \<noteq> (None, 0) \<longrightarrow> (\<exists>n. lib ((next_world E wk ^^ n) w) \<noteq> lib w))"

text \<open>A library whose error handler is called sooner or later: the peer closes the connection.\<close>

definition closes :: "('w, cs_upcall, 'e) env_scheme \<Rightarrow> nat \<Rightarrow> bool" where
  "closes E wk \<longleftrightarrow> (\<forall>w. \<exists>n. \<exists>u \<in> set (snd (fst (u_progress E wk ((next_world E wk ^^ n) w)))). is_err u)"

lemma carries_alloc: "carries E wk lib data \<Longrightarrow> fst (alloc_ok E n w)"
    "carries E wk lib data \<Longrightarrow> lib (snd (alloc_ok E n w)) = lib w"
  by (simp_all add: carries_def)

lemma carries_void: "carries E wk lib data \<Longrightarrow> lib (u_void E c w) = lib w"
  by (simp add: carries_def)

lemma carries_handler: "carries E wk lib data \<Longrightarrow> fst (u_status E (SetAmHandler wk i) w) = UCS_OK"
    "carries E wk lib data \<Longrightarrow> lib (snd (u_status E (SetAmHandler wk i) w)) = lib w"
  by (simp_all add: carries_def)

lemma carries_check: "carries E wk lib data \<Longrightarrow> lib w = (None, m) \<Longrightarrow> u_check E q w = UCS_OK"
  by (simp add: carries_def)

lemma carries_live: "carries E wk lib data \<Longrightarrow> lib w \<noteq> (None, 0) \<Longrightarrow> \<exists>n. lib ((next_world E wk ^^ n) w) \<noteq> lib w"
  by (simp add: carries_def)

lemma carries_post:
  assumes "carries E wk lib data" "context_of c = Some ctx" "lib w = (None, m)"
    and "u_post E c bs w = ((r, ds), w')"
  obtains (now) "r = ReqNull" "ds = writes c data" "lib w' = (None, m)"
  | (later) q where "r = ReqPtr q" "ds = []" "lib w' = (Some (ctx, writes c data), m)" "early E c q w' = []"
  | (called) q u where "r = ReqPtr q" "ds = []" "lib w' = (None, m)" "completion ctx u"
      "early E c q w' = map UpWrite (writes c data) @ [u]"
proof -
  have "case u_post E c bs w of ((r, ds), w') \<Rightarrow> posted_as E c ctx (writes c data) m lib r ds w'"
    by (rule assms(1) [unfolded carries_def, THEN conjunct2, THEN conjunct2, THEN conjunct2, THEN conjunct1,
          rule_format, OF assms(2,3)])
  with assms(4) now later called show thesis by (auto simp: posted_as_def split: if_splits)
qed

lemma carries_progress:
  assumes "carries E wk lib data" "u_progress E wk w = ((n, us), w')"
  obtains (idle) "filter (\<lambda>u. \<not> is_err u) us = []" "lib w' = lib w"
  | (reported) ctx ds m u where "lib w = (Some (ctx, ds), m)" "lib w' = (None, m)" "completion ctx u"
      "filter (\<lambda>u. \<not> is_err u) us = map UpWrite ds @ [u]"
  | (brought) m hl msg where "lib w = (None, Suc m)" "lib w' = (None, m)" "brings data msg"
      "filter (\<lambda>u. \<not> is_err u) us = [UpAmData hl msg]"
proof -
  have "case u_progress E wk w of ((n, us), w') \<Rightarrow>
        filter (\<lambda>u. \<not> is_err u) us = [] \<and> lib w' = lib w \<or>
        (\<exists>ctx ds m u. lib w = (Some (ctx, ds), m) \<and> lib w' = (None, m) \<and> completion ctx u \<and>
           filter (\<lambda>u. \<not> is_err u) us = map UpWrite ds @ [u]) \<or>
        (\<exists>m hl msg. lib w = (None, Suc m) \<and> lib w' = (None, m) \<and> brings data msg \<and>
           filter (\<lambda>u. \<not> is_err u) us = [UpAmData hl msg])"
    by (rule assms(1) [unfolded carries_def, THEN conjunct2, THEN conjunct2, THEN conjunct2, THEN conjunct2,
          THEN conjunct1, rule_format])
  with assms(2) idle reported brought show thesis by auto
qed

section \<open>Progress and waits\<close>

text \<open>Calls of the error handler between the other callbacks only set \<open>connection_closed\<close>.\<close>

lemma memory_connection [simp]:
  "fault f (s\<lparr>connection_closed := c\<rparr>) = (fault f s)\<lparr>connection_closed := c\<rparr>"
  "store p off xs (s\<lparr>connection_closed := c\<rparr>) = (store p off xs s)\<lparr>connection_closed := c\<rparr>"
  "apply_dma d (s\<lparr>connection_closed := c\<rparr>) = (apply_dma d s)\<lparr>connection_closed := c\<rparr>"
  by (simp_all add: apply_dma_def store_def fault_def split: option.split prod.split)

lemma copy_data_connection [simp]:
  "copy_data vs data off (s\<lparr>connection_closed := c\<rparr>) = (copy_data vs data off s)\<lparr>connection_closed := c\<rparr>"
  by (induction vs arbitrary: off s) (simp_all add: Let_def split: mem_type.split)

lemma call_status_connection:
  "call_status E k (s\<lparr>connection_closed := c\<rparr>) = (fst (call_status E k s), (snd (call_status E k s))\<lparr>connection_closed := c\<rparr>)"
  by (simp add: call_status_def emit_def split: prod.split)

lemma am_data_cb_connection:
  "snd (ucp_am_data_cb hl msg (s\<lparr>connection_closed := c\<rparr>)) = (snd (ucp_am_data_cb hl msg s))\<lparr>connection_closed := c\<rparr>"
proof -
  have upd: "s\<lparr>connection_closed := c, am_complete := a, am_is_rndv := r\<rparr> = (s\<lparr>am_complete := a, am_is_rndv := r\<rparr>)\<lparr>connection_closed := c\<rparr>" for a r
    by simp
  show ?thesis
    by (simp add: ucp_am_data_cb_def Let_def upd split: am_data.split option.split)
qed

lemma dispatch_connection:
  "\<not> is_err u \<Longrightarrow> cs_dispatch E u (s\<lparr>connection_closed := c\<rparr>) = (cs_dispatch E u s)\<lparr>connection_closed := c\<rparr>"
  by (cases u)
    (simp_all add: send_cb_def tag_recv_cb_def stream_recv_cb_def am_recv_cb_def common_cb_def
      server_conn_handle_cb_def call_status_connection am_data_cb_connection Let_def split_beta split: option.split)

lemma dispatch_errors:
  "\<exists>cc. fold (cs_dispatch E) us s = (fold (cs_dispatch E) (filter (\<lambda>u. \<not> is_err u) us) s)\<lparr>connection_closed := cc\<rparr>"
proof (induction us arbitrary: s)
  case Nil
  show ?case by (rule exI [of _ "connection_closed s"]) simp
next
  case (Cons u us)
  have fold: "fold (cs_dispatch E) vs (s\<lparr>connection_closed := c\<rparr>) = (fold (cs_dispatch E) vs s)\<lparr>connection_closed := c\<rparr>"
    if "\<forall>u\<in>set vs. \<not> is_err u" for vs c and s :: "'a cs"
    using that by (induction vs arbitrary: s) (simp_all add: dispatch_connection)
  show ?case
  proof (cases "is_err u")
    case True
    then obtain st where "u = UpErrCb st" by (cases u) auto
    with Cons [of "s\<lparr>connection_closed := 1\<rparr>"] show ?thesis by (auto simp: err_cb_def fold)
  qed (use Cons in simp)
qed

lemma fold_errors: "filter (\<lambda>u. \<not> is_err u) us = [] \<Longrightarrow>
    fold (cs_dispatch E) us s = s\<lparr>connection_closed := if us = [] then connection_closed s else 1\<rparr>"
proof (induction us arbitrary: s)
  case (Cons u us)
  then show ?case by (cases u) (auto simp: err_cb_def split: if_splits)
qed simp

lemma completion_dispatch: "completion ctx u \<Longrightarrow> cs_dispatch E u s = common_cb (Some ctx) s"
  by (auto simp: completion_def send_cb_def tag_recv_cb_def stream_recv_cb_def am_recv_cb_def)

lemma fold_dispatch_writes: "fold (cs_dispatch E) (map UpWrite ds) s = fold apply_dma ds s"
  by (induction ds arbitrary: s) simp_all

text \<open>One progress call: nothing happens, or what is under way is finished, or a message comes.\<close>

lemma progress_carries:
  fixes s :: "'w cs" and wk :: nat
  assumes E: "carries E wk lib data"
  defines "w \<equiv> next_world E wk (world s)"
    and "s1 \<equiv> s\<lparr>world := next_world E wk (world s), trace := trace s @ [EvVoid (WorkerProgress wk)]\<rparr>"
  obtains (quietly) cc where "lib w = lib (world s)" "cs_progress E wk s = s1\<lparr>connection_closed := cc\<rparr>"
    "cc = (if snd (fst (u_progress E wk (world s))) = [] then connection_closed s else 1)"
  | (completed) cc ctx ds m where "lib (world s) = (Some (ctx, ds), m)" "lib w = (None, m)"
    "cs_progress E wk s = (common_cb (Some ctx) (fold apply_dma ds s1))\<lparr>connection_closed := cc\<rparr>"
  | (came) cc m hl msg where "lib (world s) = (None, Suc m)" "lib w = (None, m)" "brings data msg"
    "cs_progress E wk s = (snd (ucp_am_data_cb hl msg s1))\<lparr>connection_closed := cc\<rparr>"
proof -
  obtain n us where p: "u_progress E wk (world s) = ((n, us), w)" by (metis surj_pair next_world_def w_def snd_conv)
  have t: "cs_progress E wk s = fold (cs_dispatch E) us s1"
    using p by (simp add: ucp_worker_progress_def s1_def emit_def next_world_def)
  obtain cc where cc: "fold (cs_dispatch E) us s1 =
      (fold (cs_dispatch E) (filter (\<lambda>u. \<not> is_err u) us) s1)\<lparr>connection_closed := cc\<rparr>"
    using dispatch_errors [of E us s1] by blast
  show thesis
    using E p
  proof (cases rule: carries_progress)
    case idle
    with fold_errors [OF idle(1), of E s1] t that(1) p show ?thesis by (simp add: s1_def)
  next
    case (reported ctx ds m u)
    with t cc that(2) show ?thesis by (simp add: fold_dispatch_writes completion_dispatch)
  next
    case (brought m hl msg)
    with t cc that(3) show ?thesis by simp
  qed
qed

text \<open>
  A wait: as long as \<open>Q\<close> holds it goes on; when the library comes to a world with \<open>X\<close>, the next
  progress call, if not an earlier one, brings about \<open>R\<close>, which ends the wait.
\<close>

lemma wait_ends:
  fixes E :: "('w, cs_upcall, 'e) env_scheme" and s :: "'w cs"
  assumes step: "\<And>u. Q u \<Longrightarrow> R (cs_progress E wk u) \<or>
      Q (cs_progress E wk u) \<and> world (cs_progress E wk u) = next_world E wk (world u)"
    and fin: "\<And>u. Q u \<Longrightarrow> X (world u) \<Longrightarrow> R (cs_progress E wk u)"
    and b: "\<And>u. Q u \<Longrightarrow> b u" "\<And>u. R u \<Longrightarrow> \<not> b u"
  shows "X ((next_world E wk ^^ n) (world s)) \<Longrightarrow> Q s \<Longrightarrow>
    \<exists>t. while_option b (cs_progress E wk) s = Some t \<and> R t"
proof (induction n arbitrary: s)
  case 0
  then have "R (cs_progress E wk s)" by (simp add: fin)
  with 0 b show ?case by (simp add: while_option_unfold)
next
  case (Suc n)
  note unf = while_option_unfold [of b "cs_progress E wk" s]
  from step [OF Suc.prems(2)] show ?case
  proof
    assume "R (cs_progress E wk s)"
    with Suc.prems(2) b unf show ?thesis by (simp add: while_option_unfold)
  next
    assume "Q (cs_progress E wk s) \<and> world (cs_progress E wk s) = next_world E wk (world s)"
    with Suc.IH [of "cs_progress E wk s"] Suc.prems b(1) unf show ?thesis
      by (simp add: funpow_Suc_right del: funpow.simps)
  qed
qed

lemma wait_carries:
  fixes s :: "'w cs"
  assumes E: "carries E wk lib data" and l: "l \<noteq> (None, 0)" "\<And>u. Q u \<Longrightarrow> lib (world u) = l"
    and step: "\<And>u. Q u \<Longrightarrow> R (cs_progress E wk u) \<or>
      Q (cs_progress E wk u) \<and> world (cs_progress E wk u) = next_world E wk (world u)"
    and b: "\<And>u. Q u \<Longrightarrow> b u" "\<And>u. R u \<Longrightarrow> \<not> b u" and start: "Q s"
  shows "\<exists>t. while_option b (cs_progress E wk) s = Some t \<and> R t"
proof -
  obtain n where "lib ((next_world E wk ^^ n) (world s)) \<noteq> l"
    using carries_live [OF E, of "world s"] l start by auto
  then show ?thesis
    using step b start by (intro wait_ends [where X = "\<lambda>w. lib w \<noteq> l" and Q = Q]) (auto simp: l(2))
qed

text \<open>
  The states of a wait that began in \<open>s\<close>: what is quietly reached, \<open>d\<close> being the duties of the
  library.
\<close>

definition quiet_from :: "('w \<Rightarrow> duties) \<Rightarrow> duties \<Rightarrow> 'w cs \<Rightarrow> 'w cs \<Rightarrow> bool" where
  "quiet_from lib d s u \<longleftrightarrow> (\<exists>w tr cc. set tr \<subseteq> range EvVoid \<and> lib w = d \<and>
      u = s\<lparr>world := w, trace := trace s @ tr, connection_closed := cc\<rparr>)"

lemma quiet_fromI:
  "set tr \<subseteq> range EvVoid \<Longrightarrow> lib w = d \<Longrightarrow> u = s\<lparr>world := w, trace := trace s @ tr, connection_closed := cc\<rparr> \<Longrightarrow>
   quiet_from lib d s u"
  by (auto simp: quiet_from_def)

lemma quiet_from_refl: "quiet_from lib (lib (world s)) s s"
  by (rule quiet_fromI [where tr = "[]" and w = "world s" and cc = "connection_closed s"]) simp_all

lemma quiet_fromD:
  assumes "quiet_from lib d s u"
  shows "lib (world u) = d" "heap u = heap s" "frames u = frames s" "am_last u = am_last s" "am_complete u = am_complete s"
    "am_recv_buf u = am_recv_buf s" "test_mem_type u = test_mem_type s" "iov_cnt u = iov_cnt s"
    "test_string_length u = test_string_length s" "faults u = faults s"
    "sends (trace u) = sends (trace s)" "lines (trace u) = lines (trace s)" "am_is_rndv u = am_is_rndv s"
    "printed i u = printed i s"
  using assms by (auto simp: quiet_from_def printed_def)

lemma quiet_from_progress:
  assumes u: "quiet_from lib d s u"
  shows "quiet_from lib (lib w) s (u\<lparr>world := w, trace := trace u @ [EvVoid c], connection_closed := cc\<rparr>)"
proof -
  obtain w' tr cc' where "set tr \<subseteq> range EvVoid" "u = s\<lparr>world := w', trace := trace s @ tr, connection_closed := cc'\<rparr>"
    using u by (auto simp: quiet_from_def)
  then show ?thesis by (intro quiet_fromI [where tr = "tr @ [EvVoid c]" and w = w and cc = cc]) simp_all
qed

text \<open>A wait for a transfer that is under way ends, and the transfer is written and successful.\<close>

lemma fold_apply_dma_frames [simp]: "frames (fold apply_dma ds s) = frames s"
proof (induction ds arbitrary: s)
  case (Cons d ds)
  have "frames (apply_dma d s) = frames s"
    by (cases d) (simp add: apply_dma_def store_def split: option.split)
  with Cons show ?case by simp
qed simp

lemma request_wait_done:
  fixes s :: "'w cs"
  assumes E: "carries E wk lib data" and w: "while_option (\<lambda>s. ctx_complete ctx s = 0) (cs_progress E wk) s = Some s1"
    and s1: "quiet_from lib (None, m) u s1"
  shows "\<exists>t. request_wait E wk (ReqPtr q) ctx s = Some (UCS_OK, t) \<and> quiet_from lib (None, m) u t"
proof -
  have "quiet_from lib (None, m) u (call_void E (ReqFree q) s1)"
    using s1 carries_void [OF E] quiet_from_progress [OF s1, of "u_void E (ReqFree q) (world s1)" "connection_closed s1" "ReqFree q"]
    by (simp add: call_void_def emit_def quiet_fromD)
  with w carries_check [OF E, of "world s1" m q] quiet_fromD(1) [OF s1] show ?thesis
    by (simp add: request_wait_def ucp_request_check_status_def)
qed

lemma request_wait_carries:
  fixes s :: "'w cs"
  assumes E: "carries E wk lib data"
    and pend: "lib (world s) = (Some (ctx, ds), m)" and fr: "frames s ctx = Some \<lparr>fr_iov = iov, fr_complete = 0\<rparr>"
    and wr: "\<And>u :: 'w cs. heap u = heap s \<Longrightarrow> fold apply_dma ds u = u\<lparr>heap := h\<rparr>"
  shows "\<exists>t. request_wait E wk (ReqPtr q) ctx s = Some (UCS_OK, t) \<and>
    quiet_from lib (None, m) (s\<lparr>heap := h, frames := (frames s)(ctx \<mapsto> \<lparr>fr_iov = iov, fr_complete = 1\<rparr>)\<rparr>) t"
proof -
  let ?b = "\<lambda>s. ctx_complete ctx s = 0" and ?c = "cs_progress E wk"
  let ?s = "s\<lparr>heap := h, frames := (frames s)(ctx \<mapsto> \<lparr>fr_iov = iov, fr_complete = 1\<rparr>)\<rparr>"
  let ?Q = "quiet_from lib (Some (ctx, ds), m) s" and ?R = "quiet_from lib (None, m) ?s"
  have step: "?R (?c u) \<or> ?Q (?c u) \<and> world (?c u) = next_world E wk (world u)" if u: "?Q u" for u
    using E
  proof (cases rule: progress_carries [where s = u and wk = wk])
    case (quietly cc)
    with quiet_from_progress [OF u, of "next_world E wk (world u)" cc "WorkerProgress wk"] quiet_fromD(1) [OF u]
    show ?thesis by simp
  next
    case (completed cc ctx' ds' m')
    have d: "ctx' = ctx" "ds' = ds" "m' = m" using completed(1) quiet_fromD(1) [OF u] by simp_all
    let ?w = "next_world E wk (world u)" and ?e = "EvVoid (WorkerProgress wk)"
    obtain w tr cc0 where k: "set tr \<subseteq> range EvVoid" "u = s\<lparr>world := w, trace := trace s @ tr, connection_closed := cc0\<rparr>"
      using u by (auto simp: quiet_from_def)
    have "?R (u\<lparr>world := ?w, trace := trace u @ [?e], connection_closed := cc, heap := h,
        frames := (frames s)(ctx \<mapsto> \<lparr>fr_iov = iov, fr_complete = 1\<rparr>)\<rparr>)"
      by (rule quiet_fromI [where tr = "tr @ [?e]" and w = ?w and cc = cc]) (use k completed(2) d(3) in simp_all)
    moreover have "?c u = u\<lparr>world := ?w, trace := trace u @ [?e], connection_closed := cc, heap := h,
        frames := (frames s)(ctx \<mapsto> \<lparr>fr_iov = iov, fr_complete = 1\<rparr>)\<rparr>"
      unfolding completed(3) d using quiet_fromD [OF u] fr by (simp add: wr common_cb_def)
    ultimately show ?thesis by simp
  qed (use quiet_fromD(1) [OF u] in simp)
  have b: "?b u" if "?Q u" for u using quiet_fromD(3) [OF that] fr by (simp add: ctx_complete_def)
  have b': "\<not> ?b u" if "?R u" for u using quiet_fromD(3) [OF that] by (simp add: ctx_complete_def)
  have "?Q s" using quiet_from_refl [of lib s] pend by simp
  then have "\<exists>t. while_option ?b ?c s = Some t \<and> ?R t"
    by (intro wait_carries [OF E, where Q = ?Q and l = "(Some (ctx, ds), m)"])
      (simp, erule quiet_fromD(1), erule step, erule b, erule b', assumption)
  then show ?thesis using request_wait_done [OF E] by blast
qed

text \<open>The same for a transfer from its post on, whether it is complete at once or not: it succeeds.\<close>

lemma post_wait_carries:
  fixes s :: "'w cs"
  assumes E: "carries E wk lib data" and idle: "lib (world s) = (None, m)"
    and post: "call_post_cb E (cs_dispatch E) c bs s = (r, s1)" and ctx: "context_of c = Some ctx"
    and fr: "frames s ctx = Some \<lparr>fr_iov = iov, fr_complete = 0\<rparr>"
    and wr: "\<And>u :: 'w cs. heap u = heap s \<Longrightarrow> fold apply_dma (writes c data) u = u\<lparr>heap := h\<rparr>"
  shows "\<exists>t fc. request_wait E wk r ctx s1 = Some (UCS_OK, t) \<and>
    quiet_from lib (None, m) (s\<lparr>trace := trace s @ [EvPost c bs r], heap := h,
       frames := (frames s)(ctx \<mapsto> \<lparr>fr_iov = iov, fr_complete = fc\<rparr>)\<rparr>) t"
proof -
  obtain ds w where u: "u_post E c bs (world s) = ((r, ds), w)"
    using post by (auto simp: call_post_cb_def call_post_def split: prod.splits)
  let ?s = "s\<lparr>world := w, trace := trace s @ [EvPost c bs r]\<rparr>"
  let ?G = "\<lambda>fc. s\<lparr>trace := trace s @ [EvPost c bs r], heap := h,
       frames := (frames s)(ctx \<mapsto> \<lparr>fr_iov = iov, fr_complete = fc\<rparr>)\<rparr>"
  have keep: "(frames s)(ctx \<mapsto> \<lparr>fr_iov = iov, fr_complete = 0\<rparr>) = frames s" using fr by auto
  show ?thesis
    using E ctx idle u
  proof (cases rule: carries_post)
    case now
    then have "s1 = ?s\<lparr>heap := h\<rparr>"
      using post u wr [of "s\<lparr>world := w\<rparr>"] by (auto simp: call_post_cb_def call_post_def emit_def)
    then have "quiet_from lib (None, m) (?G 0) s1"
      using keep by (intro quiet_fromI [where tr = "[]" and w = w and cc = "connection_closed s"]) (use now in simp_all)
    with now show ?thesis by (auto simp: request_wait_def)
  next
    case (later q)
    have s1: "s1 = ?s" using post u later by (auto simp: call_post_cb_def call_post_def emit_def)
    have p1: "lib (world s1) = (Some (ctx, writes c data), m)" "frames s1 ctx = Some \<lparr>fr_iov = iov, fr_complete = 0\<rparr>"
      using later fr by (simp_all add: s1)
    obtain t where t: "request_wait E wk (ReqPtr q) ctx s1 = Some (UCS_OK, t)"
      "quiet_from lib (None, m) (s1\<lparr>heap := h, frames := (frames s1)(ctx \<mapsto> \<lparr>fr_iov = iov, fr_complete = 1\<rparr>)\<rparr>) t"
      using request_wait_carries [OF E p1, of h q] wr by (auto simp: s1)
    then have "quiet_from lib (None, m) (?G 1) t" by (simp add: quiet_from_def s1)
    with t(1) later(1) show ?thesis by blast
  next
    case (called q u)
    have "s1 = ?s\<lparr>heap := h, frames := (frames s)(ctx \<mapsto> \<lparr>fr_iov = iov, fr_complete = 1\<rparr>)\<rparr>"
      using post \<open>u_post E c bs (world s) = ((r, ds), w)\<close> called wr [of ?s] fr
      by (auto simp: call_post_cb_def call_post_def emit_def fold_dispatch_writes completion_dispatch common_cb_def)
    then have s1: "quiet_from lib (None, m) (?G 1) s1" "ctx_complete ctx s1 = 1"
      using called(3) by (auto simp: ctx_complete_def intro: quiet_fromI [where tr = "[]" and w = w and cc = "connection_closed s"])
    then have "while_option (\<lambda>s. ctx_complete ctx s = 0) (cs_progress E wk) s1 = Some s1"
      by (simp add: while_option_unfold)
    with request_wait_done [OF E this s1(1)] called(1) show ?thesis by blast
  qed
qed

section \<open>What the preparation of a transfer does to the library\<close>

text \<open>
  Only the allocator is called. \<open>g\<close> is any part of the world the allocator leaves alone.
\<close>

lemma malloc_world: "world (snd (malloc E n s)) = snd (alloc_ok E (unat n) (world s))"
  by (simp add: malloc_def new_block_def Let_def split: prod.split)

lemma calloc_world:
  assumes "\<And>n w. g (snd (alloc_ok E n w)) = g w"
  shows "g (world (snd (calloc E k n s))) = g (world s)"
  using assms [of "unat k * unat n" "world s"] by (auto simp: calloc_def new_block_def Let_def split: prod.split)

lemma mem_type_malloc_world:
  assumes "\<And>n w. g (snd (alloc_ok E n w)) = g w"
  shows "g (world (snd (mem_type_malloc E n s))) = g (world s)"
  using assms by (simp add: mem_type_malloc_def malloc_world split: mem_type.split)

lemma mem_type_free_world [simp]: "world (mem_type_free p s) = world s"
  by (simp add: mem_type_free_def c_free_def split: mem_type.split option.split)

lemma buffer_free_world [simp]: "world (buffer_free vs s) = world s"
  by (induction vs arbitrary: s) simp_all

lemma fill_letters_world [simp]: "world (fill_letters p i n s) = world s"
  by (induction p i n s rule: fill_letters.induct) (subst fill_letters.simps, simp)

lemma mem_type_memcpy_world [simp]: "world (mem_type_memcpy dst d src o' n s) = world s"
  by (simp add: mem_type_memcpy_def memcpy_def split: mem_type.split option.split)

lemma c_free_world [simp]: "world (c_free p s) = world s"
  by (simp add: c_free_def split: option.split)

lemma generate_test_string_world:
  assumes "\<And>n w. g (snd (alloc_ok E n w)) = g w"
  shows "g (world (snd (generate_test_string E p off n s))) = g (world s)"
  using calloc_world [of g E 1 "scast n" s] assms
  by (auto simp: generate_test_string_def Let_def split: prod.splits)

lemma buffer_malloc_from_world:
  assumes "\<And>n w. g (snd (alloc_ok E n w)) = g w"
  shows "g (world (snd (snd (buffer_malloc_from E before vs s)))) = g (world s)"
proof (induction vs arbitrary: before s)
  case (Cons v vs)
  show ?case
    using Cons mem_type_malloc_world [of g E "test_string_length s" s] assms
    by (auto simp: Let_def split: prod.splits)
qed simp

lemma fill_buffer_world:
  assumes "\<And>n w. g (snd (alloc_ok E n w)) = g w"
  shows "g (world (snd (fill_buffer E vs s))) = g (world s)"
proof (induction vs arbitrary: s)
  case (Cons v vs)
  show ?case
    using Cons generate_test_string_world [of g E "iov_buffer v" 0 "ucast (iov_length v)" s] assms
    by (auto split: prod.splits)
qed simp

lemma fill_request_param_world:
  assumes g: "\<And>n w. g (snd (alloc_ok E n w)) = g w"
  shows "g (world (snd (fill_request_param E iov c ctx s))) = g (world s)"
proof -
  obtain r iov1 s1 where m: "buffer_malloc E iov s = (r, iov1, s1)" by (metis prod_cases3)
  have "g (world s1) = g (world s)" using buffer_malloc_from_world [of g E "[]" iov s] g m by (simp add: buffer_malloc_def)
  with fill_buffer_world [of g E iov1 s1] g m show ?thesis
    by (auto simp: fill_request_param_def split: prod.splits)
qed

section \<open>One transfer\<close>

text \<open>The message of a session: the test string once for each buffer.\<close>

definition message :: "nat \<Rightarrow> nat \<Rightarrow> byte list" where
  "message k n = concat (replicate k (test_string n))"

lemma length_message [simp]: "length (message k n) = k * n"
  by (simp add: message_def length_concat sum_list_replicate)

lemma message_part: "j < k \<Longrightarrow> take n (drop (j * n) (message k n)) = test_string n"
proof -
  assume "j < k"
  then have "replicate k (test_string n) = replicate j (test_string n) @ test_string n # replicate (k - Suc j) (test_string n)"
    by (metis Suc_diff_Suc replicate_Suc replicate_add add_diff_inverse_nat less_imp_not_less)
  then have "message k n = message j n @ test_string n @ message (k - Suc j) n"
    by (simp add: message_def)
  then show ?thesis by simp
qed

text \<open>A request whose wait succeeds is finished like one that was complete at once.\<close>

lemma request_finalize_wait:
  "request_wait E wk r ctx s = Some (UCS_OK, t) \<Longrightarrow>
   request_finalize E wk r ctx is_server iov i s = request_finalize E wk ReqNull ctx is_server iov i t"
  by (simp add: request_finalize_def request_wait_def)

text \<open>The end of a transfer whose buffers hold the message.\<close>

lemma finalize_message:
  assumes h: "holds_bytes b k (\<lambda>_. test_string n) s" and host: "test_mem_type s = MEM_HOST"
    and n: "unat (test_string_length s) = n" "0 < n" and b: "0 < b"
  shows "\<exists>t. request_finalize E wk ReqNull ctx is_server (fresh_iov b k len) i s = Some (0, t) \<and>
    world t = world s \<and> faults t = faults s \<and> am_last t = am_last s \<and> am_complete t = am_complete s \<and>
    sends (trace t) = sends (trace s) \<and>
    lines (trace t) = lines (trace s) @ (if printed i s then replicate k (map letter [0..<n - 1]) else [])"
proof -
  have "\<forall>i<k. length (test_string n) = n \<and> c_string (map Some (test_string n)) = Some (map letter [0..<n - 1])"
    using n(2) by (simp add: c_string_test_string)
  then obtain t where "request_finalize E wk ReqNull ctx is_server (fresh_iov b k len) i s = Some (0, t)"
      "trace t = trace s @ (if printed i s then map (EvPrint \<circ> (\<lambda>_. map letter [0..<n - 1])) [0..<k] else [])"
      "faults t = faults s" "world t = world s" "am_last t = am_last s" "am_complete t = am_complete s"
    using request_finalize_null [OF h host n(1) _ b, of "\<lambda>_. map letter [0..<n - 1]" E wk ctx is_server len i] by auto
  then show ?thesis by (auto simp: map_replicate_const)
qed

text \<open>From the post to the end of the transfer: \<open>h\<close> is the heap with what has been received.\<close>

lemma post_finalize_carries:
  fixes s :: "'w cs"
  assumes E: "carries E wk lib data" and idle: "lib (world s) = (None, m)"
    and ctx: "context_of c = Some ctx" and fr: "frames s ctx = Some \<lparr>fr_iov = iov, fr_complete = 0\<rparr>"
    and wr: "\<And>u :: 'w cs. heap u = heap s \<Longrightarrow> fold apply_dma (writes c data) u = u\<lparr>heap := h\<rparr>"
    and host: "test_mem_type s = MEM_HOST" and n: "unat (test_string_length s) = n" "0 < n" and b: "0 < b"
    and h: "holds_bytes b k (\<lambda>_. test_string n) (s\<lparr>heap := h\<rparr>)"
  shows "\<exists>r s1 t. call_post_cb E (cs_dispatch E) c bs s = (r, s1) \<and>
    request_finalize E wk r ctx is_server (fresh_iov b k len) i s1 = Some (0, t) \<and>
    lib (world t) = (None, m) \<and> faults t = faults s \<and> am_last t = am_last s \<and> am_complete t = am_complete s \<and>
    sends (trace t) = sends (trace s) @ (if is_send c then [bs] else []) \<and>
    lines (trace t) = lines (trace s) @ (if printed i s then replicate k (map letter [0..<n - 1]) else [])"
proof -
  obtain r s1 where post: "call_post_cb E (cs_dispatch E) c bs s = (r, s1)" by fastforce
  obtain t1 fc where wait: "request_wait E wk r ctx s1 = Some (UCS_OK, t1)"
    and t1: "quiet_from lib (None, m) (s\<lparr>trace := trace s @ [EvPost c bs r], heap := h,
       frames := (frames s)(ctx \<mapsto> \<lparr>fr_iov = iov, fr_complete = fc\<rparr>)\<rparr>) t1"
    using post_wait_carries [OF E idle post ctx fr wr] by blast
  note q = quiet_fromD [OF t1]
  have h1: "holds_bytes b k (\<lambda>_. test_string n) t1" using h by (simp add: holds_bytes_def q(2))
  have pr: "printed i t1 = printed i s" using q(14) by (simp add: printed_def)
  obtain t where "request_finalize E wk ReqNull ctx is_server (fresh_iov b k len) i t1 = Some (0, t)"
    "world t = world t1" "faults t = faults t1" "am_last t = am_last t1" "am_complete t = am_complete t1"
    "sends (trace t) = sends (trace t1)"
    "lines (trace t) = lines (trace t1) @ (if printed i t1 then replicate k (map letter [0..<n - 1]) else [])"
    using finalize_message [OF h1 _ _ n(2) b, of E wk ctx is_server len i] host n(1) q by auto
  with post request_finalize_wait [OF wait] q pr show ?thesis by auto
qed

text \<open>What is written depends on the heap only.\<close>

lemma fold_apply_dma_heap:
  "heap u = heap (s :: 'w cs) \<Longrightarrow> heap (fold apply_dma ds u) = heap (fold apply_dma ds s)"
proof (induction ds arbitrary: u s)
  case (Cons d ds)
  have "heap (apply_dma d u) = heap (apply_dma d s)"
    using Cons.prems by (cases d) (simp add: apply_dma_def store_def split: option.split)
  from Cons.IH [OF this] show ?case by simp
qed simp

lemma scatter_message:
  fixes s :: "'w cs"
  assumes n: "unat len = n" and k: "unat cnt = k" and blocks: "\<forall>i<k. heap s (b + i) = Some (replicate n None)"
  obtains h where "holds_bytes b k (\<lambda>_. test_string n) (s\<lparr>heap := h\<rparr>)"
    "\<And>u :: 'w cs. heap u = heap s \<Longrightarrow>
       fold apply_dma (scatter (payload_of (fresh_iov b k len) cnt) (message k n)) u = u\<lparr>heap := h\<rparr>"
proof -
  let ?ds = "scatter (payload_of (fresh_iov b k len) cnt) (message k n)"
  have sc: "holds_bytes b k (\<lambda>i. take n (drop (i * n) (message k n))) (fold apply_dma ?ds u) \<and>
      (\<exists>h. fold apply_dma ?ds u = u\<lparr>heap := h\<rparr>)" if "heap u = heap s" for u :: "'w cs"
    using scatter_iov_fresh [OF n, of k u b "message k n"] blocks that by (simp add: scatter_payload [OF k])
  define h where "h = heap (fold apply_dma ?ds s)"
  show thesis
  proof (rule that [of h])
    show "holds_bytes b k (\<lambda>_. test_string n) (s\<lparr>heap := h\<rparr>)"
      using sc [OF refl] by (simp add: holds_bytes_def h_def message_part)
    show "fold apply_dma ?ds u = u\<lparr>heap := h\<rparr>" if u: "heap u = heap s" for u :: "'w cs"
    proof -
      obtain h' where h': "fold apply_dma ?ds u = u\<lparr>heap := h'\<rparr>" using sc [OF u] by blast
      then have "h' = h" using fold_apply_dma_heap [OF u, of ?ds] by (simp add: h_def)
      with h' show ?thesis by simp
    qed
  qed
qed

text \<open>The receiver of an active message waits for it to come.\<close>

lemma copy_data_heap:
  "test_mem_type s = MEM_HOST \<Longrightarrow> unat len = n \<Longrightarrow> \<forall>i<k. \<exists>bs. heap s (b + i) = Some bs \<and> length bs = n \<Longrightarrow>
   off + k * n \<le> length data \<Longrightarrow> \<exists>h. copy_data (fresh_iov b k len) data off s = s\<lparr>heap := h\<rparr>"
proof (induction k arbitrary: b s off)
  case 0
  have "s = s\<lparr>heap := heap s\<rparr>" by simp
  then show ?case by (metis fresh_iov_def copy_data.simps(1) list.map(1) upt_0)
next
  case (Suc k)
  obtain bs where bs: "heap s b = Some bs" "length bs = n" using Suc.prems(3) by force
  define s1 where "s1 = s\<lparr>heap := (heap s)(b \<mapsto> map Some (take n (drop off data)))\<rparr>"
  have off: "off + n \<le> length data" "(off + n) + k * n \<le> length data" using Suc.prems(4) by simp_all
  have "store b 0 (map Some (take n (drop off data))) s = s1" using bs off(1) by (simp add: s1_def memory_simps)
  then have "copy_data (fresh_iov b (Suc k) len) data off s = copy_data (fresh_iov (Suc b) k len) data (off + n) s1"
    using Suc.prems(1,2) off(1) by (simp add: fresh_iov_Suc)
  moreover have "\<exists>h. copy_data (fresh_iov (Suc b) k len) data (off + n) s1 = s1\<lparr>heap := h\<rparr>"
    using Suc.prems off by (intro Suc.IH) (auto simp: s1_def)
  ultimately show ?case by (auto simp: s1_def)
qed

text \<open>What one active message does to the receiver: \<open>rndv\<close> tells whether its data is still to be fetched.\<close>

definition am_received :: "nat \<Rightarrow> nat \<Rightarrow> nat \<Rightarrow> 'w cs \<Rightarrow> 'w cs \<Rightarrow> bool" where
  "am_received b k n s t \<longleftrightarrow> (\<exists>rndv d h.
     t = s\<lparr>am_complete := am_complete s + 1, am_is_rndv := rndv, am_desc := d, heap := h\<rparr> \<and>
     (if rndv = 0 then holds_bytes b k (\<lambda>_. test_string n) t else h = heap s))"

lemma am_data_cb_received:
  assumes buf: "am_recv_buf s = Some f" "frames s f = Some fr" "fr_iov fr = fresh_iov b k (test_string_length s)"
    and k: "unat (iov_cnt s) = k" and n: "unat (test_string_length s) = n" and host: "test_mem_type s = MEM_HOST"
    and blocks: "\<forall>i<k. heap s (b + i) = Some (replicate n None)" and msg: "brings (message k n) msg"
  shows "am_received b k n s (snd (ucp_am_data_cb hl msg s))"
proof -
  have "(of_nat (k * n) :: u64) = of_nat (unat (iov_cnt s) * unat (test_string_length s))" by (simp only: k n)
  also have "\<dots> = iov_cnt s * test_string_length s" by simp
  finally have len: "(of_nat (k * n) :: u64) = iov_cnt s * test_string_length s" .
  from msg show ?thesis unfolding brings_def
  proof
    assume msg: "msg = AmEager (message k n)"
    let ?s = "s\<lparr>am_complete := am_complete s + 1, am_is_rndv := 0\<rparr>"
    have cb: "snd (ucp_am_data_cb hl msg s) = copy_data (fresh_iov b k (test_string_length s)) (message k n) 0 ?s"
      using buf len by (simp add: ucp_am_data_cb_def msg)
    have pre: "test_mem_type ?s = MEM_HOST" "\<forall>i<k. \<exists>bs. heap ?s (b + i) = Some bs \<and> length bs = n"
        "0 + k * n \<le> length (message k n)"
      using host blocks by simp_all
    obtain h where "copy_data (fresh_iov b k (test_string_length s)) (message k n) 0 ?s = ?s\<lparr>heap := h\<rparr>"
      using copy_data_heap [OF pre(1) n pre(2,3)] by blast
    moreover have "holds_bytes b k (\<lambda>_. test_string n) (copy_data (fresh_iov b k (test_string_length s)) (message k n) 0 ?s)"
      using copy_data_fresh [OF pre(1) n pre(2,3)] by (simp add: holds_bytes_def message_part)
    ultimately show ?thesis unfolding am_received_def cb
      by (intro exI [of _ 0] exI [of _ "am_desc s"] exI [of _ h]) simp
  next
    assume "\<exists>desc. msg = AmRndv desc (of_nat (length (message k n)))"
    then obtain desc where "msg = AmRndv desc (of_nat (k * n))" by auto
    then show ?thesis using len unfolding am_received_def
      by (intro exI [of _ 1] exI [of _ desc] exI [of _ "heap s"]) (simp add: ucp_am_data_cb_def)
  qed
qed

lemma am_wait_carries:
  fixes s :: "'w cs"
  assumes E: "carries E wk lib (message k n)" and l: "lib (world s) = (None, Suc m)" and last: "am_last s = am_complete s"
    and buf: "am_recv_buf s = Some f" "frames s f = Some fr" "fr_iov fr = fresh_iov b k (test_string_length s)"
    and k: "unat (iov_cnt s) = k" and n: "unat (test_string_length s) = n" and host: "test_mem_type s = MEM_HOST"
    and blocks: "\<forall>i<k. heap s (b + i) = Some (replicate n None)"
  shows "\<exists>t u. while_option (\<lambda>s. am_last s = am_complete s) (cs_progress E wk) s = Some t \<and>
    am_received b k n s u \<and> quiet_from lib (None, m) u t"
proof -
  let ?b = "\<lambda>s. am_last s = am_complete s" and ?c = "cs_progress E wk"
  let ?Q = "quiet_from lib (None, Suc m) s" and ?R = "\<lambda>t. \<exists>u. am_received b k n s u \<and> quiet_from lib (None, m) u t"
  have step: "?R (?c u) \<or> ?Q (?c u) \<and> world (?c u) = next_world E wk (world u)" if u: "?Q u" for u
    using E
  proof (cases rule: progress_carries [where s = u and wk = wk])
    case (quietly cc)
    with quiet_from_progress [OF u, of "next_world E wk (world u)" cc "WorkerProgress wk"] quiet_fromD(1) [OF u]
    show ?thesis by simp
  next
    case (came cc m' hl msg)
    let ?w = "next_world E wk (world u)" and ?e = "EvVoid (WorkerProgress wk)"
    let ?u = "u\<lparr>world := ?w, trace := trace u @ [?e]\<rparr>"
    have m: "m' = m" using came(1) quiet_fromD(1) [OF u] by simp
    obtain w tr cc0 where u': "set tr \<subseteq> range EvVoid" "u = s\<lparr>world := w, trace := trace s @ tr, connection_closed := cc0\<rparr>"
      using u by (auto simp: quiet_from_def)
    have "am_received b k n ?u (snd (ucp_am_data_cb hl msg ?u))"
      by (rule am_data_cb_received [where f = f and fr = fr]) (use quiet_fromD [OF u] buf k n host blocks came(3) in simp_all)
    then obtain rndv d h where v: "snd (ucp_am_data_cb hl msg ?u) =
        ?u\<lparr>am_complete := am_complete ?u + 1, am_is_rndv := rndv, am_desc := d, heap := h\<rparr>"
      "if rndv = 0 then holds_bytes b k (\<lambda>_. test_string n) (snd (ucp_am_data_cb hl msg ?u)) else h = heap ?u"
      unfolding am_received_def by blast
    have h: "if rndv = 0 then \<forall>i<k. h (b + i) = Some (map Some (test_string n)) else h = heap s"
      using v quiet_fromD(2) [OF u] by (simp add: holds_bytes_def split: if_splits)
    let ?v = "s\<lparr>am_complete := am_complete s + 1, am_is_rndv := rndv, am_desc := d, heap := h\<rparr>"
    have "am_received b k n s ?v"
      unfolding am_received_def by (intro exI [of _ rndv] exI [of _ d] exI [of _ h]) (use h in \<open>simp add: holds_bytes_def\<close>)
    moreover have "quiet_from lib (None, m) ?v (?c u)"
      by (rule quiet_fromI [where tr = "tr @ [?e]" and w = ?w and cc = cc])
        (use u' came(2,4) v(1) m in simp_all)
    ultimately show ?thesis by blast
  qed (use quiet_fromD(1) [OF u] in simp)
  have b: "?b u" if "?Q u" for u using quiet_fromD(4,5) [OF that] last by simp
  have b': "\<not> ?b u" if "?R u" for u using that last by (auto simp: am_received_def quiet_fromD)
  have "?Q s" using quiet_from_refl [of lib s] l by simp
  then have "\<exists>t. while_option ?b ?c s = Some t \<and> ?R t"
    by (intro wait_carries [OF E, where Q = ?Q and l = "(None, Suc m)"])
      (simp, erule quiet_fromD(1), erule step, erule b, erule b', assumption)
  then show ?thesis by blast
qed

text \<open>The preparation, in these terms.\<close>

lemma prepare_carries:
  fixes s :: "'w cs"
  assumes E: "carries E wk lib data"
    and wf: "cs_wf s" and host: "test_mem_type s = MEM_HOST"
    and n: "unat (test_string_length s) = n" "0 < n" "n < 2 ^ 31" and k: "unat (iov_cnt s) = k"
  obtains ctx iov s1 s2 where "enter_frame s = (ctx, iov, s1)"
    "fill_request_param E iov c ctx s1 = (Some (fresh_iov (brk s) k (test_string_length s),
       payload_of (fresh_iov (brk s) k (test_string_length s)) (iov_cnt s)), s2)"
    "if c then holds_bytes (brk s) k (\<lambda>_. test_string n) s2 else \<forall>i<k. heap s2 (brk s + i) = Some (replicate n None)"
    "trace s2 = trace s" "faults s2 = faults s" "am_last s2 = am_last s" "am_complete s2 = am_complete s"
    "frames s2 ctx = Some \<lparr>fr_iov = fresh_iov (brk s) k (test_string_length s), fr_complete = 0\<rparr>"
    "lib (world s2) = lib (world s)" "test_mem_type s2 = MEM_HOST" "test_string_length s2 = test_string_length s"
    "iov_cnt s2 = iov_cnt s" "printed i s2 = printed i s" "0 < brk s"
proof -
  obtain ctx iov s1 where e: "enter_frame s = (ctx, iov, s1)" by (metis prod_cases3)
  obtain s2 where f: "fill_request_param E iov c ctx s1 = (Some (fresh_iov (brk s) k (test_string_length s),
       payload_of (fresh_iov (brk s) k (test_string_length s)) (iov_cnt s)), s2)"
    "if c then holds_bytes (brk s) k (\<lambda>_. test_string n) s2 else \<forall>i<k. heap s2 (brk s + i) = Some (replicate n None)"
    "trace s2 = trace s" "faults s2 = faults s" "cs_config s2 = cs_config s" "am_last s2 = am_last s"
    "am_complete s2 = am_complete s"
    "frames s2 ctx = Some \<lparr>fr_iov = fresh_iov (brk s) k (test_string_length s), fr_complete = 0\<rparr>"
    using fill_request_param_ok [OF carries_alloc(1) [OF E] wf host n k e, of c] by blast
  have "lib (world s2) = lib (world s)"
    using fill_request_param_world [of lib E iov c ctx s1] carries_alloc(2) [OF E] f(1) enter_frame_fields [OF e] by simp
  moreover have "test_mem_type s2 = MEM_HOST" "test_string_length s2 = test_string_length s"
    "iov_cnt s2 = iov_cnt s" "printed i s2 = printed i s"
    using f(5) host by (simp_all add: cs_config_def printed_def)
  moreover have "0 < brk s" using wf by (simp add: cs_wf_def wf_heap_def)
  ultimately show thesis using that e f by blast
qed

section \<open>The three transfers\<close>

text \<open>What the iterations of a list print, one after the other.\<close>

definition lines_due :: "'w cs \<Rightarrow> nat \<Rightarrow> nat \<Rightarrow> int list \<Rightarrow> byte list list" where
  "lines_due s k n is = concat (map (\<lambda>i. if printed i s then replicate k (map letter [0..<n - 1]) else []) is)"

lemma lines_due_simps [simp]:
  "lines_due s k n [] = []"
  "lines_due s k n (i # is) = (if printed i s then replicate k (map letter [0..<n - 1]) else []) @ lines_due s k n is"
  "lines_due s k n (is @ js) = lines_due s k n is @ lines_due s k n js"
  by (simp_all add: lines_due_def)

lemma lines_due_cong: "num_iterations s = num_iterations t \<Longrightarrow> lines_due s k n is = lines_due t k n is"
  by (simp add: lines_due_def printed_def)

text \<open>
  \<open>carried lib m k n is sent s t\<close>: from \<open>s\<close> to \<open>t\<close> the transfers \<open>is\<close> have been done; they have sent
  \<open>sent\<close> and printed what is due; no active message is left that has not been consumed, and the
  library has \<open>m\<close> still to bring.
\<close>

definition carried :: "('w \<Rightarrow> duties) \<Rightarrow> nat \<Rightarrow> nat \<Rightarrow> nat \<Rightarrow> int list \<Rightarrow> byte option list list \<Rightarrow> 'w cs \<Rightarrow> 'w cs \<Rightarrow> bool" where
  "carried lib m k n is sent s t \<longleftrightarrow> lib (world t) = (None, m) \<and> faults t = faults s \<and> am_last t = am_complete t \<and>
     sends (trace t) = sends (trace s) @ sent \<and> lines (trace t) = lines (trace s) @ lines_due s k n is"

lemma carried_trans:
  "carried lib m' k n is sent s t \<Longrightarrow> carried lib m k n js sent' t u \<Longrightarrow> num_iterations t = num_iterations s \<Longrightarrow>
   carried lib m k n (is @ js) (sent @ sent') s u"
  using lines_due_cong [of t s k n js] by (simp add: carried_def)

lemma send_carries:
  fixes s :: "'w cs"
  assumes E: "carries E wk lib (message k n)" and l: "lib (world s) = (None, m)" and am: "am_last s = am_complete s"
    and wf: "cs_wf s" and host: "test_mem_type s = MEM_HOST"
    and n: "unat (test_string_length s) = n" "0 < n" "n < 2 ^ 31" and k: "unat (iov_cnt s) = k"
    and type: "type \<in> {SEND_RECV_STREAM, SEND_RECV_TAG, SEND_RECV_AM}"
  shows "\<exists>t. client_server_communication E wk ep type False i s = Some (0, t) \<and>
    carried lib m k n [i] [map Some (message k n)] s t"
proof -
  let ?len = "test_string_length s"
  let ?iov = "fresh_iov (brk s) k ?len" let ?msg = "payload_of ?iov (iov_cnt s)"
  obtain ctx iov s1 s2 where p: "enter_frame s = (ctx, iov, s1)"
    "fill_request_param E iov True ctx s1 = (Some (?iov, ?msg), s2)"
    and f: "holds_bytes (brk s) k (\<lambda>_. test_string n) s2"
    and s2: "trace s2 = trace s" "faults s2 = faults s" "am_last s2 = am_last s" "am_complete s2 = am_complete s"
    "frames s2 ctx = Some \<lparr>fr_iov = ?iov, fr_complete = 0\<rparr>"
    "lib (world s2) = lib (world s)" "test_mem_type s2 = MEM_HOST" "test_string_length s2 = test_string_length s"
    "iov_cnt s2 = iov_cnt s" "printed i s2 = printed i s" "0 < brk s"
    using prepare_carries [OF E wf host n k, of True i] by (metis (full_types))
  let ?c = "send_call type ep ?msg ctx"
  have c: "context_of ?c = Some ctx" "is_send ?c" "writes ?c (message k n) = []" "flags_of ?c = []" using type by auto
  have g: "gather ?msg s2 = map Some (message k n)"
    using gather_filled [OF f] n k by (simp add: message_def map_replicate_const)
  obtain r s3 t where t: "call_post E ?c (map Some (message k n)) s2 = (r, s3)"
    "request_finalize E wk r ctx False ?iov i s3 = Some (0, t)"
    "lib (world t) = (None, m)" "faults t = faults s2" "am_last t = am_last s2" "am_complete t = am_complete s2"
    "sends (trace t) = sends (trace s2) @ (if is_send ?c then [map Some (message k n)] else [])"
    "lines (trace t) = lines (trace s2) @ (if printed i s2 then replicate k (map letter [0..<n - 1]) else [])"
    using post_finalize_carries [OF E _ c(1) s2(5), of m "heap s2" n "brk s" k "map Some (message k n)" False ?len i]
      f s2 l n c(3) unfolding call_post_cb_none [OF c(4)] by auto
  have "client_server_communication E wk ep type False i s = Some (0, leave_frame ctx t)"
    using type p t(1,2) g
    by (auto simp: client_server_communication_def send_recv_stream_def send_recv_tag_def send_recv_am_def)
  with t s2 c(2) am show ?thesis by (simp add: carried_def leave_frame_def)
qed

lemma receive_carries:
  fixes s :: "'w cs"
  assumes E: "carries E wk lib (message k n)" and l: "lib (world s) = (None, m)" and am: "am_last s = am_complete s"
    and wf: "cs_wf s" and host: "test_mem_type s = MEM_HOST"
    and n: "unat (test_string_length s) = n" "0 < n" "n < 2 ^ 31" and k: "unat (iov_cnt s) = k"
    and type: "type \<in> {SEND_RECV_STREAM, SEND_RECV_TAG}"
  shows "\<exists>t. client_server_communication E wk ep type True i s = Some (0, t) \<and> carried lib m k n [i] [] s t"
proof -
  let ?len = "test_string_length s"
  let ?iov = "fresh_iov (brk s) k ?len" let ?msg = "payload_of ?iov (iov_cnt s)"
  obtain ctx iov s1 s2 where p: "enter_frame s = (ctx, iov, s1)"
    "fill_request_param E iov False ctx s1 = (Some (?iov, ?msg), s2)"
    and f: "\<forall>i<k. heap s2 (brk s + i) = Some (replicate n None)"
    and s2: "trace s2 = trace s" "faults s2 = faults s" "am_last s2 = am_last s" "am_complete s2 = am_complete s"
    "frames s2 ctx = Some \<lparr>fr_iov = ?iov, fr_complete = 0\<rparr>"
    "lib (world s2) = lib (world s)" "test_mem_type s2 = MEM_HOST" "test_string_length s2 = test_string_length s"
    "iov_cnt s2 = iov_cnt s" "printed i s2 = printed i s" "0 < brk s"
    using prepare_carries [OF E wf host n k, of False i] by (metis (full_types))
  let ?c = "recv_call type wk ep ?msg ctx"
  have c: "context_of ?c = Some ctx" "\<not> is_send ?c" "writes ?c (message k n) = scatter ?msg (message k n)"
      "flags_of ?c = []" using type by auto
  obtain h where h: "holds_bytes (brk s) k (\<lambda>_. test_string n) (s2\<lparr>heap := h\<rparr>)"
    "\<And>u :: 'w cs. heap u = heap s2 \<Longrightarrow> fold apply_dma (writes ?c (message k n)) u = u\<lparr>heap := h\<rparr>"
    using scatter_message [OF n(1) k f] c(3) by metis
  obtain r s3 t where t: "call_post E ?c [] s2 = (r, s3)"
    "request_finalize E wk r ctx True ?iov i s3 = Some (0, t)"
    "lib (world t) = (None, m)" "faults t = faults s2" "am_last t = am_last s2" "am_complete t = am_complete s2"
    "sends (trace t) = sends (trace s2) @ (if is_send ?c then [[]] else [])"
    "lines (trace t) = lines (trace s2) @ (if printed i s2 then replicate k (map letter [0..<n - 1]) else [])"
    using post_finalize_carries [OF E _ c(1) s2(5) h(2), of m n "brk s" k "[]" True ?len i] h(1) s2 l n
    unfolding call_post_cb_none [OF c(4)] by auto
  have "client_server_communication E wk ep type True i s = Some (0, leave_frame ctx t)"
    using type p t(1,2)
    by (auto simp: client_server_communication_def send_recv_stream_def send_recv_tag_def)
  with t s2 c(2) am show ?thesis by (simp add: carried_def leave_frame_def)
qed

lemma am_receive_carries:
  fixes s :: "'w cs"
  assumes E: "carries E wk lib (message k n)" and l: "lib (world s) = (None, Suc m)" and am: "am_last s = am_complete s"
    and wf: "cs_wf s" and host: "test_mem_type s = MEM_HOST"
    and n: "unat (test_string_length s) = n" "0 < n" "n < 2 ^ 31" and k: "unat (iov_cnt s) = k"
  shows "\<exists>t. client_server_communication E wk ep SEND_RECV_AM True i s = Some (0, t) \<and> carried lib m k n [i] [] s t"
proof -
  let ?len = "test_string_length s"
  let ?iov = "fresh_iov (brk s) k ?len" let ?msg = "payload_of ?iov (iov_cnt s)"
  obtain ctx iov s1 s2 where p: "enter_frame s = (ctx, iov, s1)"
    "fill_request_param E iov False ctx s1 = (Some (?iov, ?msg), s2)"
    and f: "\<forall>i<k. heap s2 (brk s + i) = Some (replicate n None)"
    and s2: "trace s2 = trace s" "faults s2 = faults s" "am_last s2 = am_last s" "am_complete s2 = am_complete s"
    "frames s2 ctx = Some \<lparr>fr_iov = ?iov, fr_complete = 0\<rparr>"
    "lib (world s2) = lib (world s)" "test_mem_type s2 = MEM_HOST" "test_string_length s2 = test_string_length s"
    "iov_cnt s2 = iov_cnt s" "printed i s2 = printed i s" "0 < brk s"
    using prepare_carries [OF E wf host n k, of False i] by (metis (full_types))
  let ?s2 = "s2\<lparr>am_recv_buf := Some ctx\<rparr>"
  obtain s3 u where w: "while_option (\<lambda>s. am_last s = am_complete s) (cs_progress E wk) ?s2 = Some s3"
    "am_received (brk s) k n ?s2 u" "quiet_from lib (None, m) u s3"
  proof -
    have "\<exists>t u. while_option (\<lambda>s. am_last s = am_complete s) (cs_progress E wk) ?s2 = Some t \<and>
      am_received (brk s) k n ?s2 u \<and> quiet_from lib (None, m) u t"
      by (rule am_wait_carries [OF E, where f = ctx and fr = "\<lparr>fr_iov = ?iov, fr_complete = 0\<rparr>"])
        (use s2 l n(1) k f am in simp_all)
    with that show thesis by blast
  qed
  define s4 where "s4 = s3\<lparr>am_last := am_last s3 + 1\<rparr>"
  note q = quiet_fromD [OF w(3)]
  obtain rndv d h0 where u0: "u = ?s2\<lparr>am_complete := am_complete ?s2 + 1, am_is_rndv := rndv, am_desc := d, heap := h0\<rparr>"
      "if rndv = 0 then holds_bytes (brk s) k (\<lambda>_. test_string n) u else h0 = heap ?s2"
    using w(2) unfolding am_received_def by blast
  have u: "frames u = frames s2" "am_last u = am_last s2" "am_complete u = am_complete s2 + 1" "faults u = faults s2"
      "test_mem_type u = MEM_HOST" "test_string_length u = ?len" "trace u = trace s2" "printed i u = printed i s"
      "am_is_rndv u = 0 \<Longrightarrow> holds_bytes (brk s) k (\<lambda>_. test_string n) u" "am_is_rndv u \<noteq> 0 \<Longrightarrow> heap u = heap s2"
    using u0 s2(7,8,10) by (simp_all add: printed_def)
  have s4: "lib (world s4) = (None, m)" "frames s4 ctx = Some \<lparr>fr_iov = ?iov, fr_complete = 0\<rparr>" "am_last s4 = am_complete s4"
      "faults s4 = faults s" "test_mem_type s4 = MEM_HOST" "unat (test_string_length s4) = n" "printed i s4 = printed i s"
      "am_is_rndv s4 = am_is_rndv u" "heap s4 = heap u"
      "sends (trace s4) = sends (trace s)" "lines (trace s4) = lines (trace s)"
    using q u s2 am n(1) by (simp_all add: s4_def printed_def)
  have "\<exists>t. client_server_communication E wk ep SEND_RECV_AM True i s = Some (0, leave_frame ctx t) \<and>
      lib (world t) = (None, m) \<and> faults t = faults s \<and> am_last t = am_complete t \<and> sends (trace t) = sends (trace s) \<and>
      lines (trace t) = lines (trace s) @ (if printed i s then replicate k (map letter [0..<n - 1]) else [])"
  proof (cases "am_is_rndv u = 0")
    case True
    have "holds_bytes (brk s) k (\<lambda>_. test_string n) s4" using u(9) True s4(9) by (simp add: holds_bytes_def)
    from finalize_message [OF this s4(5,6) n(2) s2(11), of E wk ctx True ?len i] show ?thesis
      using p w(1) True s4 by (auto simp: client_server_communication_def send_recv_am_def s4_def Let_def)
  next
    case False
    let ?c = "AmRecvData wk (am_desc s4) ?msg (Some ctx) [NO_IMM_CMPL]"
    have f4: "\<forall>i<k. heap s4 (brk s + i) = Some (replicate n None)" using f u(10) False s4(9) by simp
    obtain h where h: "holds_bytes (brk s) k (\<lambda>_. test_string n) (s4\<lparr>heap := h\<rparr>)"
      "\<And>u :: 'w cs. heap u = heap s4 \<Longrightarrow> fold apply_dma (scatter ?msg (message k n)) u = u\<lparr>heap := h\<rparr>"
      using scatter_message [OF n(1) k f4] by metis
    obtain r s5 t where "call_post_cb E (cs_dispatch E) ?c [] s4 = (r, s5)" "request_finalize E wk r ctx True ?iov i s5 = Some (0, t)"
      "lib (world t) = (None, m)" "faults t = faults s4" "am_last t = am_last s4" "am_complete t = am_complete s4"
      "sends (trace t) = sends (trace s4)"
      "lines (trace t) = lines (trace s4) @ (if printed i s4 then replicate k (map letter [0..<n - 1]) else [])"
      using post_finalize_carries [OF E s4(1) _ s4(2) _ s4(5,6) n(2) s2(11), of ?c h k "[]" True ?len i] h by auto
    then show ?thesis
      using p w(1) False s4 by (auto simp: client_server_communication_def send_recv_am_def s4_def Let_def)
  qed
  then show ?thesis by (auto simp: carried_def leave_frame_def)
qed

text \<open>
  A transfer over any of the three APIs: it returns, it succeeds, the sender sends the message, and
  both sides print its strings when they are due. The receiver of an active message consumes one.
\<close>

abbreviation one_if :: "bool \<Rightarrow> nat" where
  "one_if b \<equiv> (if b then 1 else 0)"

lemma transfer_carries:
  fixes s :: "'w cs"
  assumes E: "carries E wk lib (message k n)" and type: "type \<in> {SEND_RECV_STREAM, SEND_RECV_TAG, SEND_RECV_AM}"
    and n: "0 < n" "n < 2 ^ 31"
    and s: "cs_wf s" "test_mem_type s = MEM_HOST" "unat (test_string_length s) = n" "unat (iov_cnt s) = k"
      "am_last s = am_complete s" "lib (world s) = (None, m + one_if (type = SEND_RECV_AM \<and> is_server))"
  shows "\<exists>t. client_server_communication E wk ep type is_server i s = Some (0, t) \<and>
    carried lib m k n [i] (if is_server then [] else [map Some (message k n)]) s t"
proof (cases is_server)
  case False
  with send_carries [OF E _ s(5,1,2,3) n s(4) type, of m ep i] s(6) show ?thesis by simp
next
  case True
  show ?thesis
  proof (cases "type = SEND_RECV_AM")
    case am: True
    with am_receive_carries [OF E _ s(5,1,2,3) n s(4), of m ep i] s(6) True show ?thesis by simp
  next
    case False
    with receive_carries [OF E _ s(5,1,2,3) n s(4), of m type ep i] s(6) True type show ?thesis by simp
  qed
qed

end
