(* ===== verification/Cs_Closed.thy ===== *)
theory Cs_Closed
  imports Cs_Scopes Cs_Exchange
begin

text \<open>
  A session of the server that succeeds has been told that the client closed the connection: what a
  session changes of \<open>connection_closed\<close>, followed through every transfer, wait and callback, against
  the callbacks the library has run.
\<close>

section \<open>The callbacks a library has run\<close>

text \<open>
  \<open>records E hist\<close>: of every world the library comes to, \<open>hist\<close> gives the callbacks that it has run, in
  their order. \<open>logging\<close> makes such a library of any other: it answers the same, and writes down what
  it runs.
\<close>

definition run_early :: "('w, cs_upcall, 'e) env_scheme \<Rightarrow> ucx_call \<Rightarrow> req \<Rightarrow> 'w \<Rightarrow> cs_upcall list" where
  "run_early E c r w = (case r of ReqPtr q \<Rightarrow> early E c q w | _ \<Rightarrow> [])"

definition records :: "('w, cs_upcall, 'e) env_scheme \<Rightarrow> ('w \<Rightarrow> cs_upcall list) \<Rightarrow> bool" where
  "records E hist \<longleftrightarrow>
     (\<forall>n w. hist (snd (alloc_ok E n w)) = hist w) \<and>
     (\<forall>c w. hist (u_void E c w) = hist w) \<and>
     (\<forall>c w. hist (snd (u_status E c w)) = hist w) \<and>
     (\<forall>c w. hist (snd (u_create E c w)) = hist w) \<and>
     (\<forall>c bs w. case u_post E c bs w of ((r, ds), w') \<Rightarrow> hist w' = hist w @ run_early E c r w') \<and>
     (\<forall>wk w. case u_progress E wk w of ((n, us), w') \<Rightarrow> hist w' = hist w @ us)"

definition logging :: "('w, cs_upcall) env \<Rightarrow> ('w \<times> cs_upcall list, cs_upcall) env" where
  "logging E =
     \<lparr>alloc_ok = (\<lambda>n (w, h). case alloc_ok E n w of (ok, w') \<Rightarrow> (ok, w', h)),
      u_void = (\<lambda>c (w, h). (u_void E c w, h)),
      u_status = (\<lambda>c (w, h). case u_status E c w of (st, w') \<Rightarrow> (st, w', h)),
      u_create = (\<lambda>c (w, h). case u_create E c w of (r, w') \<Rightarrow> (r, w', h)),
      u_post = (\<lambda>c bs (w, h). case u_post E c bs w of ((r, ds), w') \<Rightarrow> ((r, ds), w', h @ run_early E c r w')),
      u_early = (\<lambda>c q (w, h). u_early E c q w),
      u_progress = (\<lambda>wk (w, h). case u_progress E wk w of ((n, us), w') \<Rightarrow> ((n, us), w', h @ us)),
      u_check = (\<lambda>q (w, h). u_check E q w), status_code = status_code E, inet_pton = inet_pton E\<rparr>"

lemma logging_records: "records (logging E) snd"
  by (auto simp: records_def logging_def run_early_def early_def split: prod.split req.split)

lemma records_alloc: "records E hist \<Longrightarrow> hist (snd (alloc_ok E n w)) = hist w"
  and records_void: "records E hist \<Longrightarrow> hist (u_void E c w) = hist w"
  and records_status: "records E hist \<Longrightarrow> hist (snd (u_status E c w)) = hist w"
  and records_create: "records E hist \<Longrightarrow> hist (snd (u_create E c w)) = hist w"
  by (simp_all add: records_def)

lemma records_post: "records E hist \<Longrightarrow> u_post E c bs w = ((r, ds), w') \<Longrightarrow> hist w' = hist w @ run_early E c r w'"
  unfolding records_def by (metis (mono_tags, lifting) case_prod_conv)

lemma records_progress: "records E hist \<Longrightarrow> u_progress E wk w = ((n, us), w') \<Longrightarrow> hist w' = hist w @ us"
  unfolding records_def by (metis (mono_tags, lifting) case_prod_conv)

section \<open>What a step changes\<close>

text \<open>
  \<open>heard hist s t\<close>: from \<open>s\<close> to \<open>t\<close> the library has run some callbacks, and unless the error handler is one
  of them, \<open>connection_closed\<close> is the same. \<open>deafly\<close>: it has run none.
\<close>

definition heard :: "('w \<Rightarrow> cs_upcall list) \<Rightarrow> 'w cs \<Rightarrow> 'w cs \<Rightarrow> bool" where
  "heard hist s t \<longleftrightarrow> (\<exists>us. hist (world t) = hist (world s) @ us \<and>
     (connection_closed t = connection_closed s \<or> (\<exists>u \<in> set us. is_err u)))"

definition deafly :: "('w \<Rightarrow> cs_upcall list) \<Rightarrow> 'w cs \<Rightarrow> 'w cs \<Rightarrow> bool" where
  "deafly hist s t \<longleftrightarrow> hist (world t) = hist (world s) \<and> connection_closed t = connection_closed s"

lemma deafly_heard: "deafly hist s t \<Longrightarrow> heard hist s t"
  by (simp add: deafly_def heard_def)

lemma deafly_trans: "deafly hist s t \<Longrightarrow> deafly hist t u \<Longrightarrow> deafly hist s u"
  by (simp add: deafly_def)

lemma heard_refl [simp]: "heard hist s s"
  by (simp add: heard_def)

lemma heard_trans [trans]: "heard hist s t \<Longrightarrow> heard hist t u \<Longrightarrow> heard hist s u"
  by (fastforce simp: heard_def)

lemma heard_deafly: "heard hist s t \<Longrightarrow> deafly hist t u \<Longrightarrow> heard hist s u"
  by (blast intro: heard_trans deafly_heard)

lemma deafly_upd [simp]:
  "deafly hist s (emit e s)" "deafly hist s (leave_frame ctx s)" "deafly hist s (s\<lparr>am_recv_buf := b\<rparr>)"
  "deafly hist s (s\<lparr>am_last := l\<rparr>)" "deafly hist s (buffer_free iov s)" "deafly hist s s"
  by (simp_all add: deafly_def leave_frame_def heap_only_cs(6) [OF conjunct1 [OF buffer_free_frame]])

lemma call_void_deafly: "records E hist \<Longrightarrow> deafly hist s (call_void E c s)"
  by (simp add: deafly_def call_void_def records_void)

lemma call_status_deafly: "records E hist \<Longrightarrow> deafly hist s (snd (call_status E c s))"
  using records_status [of E hist c "world s"] by (simp add: deafly_def call_status_def split_beta)

text \<open>Callbacks make no noise of their own; only the error handler touches the flag.\<close>

lemma dispatch_world: "records E hist \<Longrightarrow> hist (world (cs_dispatch E u s)) = hist (world s)"
proof -
  assume E: "records E hist"
  have copy: "world (copy_data vs data off v) = world v" for vs data off and v :: "'a cs"
    by (induction vs data off v rule: copy_data.induct) (simp_all add: Let_def split: mem_type.split)
  have am: "world (snd (ucp_am_data_cb hl data s)) = world s" for hl data
    by (simp add: ucp_am_data_cb_def Let_def copy split: am_data.split option.split)
  have common: "world (common_cb d s) = world s" for d
    by (simp add: common_cb_def split: option.split)
  have conn: "hist (world (server_conn_handle_cb E c s)) = hist (world s)" for c
    using call_status_deafly [OF E] by (simp add: server_conn_handle_cb_def Let_def split_beta deafly_def split: option.split)
  show ?thesis
    by (cases u)
      (simp_all add: am common conn send_cb_def tag_recv_cb_def stream_recv_cb_def am_recv_cb_def err_cb_def)
qed

lemma dispatch_closed:
  assumes "\<not> is_err u" shows "connection_closed (cs_dispatch E u s) = connection_closed s"
  using arg_cong [OF dispatch_connection [OF assms, where E = E and s = s and c = "connection_closed s"], of connection_closed] by simp

lemma fold_dispatch_heard:
  assumes "records E hist"
  shows "hist (world (fold (cs_dispatch E) us s)) = hist (world s)"
    "(\<forall>u \<in> set us. \<not> is_err u) \<Longrightarrow> connection_closed (fold (cs_dispatch E) us s) = connection_closed s"
  by (induction us arbitrary: s) (simp_all add: dispatch_world [OF assms] dispatch_closed)

lemma progress_heard:
  assumes "records E hist" shows "heard hist s (cs_progress E wk s)"
proof -
  obtain n us w where p: "u_progress E wk (world s) = ((n, us), w)" by (metis surj_pair)
  let ?s = "emit (EvVoid (WorkerProgress wk)) (s\<lparr>world := w\<rparr>)"
  show ?thesis
    using fold_dispatch_heard [OF assms, of us ?s] records_progress [OF assms p]
    by (auto simp: heard_def ucp_worker_progress_def p)
qed

lemma wait_heard: "records E hist \<Longrightarrow> while_option b (cs_progress E wk) s = Some t \<Longrightarrow> heard hist s t"
  by (rule while_option_rel [where R = "heard hist"]) (auto intro: heard_trans progress_heard)

lemma call_post_cb_heard:
  assumes E: "records E hist" and post: "call_post_cb E (cs_dispatch E) c bs s = (r, t)"
  shows "heard hist s t"
proof -
  obtain ds w where p: "u_post E c bs (world s) = ((r, ds), w)"
    using post by (auto simp: call_post_cb_def call_post_def split: prod.splits)
  let ?s = "emit (EvPost c bs r) (fold apply_dma ds (s\<lparr>world := w\<rparr>))"
  have t: "t = fold (cs_dispatch E) (run_early E c r w) ?s"
    using post p by (auto simp: call_post_cb_def call_post_def run_early_def split: req.splits)
  have cc: "connection_closed (fold apply_dma ds v) = connection_closed v" for v :: "'a cs"
    using fold_dispatch_heard(2) [OF E, of "map UpWrite ds" v] by (simp add: fold_dispatch_writes)
  show ?thesis
    using fold_dispatch_heard [OF E, of "run_early E c r w" ?s] records_post [OF E p] cc [of "s\<lparr>world := w\<rparr>"]
    by (auto simp: heard_def t)
qed

lemma call_post_heard:
  "records E hist \<Longrightarrow> flags_of c = [] \<Longrightarrow> call_post E c bs s = (r, t) \<Longrightarrow> heard hist s t"
  using call_post_cb_heard [of E hist c bs s r t] by (simp add: call_post_cb_none)

section \<open>One transfer\<close>

lemma prepare_deafly:
  assumes E: "records E hist" and e: "enter_frame s = (ctx, iov, s1)"
    and f: "fill_request_param E iov c ctx s1 = (filled, s2)"
  shows "deafly hist s s2"
proof -
  have "hist (world s2) = hist (world s1)"
    using fill_request_param_world [of hist E iov c ctx s1, OF records_alloc [OF E]] f by simp
  moreover have "connection_closed s2 = connection_closed s1"
    by (rule fill_request_param_memory [OF f]) (auto simp: heap_only_cs(6))
  ultimately show ?thesis using e by (auto simp: deafly_def enter_frame_def Let_def)
qed

lemma print_iov_from_deafly: "deafly hist s (print_iov_from msg vs s)"
proof (induction msg vs s rule: print_iov_from.induct)
  case (2 msg v vs s)
  then show ?case by (auto simp: Let_def deafly_def fault_def emit_def split: mem_type.split option.split)
qed simp

lemma request_wait_heard:
  assumes E: "records E hist" and run: "request_wait E wk r ctx s = Some (st, t)" shows "heard hist s t"
proof (cases r)
  case (ReqPtr q)
  with run obtain s1 where w: "while_option (\<lambda>s. ctx_complete ctx s = 0) (cs_progress E wk) s = Some s1"
      and t: "t = call_void E (ReqFree q) s1"
    by (auto simp: request_wait_def bind_eq_Some_conv)
  show ?thesis unfolding t by (rule heard_deafly [OF wait_heard [OF E w] call_void_deafly [OF E]])
qed (use run in \<open>auto simp: request_wait_def\<close>)

lemma request_finalize_heard:
  assumes E: "records E hist" and run: "request_finalize E wk r ctx is_server iov i s = Some (ret, t)"
  shows "heard hist s t"
proof -
  from run obtain st s1 where w: "request_wait E wk r ctx s = Some (st, s1)"
      and t: "t = buffer_free iov s1 \<or> t = buffer_free iov (print_result is_server iov i s1)"
    by (auto simp: request_finalize_def bind_eq_Some_conv split: if_splits)
  have "deafly hist u (buffer_free iov u)" for u by simp
  then have "deafly hist s1 t"
    using t print_iov_from_deafly [of hist s1] by (metis deafly_trans print_result_def print_iov_def)
  with request_wait_heard [OF E w] show ?thesis by (rule heard_deafly)
qed

text \<open>The frame of the three transfers, with the request in the middle.\<close>

lemma transfer_heard:
  assumes E: "records E hist" and e: "enter_frame s = (ctx, iov, s1)"
    and f: "fill_request_param E iov c ctx s1 = (Some (iov', msg), s2)" and req: "heard hist s2 s3"
    and fin: "request_finalize E wk r ctx is_server iov' i s3 = Some (ret, u)"
  shows "heard hist s (leave_frame ctx u)"
proof -
  have "heard hist s s3" using deafly_heard [OF prepare_deafly [OF E e f]] req by (rule heard_trans)
  then have "heard hist s u" using request_finalize_heard [OF E fin] by (rule heard_trans)
  then show ?thesis by (rule heard_deafly) simp
qed

lemma posted_heard:
  assumes E: "records E hist" and flags: "\<And>msg ctx. flags_of (sending msg ctx) = []" "\<And>msg ctx. flags_of (receiving msg ctx) = []"
    and run: "(let (ctx, iov, s) = enter_frame s;
          (filled, s) = fill_request_param E iov (\<not> is_server) ctx s
      in case filled of
           None \<Rightarrow> Some (-1, leave_frame ctx s)
         | Some (iov, msg) \<Rightarrow>
             let (request, s) = (if \<not> is_server then call_post E (sending msg ctx) (gather msg s) s
                                 else call_post E (receiving msg ctx) [] s)
             in do { (ret, s) \<leftarrow> request_finalize E wk request ctx is_server iov i s;
                     Some (ret, leave_frame ctx s) }) = Some (ret, t)"
  shows "heard hist s t"
proof -
  obtain ctx iov s1 where e: "enter_frame s = (ctx, iov, s1)" by (metis prod_cases3)
  obtain filled s2 where f: "fill_request_param E iov (\<not> is_server) ctx s1 = (filled, s2)" by fastforce
  show ?thesis
  proof (cases filled)
    case None
    with run e f have t: "t = leave_frame ctx s2" by simp
    show ?thesis unfolding t by (rule deafly_heard [OF deafly_trans [OF prepare_deafly [OF E e f]]]) simp
  next
    case (Some p)
    obtain iov' msg where p: "p = (iov', msg)" by (cases p)
    obtain r s3 where post: "(if \<not> is_server then call_post E (sending msg ctx) (gather msg s2) s2
        else call_post E (receiving msg ctx) [] s2) = (r, s3)" by fastforce
    then have h: "heard hist s2 s3"
      by (cases is_server) (auto intro: call_post_heard [OF E flags(1)] call_post_heard [OF E flags(2)])
    from run e f Some p post obtain u where
        "request_finalize E wk r ctx is_server iov' i s3 = Some (ret, u)" "t = leave_frame ctx u"
      by (auto simp: bind_eq_Some_conv)
    with transfer_heard [OF E e f [unfolded Some p] h] show ?thesis by simp
  qed
qed

lemma send_recv_am_heard:
  assumes E: "records E hist" and run: "send_recv_am E wk ep is_server i s = Some (ret, t)"
  shows "heard hist s t"
proof -
  obtain ctx iov s1 where e: "enter_frame s = (ctx, iov, s1)" by (metis prod_cases3)
  obtain filled s2 where f: "fill_request_param E iov (\<not> is_server) ctx s1 = (filled, s2)" by fastforce
  show ?thesis
  proof (cases filled)
    case None
    with run e f have t: "t = leave_frame ctx s2" by (simp add: send_recv_am_def)
    show ?thesis unfolding t by (rule deafly_heard [OF deafly_trans [OF prepare_deafly [OF E e f]]]) simp
  next
    case (Some p)
    obtain iov' msg where p: "p = (iov', msg)" by (cases p)
    have "\<exists>r s3 u. heard hist s2 s3 \<and> request_finalize E wk r ctx is_server iov' i s3 = Some (ret, u) \<and> t = leave_frame ctx u"
    proof (cases is_server)
      case False
      obtain r s3 where post: "call_post E (AmSend ep TEST_AM_ID msg (Some ctx)) (gather msg s2) s2 = (r, s3)" by fastforce
      have "heard hist s2 s3" by (rule call_post_heard [OF E _ post]) simp
      with run e f Some p post False show ?thesis by (auto simp: send_recv_am_def bind_eq_Some_conv)
    next
      case True
      from run e f Some p True obtain s4 where
          w: "while_option (\<lambda>s. am_last s = am_complete s) (cs_progress E wk) (s2\<lparr>am_recv_buf := Some ctx\<rparr>) = Some s4"
        by (auto simp: send_recv_am_def bind_eq_Some_conv Let_def)
      let ?s5 = "s4\<lparr>am_last := am_last s4 + 1\<rparr>"
      let ?c = "AmRecvData wk (am_desc ?s5) msg (Some ctx) [NO_IMM_CMPL]"
      have "heard hist s2 s4" by (rule heard_trans [OF deafly_heard wait_heard [OF E w]]) simp
      then have h5: "heard hist s2 ?s5" by (rule heard_deafly) simp
      obtain r s3 where post: "(if am_is_rndv ?s5 \<noteq> 0 then call_post_cb E (cs_dispatch E) ?c [] ?s5 else (ReqNull, ?s5)) = (r, s3)"
        by fastforce
      then have "heard hist ?s5 s3" by (auto split: if_splits intro: call_post_cb_heard [OF E])
      with h5 have "heard hist s2 s3" by (rule heard_trans)
      with run e f Some p w post True show ?thesis by (auto simp: send_recv_am_def bind_eq_Some_conv Let_def)
    qed
    then show ?thesis using transfer_heard [OF E e f [unfolded Some p]] by blast
  qed
qed

section \<open>A session\<close>

lemma transfer_any_heard:
  assumes E: "records E hist" and run: "client_server_communication E wk ep type is_server i s = Some (ret, t)"
  shows "heard hist s t"
proof (cases type)
  case SEND_RECV_STREAM
  with run have "send_recv_stream E wk ep is_server i s = Some (ret, t)" by (simp add: client_server_communication_def)
  then show ?thesis unfolding send_recv_stream_def by (rule posted_heard [OF E, rotated 2]) simp_all
next
  case SEND_RECV_TAG
  with run have "send_recv_tag E wk ep is_server i s = Some (ret, t)" by (simp add: client_server_communication_def)
  then show ?thesis unfolding send_recv_tag_def by (rule posted_heard [OF E, rotated 2]) simp_all
qed (use run send_recv_am_heard [OF E] in \<open>auto simp: client_server_communication_def\<close>)

lemma do_iterations_heard:
  "records E hist \<Longrightarrow> do_iterations E wk ep type is_server i n s = Some (ret, j, t) \<Longrightarrow> heard hist s t"
proof (induction E wk ep type is_server i n s rule: do_iterations.induct)
  case (1 E wk ep type is_server i n s)
  show ?case
  proof (cases "i < n")
    case False
    with "1.prems" show ?thesis by (simp add: do_iterations.simps)
  next
    case True
    with "1.prems" obtain r1 s1 where c: "client_server_communication E wk ep type is_server i s = Some (r1, s1)"
      by (auto simp: do_iterations.simps [of E wk ep type is_server i n s] bind_eq_Some_conv)
    note h = transfer_any_heard [OF "1.prems"(1) c]
    show ?thesis
    proof (cases "r1 = 0")
      case False
      with "1.prems" True c h show ?thesis by (simp add: do_iterations.simps [of E wk ep type is_server i n s])
    next
      case True
      then have ok: "\<not> r1 \<noteq> 0" by simp
      with "1.prems" \<open>i < n\<close> c have "do_iterations E wk ep type is_server (i + 1) n s1 = Some (ret, j, t)"
        by (simp add: do_iterations.simps [of E wk ep type is_server i n s])
      from h "1.IH" [OF \<open>i < n\<close> c refl ok "1.prems"(1) this] show ?thesis by (rule heard_trans)
    qed
  qed
qed

text \<open>
  C13: A session the server reports as successful has ended with the client closing the connection:
  for every library, among the callbacks it has run since the session began there is a call of the
  error handler. What was reported before the session does not count: \<open>connection_closed\<close>, which is
  1 when the program starts and after every other session, is reset.
\<close>

theorem server_session_waits_for_close:
  assumes "records E hist" and "client_server_do_work E wk ep type True s = Some (0, t)"
  shows "connection_closed t \<noteq> 0 \<and>
    (\<exists>us st. hist (world t) = hist (world s) @ us \<and> UpErrCb st \<in> set us)"
proof -
  let ?s = "s\<lparr>connection_closed := 0\<rparr>"
  from assms(2) obtain i s1 s2 where
      1: "do_iterations E wk ep type True 0 (sint (num_iterations ?s)) ?s = Some (0, i, s1)"
    and 2: "client_server_communication E wk ep type False (i + 1) s1 = Some (0, s2)"
    and 3: "while_option (\<lambda>s. True \<and> connection_closed s = 0) (cs_progress E wk) s2 = Some t"
    by (auto simp: client_server_do_work_def bind_eq_Some_conv split: if_splits)
  have "heard hist ?s t"
    using do_iterations_heard [OF assms(1) 1] transfer_any_heard [OF assms(1) 2] wait_heard [OF assms(1) 3]
    by (blast intro: heard_trans)
  then obtain us where us: "hist (world t) = hist (world s) @ us"
      "connection_closed t = 0 \<or> (\<exists>u \<in> set us. is_err u)"
    by (auto simp: heard_def)
  have c: "connection_closed t \<noteq> 0" using while_option_stop [OF 3] by simp
  with us obtain u where u: "u \<in> set us" "is_err u" by blast
  obtain st where "u = UpErrCb st" using u(2) by (cases u) auto
  with us(1) c u(1) show ?thesis by blast
qed

text \<open>A library that reports a lost connection in every progress call.\<close>

definition closing_env :: "(unit, cs_upcall) env" where
  "closing_env = obliging_env
     \<lparr>u_post := (\<lambda>c bs w. case c of TagRecv _ msg _ _ _ \<Rightarrow> ((ReqNull, scatter msg [65, 0]), w) | _ \<Rightarrow> ((ReqNull, []), w)),
      u_progress := (\<lambda>wk w. ((1, [UpErrCb UCS_OK]), w))\<rparr>"

theorem server_session_waits_for_close_witness:
  "\<exists>t. client_server_do_work (logging closing_env) 5 9 SEND_RECV_TAG True (cs_init ((), [])\<lparr>test_string_length := 2\<rparr>) = Some (0, t) \<and>
       (\<exists>st. UpErrCb st \<in> set (snd (world t)))"
proof -
  let ?E = "logging closing_env" and ?s = "cs_init ((), [])\<lparr>test_string_length := 2\<rparr>"
  have log: "alloc_ok ?E n (w, h) = (True, w, h)" "u_void ?E c (w, h) = (w, h)"
    "u_post ?E (TagRecv wk msg tag msk ud) bs (w, h) = ((ReqNull, scatter msg [65, 0]), w, h)"
    "u_post ?E (TagSend ep msg tag ud) bs (w, h) = ((ReqNull, []), w, h)"
    "u_progress ?E wk (w, h) = ((1, [UpErrCb UCS_OK]), w, h @ [UpErrCb UCS_OK])"
    for n w h c wk msg tag msk ud bs ep
    by (simp_all add: logging_def closing_env_def run_early_def)
  have "map_option fst (client_server_do_work ?E 5 9 SEND_RECV_TAG True ?s) = Some 0"
    by (simp add: run_simps log cong: run_congs)
  from map_fst_Some [OF this] obtain t where t: "client_server_do_work ?E 5 9 SEND_RECV_TAG True ?s = Some (0, t)" ..
  with server_session_waits_for_close [OF logging_records t] show ?thesis by (auto simp: cs_init_def)
qed

end
