(* ===== verification/Cs_Run.thy ===== *)
theory Cs_Run
  imports Cs_Exchange
begin

text \<open>
  Whole runs of \<open>ucp_client_server\<close> over a library that carries the messages: both sides of a session,
  and the client from its command line to its end.
\<close>

section \<open>A session\<close>

lemma cs_keeps_config: "cs_keeps s t \<Longrightarrow> test_mem_type t = test_mem_type s \<and>
    test_string_length t = test_string_length s \<and> iov_cnt t = iov_cnt s \<and> num_iterations t = num_iterations s"
  by (simp add: cs_keeps_def cs_config_def)

lemma iterations_carry:
  fixes s :: "'w cs"
  assumes E: "carries E wk lib (message k n)" and type: "type \<in> {SEND_RECV_STREAM, SEND_RECV_TAG, SEND_RECV_AM}"
    and n: "0 < n" "n < 2 ^ 31"
  shows "cs_wf s \<Longrightarrow> held s = Some M \<Longrightarrow> test_mem_type s = MEM_HOST \<Longrightarrow>
    unat (test_string_length s) = n \<Longrightarrow> unat (iov_cnt s) = k \<Longrightarrow> am_last s = am_complete s \<Longrightarrow>
    lib (world s) = (None, m + (if type = SEND_RECV_AM \<and> is_server then nat (N - i) else 0)) \<Longrightarrow>
    \<exists>t. do_iterations E wk ep type is_server i N s = Some (0, max i N, t) \<and> cs_keeps s t \<and>
      carried lib m k n [i..N - 1] (if is_server then [] else replicate (nat (N - i)) (map Some (message k n))) s t"
proof (induction "nat (N - i)" arbitrary: i s)
  case 0
  then show ?case by (subst do_iterations.simps) (simp add: carried_def)
next
  case (Suc j)
  have i: "i < N" and j: "j = nat (N - (i + 1))" using Suc.hyps(2) by simp_all
  let ?am = "type = SEND_RECV_AM \<and> is_server"
  let ?m = "m + (if ?am then j else 0)" and ?sent = "\<lambda>j. if is_server then [] else replicate j (map Some (message k n))"
  have l: "lib (world s) = (None, ?m + one_if ?am)" using Suc.prems(7) Suc.hyps(2) [symmetric] by simp
  have one: "?sent (Suc 0) = (if is_server then [] else [map Some (message k n)])" by simp
  obtain u where u: "client_server_communication E wk ep type is_server i s = Some (0, u)" "carried lib ?m k n [i] (?sent (Suc 0)) s u"
    using transfer_carries [OF E type n Suc.prems(1,3,4,5,6) l, of ep i] unfolding one by blast
  note keeps = comm.xfer_keeps [OF Suc.prems(1,2) u(1)] comm.xfer_wf [OF Suc.prems(1,2) u(1)]
  note cfg = cs_keeps_config [OF keeps(1)]
  have "\<exists>t. do_iterations E wk ep type is_server (i + 1) N u = Some (0, max (i + 1) N, t) \<and> cs_keeps u t \<and>
      carried lib m k n [i + 1..N - 1] (?sent j) u t"
    unfolding j by (rule Suc.hyps(1) [OF j]) (use u(2) keeps cfg Suc.prems j in \<open>simp_all add: carried_def\<close>)
  then obtain t where t: "do_iterations E wk ep type is_server (i + 1) N u = Some (0, max (i + 1) N, t)"
    "cs_keeps u t" "carried lib m k n [i + 1..N - 1] (?sent j) u t"
    by blast
  have "do_iterations E wk ep type is_server i N s = Some (0, max i N, t)"
    using u(1) t(1) i by (subst do_iterations.simps) (simp add: max_def split: if_splits)
  moreover have "carried lib m k n ([i] @ [i + 1..N - 1]) (?sent (Suc 0) @ ?sent j) s t"
    by (rule carried_trans [OF u(2) t(3)]) (use cfg in simp)
  moreover have "?sent (Suc 0) @ ?sent j = ?sent (nat (N - i))" using Suc.hyps(2) [symmetric] by simp
  moreover have "[i] @ [i + 1..N - 1] = [i..N - 1]" using i by (simp add: upto_rec1)
  ultimately show ?case using cs_keeps_trans [OF keeps(1) t(2)] by auto
qed

text \<open>The wait of the server for the end of the connection.\<close>

lemma wait_for_close_carries:
  fixes s :: "'w cs"
  assumes E: "carries E wk lib data" and l: "lib (world s) = (None, 0)" and cl: "is_server \<Longrightarrow> closes E wk"
  shows "\<exists>t. while_option (\<lambda>s. is_server \<and> connection_closed s = 0) (cs_progress E wk) s = Some t \<and>
    quiet_from lib (None, 0) s t"
proof (cases "is_server \<and> connection_closed s = 0")
  case False
  then have "while_option (\<lambda>s. is_server \<and> connection_closed s = 0) (cs_progress E wk) s = Some s"
    by (rule while_option_done)
  with quiet_from_refl [of lib s] l show ?thesis by simp
next
  case True
  let ?Q = "\<lambda>u. quiet_from lib (None, 0) s u \<and> connection_closed u = 0"
  let ?R = "\<lambda>u. quiet_from lib (None, 0) s u \<and> connection_closed u \<noteq> 0"
  let ?X = "\<lambda>w. \<exists>u \<in> set (snd (fst (u_progress E wk w))). is_err u"
  have step: "quiet_from lib (None, 0) s (cs_progress E wk u) \<and> world (cs_progress E wk u) = next_world E wk (world u) \<and>
      (?X (world u) \<longrightarrow> connection_closed (cs_progress E wk u) \<noteq> 0)" if u: "quiet_from lib (None, 0) s u" for u
    using E
  proof (cases rule: progress_carries [where s = u and wk = wk])
    case (quietly cc)
    with quiet_from_progress [OF u, of "next_world E wk (world u)" cc "WorkerProgress wk"] quiet_fromD(1) [OF u]
    show ?thesis by auto
  qed (use quiet_fromD(1) [OF u] in simp_all)
  obtain n where "?X ((next_world E wk ^^ n) (world s))" using cl True unfolding closes_def by metis
  moreover have "?Q s" using quiet_from_refl [of lib s] l True by simp
  ultimately have "\<exists>t. while_option (\<lambda>s. is_server \<and> connection_closed s = 0) (cs_progress E wk) s = Some t \<and> ?R t"
    by (intro wait_ends [where Q = ?Q and R = ?R and X = ?X]) (use step True in blast)+
  then show ?thesis by blast
qed

text \<open>The whole session, on either side.\<close>

abbreviation session_iterations :: "'w cs \<Rightarrow> int list" where
  "session_iterations s \<equiv> [0..sint (num_iterations s) - 1] @ [max 0 (sint (num_iterations s)) + 1]"

text \<open>The active messages a side gets in a session.\<close>

definition am_expected :: "send_recv_type \<Rightarrow> bool \<Rightarrow> 'w cs \<Rightarrow> nat" where
  "am_expected type is_server s =
     (if type = SEND_RECV_AM then (if is_server then nat (sint (num_iterations s)) else 1) else 0)"

lemma register_carries:
  assumes E: "carries E wk lib data" and l: "lib (world s) = (None, m)" and am: "am_last s = am_complete s"
  shows "\<exists>t. (if b then register_am_recv_callback E wk s else (UCS_OK, s)) = (UCS_OK, t) \<and> cs_keeps s t \<and>
    carried lib m k n [] [] s t"
proof -
  obtain st t where t: "register_am_recv_callback E wk s = (st, t)" by fastforce
  have "st = UCS_OK" "carried lib m k n [] [] s t"
    using t carries_handler [OF E, of TEST_AM_ID "world s"] l am
    by (auto simp: register_am_recv_callback_def call_status_def carried_def split: prod.splits)
  moreover have "carried lib m k n [] [] s s" using l am by (simp add: carried_def)
  ultimately show ?thesis using t register_am_recv_callback_keeps [OF t] by (cases b) auto
qed

lemma session_carries:
  fixes s :: "'w cs"
  assumes E: "carries E wk lib (message k n)" and cl: "is_server \<Longrightarrow> closes E wk"
    and type: "type \<in> {SEND_RECV_STREAM, SEND_RECV_TAG, SEND_RECV_AM}" and n: "0 < n" "n < 2 ^ 31"
    and s: "cs_wf s" "held s = Some M" "test_mem_type s = MEM_HOST"
      "unat (test_string_length s) = n" "unat (iov_cnt s) = k" "am_last s = am_complete s"
      "lib (world s) = (None, am_expected type is_server s)"
  shows "\<exists>t. client_server_do_work E wk ep type is_server s = Some (0, t) \<and>
    carried lib 0 k n (session_iterations s)
      (replicate (if is_server then 1 else nat (sint (num_iterations s))) (map Some (message k n))) s t"
proof -
  let ?s = "s\<lparr>connection_closed := 0\<rparr>" and ?N = "sint (num_iterations s)"
  let ?sent = "if is_server then [] else replicate (nat ?N) (map Some (message k n))"
  let ?fin = "if \<not> is_server then [] else [map Some (message k n)]"
  let ?m = "one_if (type = SEND_RECV_AM \<and> \<not> is_server)"
  have keep0: "cs_keeps s ?s" by simp
  have wf0: "cs_wf ?s" "held ?s = Some M" using cs_keeps_wf [OF keep0 s(1)] s(2) by simp_all
  have "\<exists>t. do_iterations E wk ep type is_server 0 ?N ?s = Some (0, max 0 ?N, t) \<and> cs_keeps ?s t \<and>
      carried lib ?m k n [0..?N - 1] (if is_server then [] else replicate (nat (?N - 0)) (map Some (message k n))) ?s t"
    by (rule iterations_carry [OF E type n wf0]) (use s in \<open>simp_all add: am_expected_def\<close>)
  then obtain s1 where s1: "do_iterations E wk ep type is_server 0 ?N ?s = Some (0, max 0 ?N, s1)" "cs_keeps ?s s1"
    "carried lib ?m k n [0..?N - 1] ?sent s s1"
    using lines_due_cong [of ?s s] by (auto simp: carried_def)
  obtain s2 where s2: "(if \<not> is_server \<and> type = SEND_RECV_AM then register_am_recv_callback E wk s1 else (UCS_OK, s1)) = (UCS_OK, s2)"
    "cs_keeps s1 s2" "carried lib ?m k n [] [] s1 s2"
    using register_carries [OF E, of s1 ?m] s1(3) by (auto simp: carried_def)
  have keep2: "cs_keeps ?s s2" using s1(2) s2(2) by (rule cs_keeps_trans)
  note cfg = cs_keeps_config [OF keep2] cs_keeps_config [OF s1(2)]
  have "cs_wf s2" using cs_keeps_wf [OF keep2 wf0(1)] .
  moreover have "am_last s2 = am_complete s2" "lib (world s2) = (None, 0 + ?m)" using s2(3) by (simp_all add: carried_def)
  ultimately obtain s3 where s3: "client_server_communication E wk ep type (\<not> is_server) (max 0 ?N + 1) s2 = Some (0, s3)"
    "carried lib 0 k n [max 0 ?N + 1] ?fin s2 s3"
    using transfer_carries [OF E type n, where s = s2 and m = 0 and is_server = "\<not> is_server" and
        ep = ep and i = "max 0 ?N + 1"] cfg s by auto
  have keep3: "num_iterations s3 = num_iterations s"
    using comm.xfer_keeps [OF \<open>cs_wf s2\<close> _ s3(1), of M] keep2 s(2) cs_keeps_config [of s2 s3] cfg
    by (simp add: cs_keeps_def)
  obtain t where t: "while_option (\<lambda>s. is_server \<and> connection_closed s = 0) (cs_progress E wk) s3 = Some t"
    "quiet_from lib (None, 0) s3 t"
    using wait_for_close_carries [OF E _ cl, where s = s3] s3(2) by (auto simp: carried_def)
  have c3: "carried lib 0 k n [] [] s3 t" using quiet_fromD [OF t(2)] s3(2) by (simp add: carried_def)
  have "carried lib 0 k n ((([0..?N - 1] @ []) @ [max 0 ?N + 1]) @ []) (((?sent @ []) @ ?fin) @ []) s t"
    by (rule carried_trans [OF carried_trans [OF carried_trans [OF s1(3) s2(3)] s3(2)] c3]) (use cfg keep3 in simp_all)
  moreover have "((?sent @ []) @ ?fin) @ [] = replicate (if is_server then 1 else nat ?N) (map Some (message k n))" by simp
  moreover have "client_server_do_work E wk ep type is_server s = Some (0, t)"
    using s1(1) s2(1) s3(1) t(1) by (auto simp: client_server_do_work_def)
  ultimately show ?thesis by simp
qed

section \<open>Properties\<close>

text \<open>A side that is ready for a session with \<open>k\<close> buffers of \<open>n\<close> bytes each, over a library that has nothing
  under way and, over active messages, the messages of the session to bring.\<close>

definition session_ready :: "('w \<Rightarrow> duties) \<Rightarrow> send_recv_type \<Rightarrow> bool \<Rightarrow> nat \<Rightarrow> nat \<Rightarrow> 'w cs \<Rightarrow> bool" where
  "session_ready lib type is_server k n s \<longleftrightarrow>
     cs_wf s \<and> held s \<noteq> None \<and> test_mem_type s = MEM_HOST \<and> unat (test_string_length s) = n \<and> unat (iov_cnt s) = k \<and>
     am_last s = am_complete s \<and> lib (world s) = (None, am_expected type is_server s)"

text \<open>
  C3: Both sides of a session, over any of the three APIs. Let the library of each side deliver the message
  of the session with every receive, at once or after some progress calls, interleaved with calls
  of the error handler at will; active messages eagerly or by rendezvous, at most one in a progress
  call and none while a transfer is under way; and let the library of the server report at some time
  that the peer has closed. Then a client and a server with the same options both return, with
  result 0; what each side posts is the message the other side receives, the client once per
  iteration and the server once at the end; both print the same lines; every active message has been
  consumed; and neither touches memory it does not own.
\<close>

theorem client_and_server_exchange_messages:
  fixes c :: "'w cs" and s :: "'v cs"
  assumes "carries Ec wkc lc (message k n)" and "carries Es wks ls (message k n)" and "closes Es wks"
    and "type \<in> {SEND_RECV_STREAM, SEND_RECV_TAG, SEND_RECV_AM}" and "0 < n" "n < 2 ^ 31"
    and "session_ready lc type False k n c" and "session_ready ls type True k n s"
    and "num_iterations s = num_iterations c"
  shows "\<exists>c' s'. client_server_do_work Ec wkc epc type False c = Some (0, c') \<and>
    client_server_do_work Es wks eps type True s = Some (0, s') \<and>
    sends (trace c') = sends (trace c) @ replicate (nat (sint (num_iterations c))) (map Some (message k n)) \<and>
    sends (trace s') = sends (trace s) @ [map Some (message k n)] \<and>
    lines (trace c') = lines (trace c) @ lines_due c k n (session_iterations c) \<and>
    lines (trace s') = lines (trace s) @ lines_due c k n (session_iterations c) \<and>
    am_last c' = am_complete c' \<and> am_last s' = am_complete s' \<and> faults c' = faults c \<and> faults s' = faults s"
proof -
  have l: "lines_due s k n (session_iterations s) = lines_due c k n (session_iterations c)"
    unfolding assms(9) by (rule lines_due_cong [OF assms(9)])
  obtain Mc Ms where M: "held c = Some Mc" "held s = Some Ms" using assms(7,8) by (auto simp: session_ready_def)
  obtain c' where c': "client_server_do_work Ec wkc epc type False c = Some (0, c')"
    "carried lc 0 k n (session_iterations c) (replicate (nat (sint (num_iterations c))) (map Some (message k n))) c c'"
    using session_carries [where is_server = False and wk = wkc and ep = epc, OF assms(1) _ assms(4-6) _ M(1)]
      assms(7) by (auto simp: session_ready_def simp del: lines_due_simps)
  obtain s' where s': "client_server_do_work Es wks eps type True s = Some (0, s')"
    "carried ls 0 k n (session_iterations s) (replicate 1 (map Some (message k n))) s s'"
    using session_carries [where is_server = True and wk = wks and ep = eps, OF assms(2,3,4-6) _ M(2)]
      assms(8) by (auto simp: session_ready_def simp del: lines_due_simps)
  from c' s' show ?thesis unfolding carried_def l by simp
qed

text \<open>
  A library that finishes every transfer in the next progress call, brings active messages by turns
  eagerly and by rendezvous, and reports the end of the connection when nothing else is to be done.
  Its world is what it has to do.
\<close>

definition deferring_env :: "byte list \<Rightarrow> (duties, cs_upcall) env" where
  "deferring_env data = obliging_env
     \<lparr>u_post := (\<lambda>c bs w. case context_of c of
                   Some ctx \<Rightarrow> ((ReqPtr 5, []), (Some (ctx, writes c data), snd w))
                 | None \<Rightarrow> ((ReqNull, []), w)),
      u_progress := (\<lambda>wk w. case w of
                   (Some (ctx, ds), m) \<Rightarrow> ((1, map UpWrite ds @ [UpSendCb (Some ctx) UCS_OK]), (None, m))
                 | (None, Suc m) \<Rightarrow>
                     ((1, [UpAmData 0 (if even m then AmEager data else AmRndv 7 (of_nat (length data)))]), (None, m))
                 | (None, 0) \<Rightarrow> ((1, [UpErrCb UCS_OK]), (None, 0)))\<rparr>"

lemma deferring_progress:
  "u_progress (deferring_env data) wk (Some (ctx, ds), m) = ((1, map UpWrite ds @ [UpSendCb (Some ctx) UCS_OK]), (None, m))"
  "u_progress (deferring_env data) wk (None, Suc m) =
     ((1, [UpAmData 0 (if even m then AmEager data else AmRndv 7 (of_nat (length data)))]), (None, m))"
  "u_progress (deferring_env data) wk (None, 0) = ((1, [UpErrCb UCS_OK]), (None, 0))"
  by (simp_all add: deferring_env_def)

lemma deferring_next:
  "next_world (deferring_env data) wk (Some p, m) = (None, m)"
  "next_world (deferring_env data) wk (None, Suc m) = (None, m)"
  by (cases p, simp_all add: next_world_def deferring_progress)

lemma deferring_env_carries: "carries (deferring_env data) wk id data" "closes (deferring_env data) wk"
proof -
  let ?E = "deferring_env data"
  have f: "filter (\<lambda>u. \<not> is_err u) (map UpWrite ds) = map UpWrite ds" for ds by (induction ds) simp_all
  have live: "\<exists>j. (next_world ?E wk ^^ j) w \<noteq> w" if "w \<noteq> (None, 0)" for w
  proof (rule exI [of _ "Suc 0"])
    obtain p m where w: "w = (p, m)" by fastforce
    with that show "(next_world ?E wk ^^ Suc 0) w \<noteq> w" by (cases p; cases m) (auto simp: deferring_next)
  qed
  have prog: "case u_progress ?E wk w of ((n, us), w') \<Rightarrow>
        filter (\<lambda>u. \<not> is_err u) us = [] \<and> w' = w \<or>
        (\<exists>ctx ds m u. w = (Some (ctx, ds), m) \<and> w' = (None, m) \<and> completion ctx u \<and>
           filter (\<lambda>u. \<not> is_err u) us = map UpWrite ds @ [u]) \<or>
        (\<exists>m hl msg. w = (None, Suc m) \<and> w' = (None, m) \<and> brings data msg \<and>
           filter (\<lambda>u. \<not> is_err u) us = [UpAmData hl msg])" for w
  proof -
    obtain p m where w: "w = (p, m)" by fastforce
    then show ?thesis by (cases p; cases m) (auto simp: deferring_progress f completion_def brings_def)
  qed
  have "early ?E c q w = []" for c q w by (simp add: early_def deferring_env_def)
  with live prog show "carries ?E wk id data"
    unfolding carries_def posted_as_def by (auto simp: deferring_env_def split: prod.splits)
  have none: "\<exists>j. (next_world ?E wk ^^ j) (None, m) = (None, 0)" for m
  proof (induction m)
    case (Suc m)
    then obtain j where "(next_world ?E wk ^^ j) (None, m) = (None, 0)" ..
    then have "(next_world ?E wk ^^ Suc j) (None, Suc m) = (None, 0)"
      by (simp add: funpow_Suc_right deferring_next del: funpow.simps)
    then show ?case ..
  qed (rule exI [of _ 0], simp)
  have "\<exists>j. (next_world ?E wk ^^ j) w = (None, 0)" for w
  proof -
    obtain p m where w: "w = (p, m)" by fastforce
    obtain j where j: "(next_world ?E wk ^^ j) (None, m) = (None, 0)" using none by blast
    then have "(next_world ?E wk ^^ Suc j) (Some q, m) = (None, 0)" for q
      by (simp add: funpow_Suc_right deferring_next del: funpow.simps)
    with j w show ?thesis by (cases p) blast+
  qed
  then show "closes ?E wk" unfolding closes_def using deferring_progress(3) [of data] by (metis fst_conv is_err.simps(1) list.set_intros(1) snd_conv)
qed

theorem client_and_server_exchange_messages_witness:
  "\<exists>c s. client_server_do_work (deferring_env (message 2 3)) 1 2 SEND_RECV_AM False
           (cs_init (None, 1)\<lparr>iov_cnt := 2, test_string_length := 3, num_iterations := 2\<rparr>) = Some (0, c) \<and>
         client_server_do_work (deferring_env (message 2 3)) 3 4 SEND_RECV_AM True
           (cs_init (None, 2)\<lparr>iov_cnt := 2, test_string_length := 3, num_iterations := 2\<rparr>) = Some (0, s) \<and>
         sends (trace c) = replicate 2 (map Some [65, 66, 0, 65, 66, 0]) \<and>
         sends (trace s) = [map Some [65, 66, 0, 65, 66, 0]] \<and>
         lines (trace c) = replicate 4 [65, 66] \<and> lines (trace s) = replicate 4 [65, 66]"
proof -
  let ?c = "cs_init (None, 1)\<lparr>iov_cnt := 2, test_string_length := 3, num_iterations := 2\<rparr> :: duties cs"
  let ?s = "cs_init (None, 2)\<lparr>iov_cnt := 2, test_string_length := 3, num_iterations := 2\<rparr> :: duties cs"
  have r: "session_ready id SEND_RECV_AM False 2 3 ?c" "session_ready id SEND_RECV_AM True 2 3 ?s"
    by (simp_all add: session_ready_def am_expected_def cs_wf_def wf_heap_def cs_init_def frame_iovs_def)
  have m: "message 2 3 = [65, 66, 0, 65, 66, 0]" by (simp add: message_def test_string_def letter_def upt_rec replicate_numeral)
  have l: "lines_due ?c 2 3 (session_iterations ?c) = replicate 4 [65, 66]"
    by (simp add: lines_due_def printed_def PRINT_INTERVAL_def letter_def upt_rec upto_rec1 replicate_numeral)
  show ?thesis
    using client_and_server_exchange_messages [where wkc = 1 and epc = 2 and wks = 3 and eps = 4,
        OF deferring_env_carries(1) deferring_env_carries _ _ _ r]
    unfolding l by (auto simp: cs_init_def m)
qed

section \<open>The client, from its command line to its end\<close>

text \<open>A library that also creates every object, and closes an endpoint at once or a little later.\<close>

definition opens :: "('w, cs_upcall, 'e) env_scheme \<Rightarrow> ('w \<Rightarrow> duties) \<Rightarrow> bool" where
  "opens E lib \<longleftrightarrow>
     (\<forall>c w. fst (fst (u_create E c w)) = UCS_OK \<and> lib (snd (u_create E c w)) = lib w) \<and>
     (\<forall>ep force bs w. snd (fst (u_post E (EpClose ep force) bs w)) = [] \<and>
        lib (snd (u_post E (EpClose ep force) bs w)) = lib w)"

text \<open>
  \<open>unheard s t\<close>: nothing is sent, printed or wrongly accessed, and no active message comes;
  \<open>silent lib s t\<close>: and the library has the same to do.
\<close>

definition unheard :: "'w cs \<Rightarrow> 'w cs \<Rightarrow> bool" where
  "unheard s t \<longleftrightarrow> faults t = faults s \<and> sends (trace t) = sends (trace s) \<and> lines (trace t) = lines (trace s) \<and>
     am_last t = am_last s \<and> am_complete t = am_complete s"

definition silent :: "('w \<Rightarrow> duties) \<Rightarrow> 'w cs \<Rightarrow> 'w cs \<Rightarrow> bool" where
  "silent lib s t \<longleftrightarrow> lib (world t) = lib (world s) \<and> unheard s t"

lemma unheard_refl [simp]: "unheard s s"
  by (simp add: unheard_def)

lemma unheard_trans [trans]: "unheard s t \<Longrightarrow> unheard t u \<Longrightarrow> unheard s u"
  by (simp add: unheard_def)

lemma silent_trans [trans]: "silent lib s t \<Longrightarrow> silent lib t u \<Longrightarrow> silent lib s u"
  by (simp add: silent_def unheard_def)

lemma silent_quiet: "quiet_from lib d s t \<Longrightarrow> lib (world s) = d \<Longrightarrow> silent lib s t"
  by (simp add: silent_def unheard_def quiet_fromD)

lemma call_void_silent: "carries E wk lib data \<Longrightarrow> silent lib s (call_void E c s)"
  by (simp add: silent_def unheard_def call_void_def carries_void)

lemma call_create_opens:
  assumes "opens E lib"
  obtains h t where "call_create E c s = ((UCS_OK, h), t)" "silent lib s t" "cs_same s t"
    "held t = monitor_step (held s) (EvCreate c UCS_OK h)" "am_last t = am_last s" "am_complete t = am_complete s"
proof -
  obtain st h w where u: "u_create E c (world s) = ((st, h), w)" by (metis surj_pair)
  have ok: "fst (fst (u_create E c (world s))) = UCS_OK" "lib (snd (u_create E c (world s))) = lib (world s)"
    using assms by (simp_all add: opens_def)
  then have "call_create E c s = ((UCS_OK, h), emit (EvCreate c UCS_OK h) (s\<lparr>world := w\<rparr>))"
    using u by (simp add: call_create_def)
  then show thesis by (rule that) (use u ok in \<open>simp_all add: silent_def unheard_def\<close>)
qed

lemma ep_close_carries:
  assumes E: "carries E wk lib data" and op: "opens E lib" and l: "lib (world s) = (None, 0)"
  shows "\<exists>t. ep_close E (cs_dispatch E) wk ep force s = Some t \<and> silent lib s t"
proof -
  obtain r ds w where u: "u_post E (EpClose ep force) [] (world s) = ((r, ds), w)" by (metis surj_pair)
  let ?s = "emit (EvPost (EpClose ep force) [] r) (s\<lparr>world := w\<rparr>)"
  have "snd (fst (u_post E (EpClose ep force) [] (world s))) = []"
      "lib (snd (u_post E (EpClose ep force) [] (world s))) = lib (world s)"
    using op by (simp_all add: opens_def)
  with u have post: "call_post E (EpClose ep force) [] s = (r, ?s)" and s1: "silent lib s ?s"
    by (simp_all add: call_post_def silent_def unheard_def)
  show ?thesis
  proof (cases r)
    case (ReqPtr q)
    let ?t = "cs_progress E wk ?s"
    have "lib (world ?s) = (None, 0)" using s1 l by (simp add: silent_def)
    note quiet = quiet_from_refl [of lib ?s, unfolded this]
    have q: "quiet_from lib (None, 0) ?s ?t"
      using E
    proof (cases rule: progress_carries [where s = ?s and wk = wk])
      case (quietly cc)
      with quiet_from_progress [OF quiet, of "next_world E wk (world ?s)" cc "WorkerProgress wk"] \<open>lib (world ?s) = (None, 0)\<close>
      show ?thesis by simp
    qed (use \<open>lib (world ?s) = (None, 0)\<close> in simp_all)
    have "ucp_request_check_status E q ?t = UCS_OK"
      using carries_check [OF E quiet_fromD(1) [OF q]] by (simp add: ucp_request_check_status_def)
    then have "progress_request E (cs_dispatch E) wk q ?s = Some (UCS_OK, ?t)"
      by (simp add: progress_request_def while_option_done)
    then have "ep_close E (cs_dispatch E) wk ep force s = Some (call_void E (ReqFree q) ?t)"
      using post ReqPtr by (simp add: ep_close_def)
    moreover have "silent lib s (call_void E (ReqFree q) ?t)"
      by (rule silent_trans [OF silent_trans [OF s1 silent_quiet [OF q]] call_void_silent [OF E]]) fact
    ultimately show ?thesis by blast
  qed (use post s1 in \<open>auto simp: ep_close_def\<close>)
qed

lemma run_client_carries:
  fixes s :: "'w cs"
  assumes E: "carries E wk lib (message k n)" and op: "opens E lib"
    and type: "type \<in> {SEND_RECV_STREAM, SEND_RECV_TAG, SEND_RECV_AM}" and n: "0 < n" "n < 2 ^ 31"
    and s: "session_ready lib type False k n s"
  shows "\<exists>t. run_client E wk addr type s = Some (0, t) \<and> faults t = faults s \<and>
    sends (trace t) = sends (trace s) @ replicate (nat (sint (num_iterations s))) (map Some (message k n)) \<and>
    lines (trace t) = lines (trace s) @ lines_due s k n (session_iterations s)"
proof -
  obtain M where M: "held s = Some M" using s by (auto simp: session_ready_def)
  obtain ep s1 where c: "call_create E (EpCreateSock wk (set_sock_addr E (Some addr) s)) s = ((UCS_OK, ep), s1)"
    and s1: "silent lib s s1" "cs_same s s1" "held s1 = monitor_step (held s) (EvCreate (EpCreateSock wk (set_sock_addr E (Some addr) s)) UCS_OK ep)"
      "am_last s1 = am_last s" "am_complete s1 = am_complete s"
    using call_create_opens [OF op] by metis
  have M1: "held s1 = Some (add_mset (REp ep) M)" using s1(3) M by (simp add: monitor_step_def)
  have cfg: "test_mem_type s1 = test_mem_type s" "test_string_length s1 = test_string_length s" "iov_cnt s1 = iov_cnt s"
      "num_iterations s1 = num_iterations s"
    using s1(2) by (simp_all add: cs_same_def cs_config_def)
  have "lib (world s1) = (None, am_expected type False s1)"
    using s s1(1) by (simp add: session_ready_def silent_def am_expected_def)
  then obtain s2 where s2: "client_server_do_work E wk ep type False s1 = Some (0, s2)"
    "carried lib 0 k n (session_iterations s1)
      (replicate (if False then 1 else nat (sint (num_iterations s1))) (map Some (message k n))) s1 s2"
    using session_carries [where is_server = False and wk = wk and ep = ep, OF E _ type n _ M1] s cfg s1(2,4,5)
    by (auto simp: session_ready_def cs_same_wf simp del: lines_due_simps)
  have "lib (world s2) = (None, 0)" using s2(2) by (simp add: carried_def)
  then obtain t where t: "ep_close E (cs_dispatch E) wk ep True s2 = Some t" "silent lib s2 t"
    using ep_close_carries [OF E op] by blast
  have "run_client E wk addr type s = Some (0, t)"
    using c s2(1) t(1) by (simp add: run_client_def start_client_def)
  moreover have "lines_due s1 k n (session_iterations s1) = lines_due s k n (session_iterations s)"
    unfolding cfg by (rule lines_due_cong) (rule cfg)
  ultimately show ?thesis
    using s1(1) s2(2) t(2) cfg by (auto simp: carried_def silent_def unheard_def simp del: lines_due_simps)
qed

text \<open>The command line only ever selects one of the three APIs.\<close>

lemma parse_opts_type:
  "parse_opts E os a s = (ret, a', t) \<Longrightarrow> arg_type a \<in> {SEND_RECV_STREAM, SEND_RECV_TAG, SEND_RECV_AM} \<Longrightarrow>
   arg_type a' \<in> {SEND_RECV_STREAM, SEND_RECV_TAG, SEND_RECV_AM}"
proof (induction os arbitrary: a s)
  case (Cons p os)
  obtain c x where p: "p = (c, x)" by fastforce
  obtain r a1 s1 where o: "parse_opt E c (case x of None \<Rightarrow> [] | Some x \<Rightarrow> x) a s = (r, a1, s1)" by (metis prod_cases3)
  then have "arg_type a1 \<in> {SEND_RECV_STREAM, SEND_RECV_TAG, SEND_RECV_AM}"
    using Cons.prems(2) by (auto simp: parse_opt_def parse_send_recv_type_def Let_def split: if_splits)
  with Cons o p show ?case by (auto split: if_splits)
qed simp

lemma init_context_carries:
  assumes op: "opens E lib" and M: "held s = Some M"
  obtains ctx wk t where "init_context E type s = (0, ctx, wk, t)" "silent lib s t" "cs_same s t"
    "held t = Some (add_mset (RWorker wk) (add_mset (RContext ctx) M))" "am_last t = am_last s" "am_complete t = am_complete s"
proof -
  let ?c = "UcpInit (if type = SEND_RECV_STREAM then [FEATURE_STREAM]
                      else if type = SEND_RECV_TAG then [FEATURE_TAG] else [FEATURE_AM])"
  obtain ctx s1 where 1: "call_create E ?c s = ((UCS_OK, ctx), s1)" "silent lib s s1" "cs_same s s1"
    "held s1 = monitor_step (held s) (EvCreate ?c UCS_OK ctx)" "am_last s1 = am_last s" "am_complete s1 = am_complete s"
    using call_create_opens [OF op] by metis
  obtain wk t where 2: "call_create E (WorkerCreate ctx) s1 = ((UCS_OK, wk), t)" "silent lib s1 t" "cs_same s1 t"
    "held t = monitor_step (held s1) (EvCreate (WorkerCreate ctx) UCS_OK wk)" "am_last t = am_last s1" "am_complete t = am_complete s1"
    using call_create_opens [OF op] by metis
  show thesis
  proof (rule that)
    show "init_context E type s = (0, ctx, wk, t)" using 1(1) 2(1) by (simp add: init_context_def init_worker_def)
    show "silent lib s t" using 1(2) 2(2) by (rule silent_trans)
    show "cs_same s t" using 1(3) 2(3) by (rule cs_same_trans)
    show "held t = Some (add_mset (RWorker wk) (add_mset (RContext ctx) M))" using 1(4) 2(4) M by (simp add: monitor_step_def)
  qed (use 1 2 in simp_all)
qed

text \<open>
  C4: The client from its command line to its end. When the options name a server and describe messages
  of at least one and less than \<open>2 ^ 31\<close> bytes in host memory, and the library creates objects and
  carries the messages, \<open>main\<close> returns 0; it has sent the message of the options once per
  iteration, has printed the strings of each iteration that is due and of the reply, and has
  touched no memory it does not own.
\<close>

theorem client_program_exchanges_messages:
  assumes parsed: "parse_cmd E argv \<lparr>arg_server_addr = None, arg_listen_addr = None, arg_type = SEND_RECV_DEFAULT\<rparr> (cs_init w) =
      (0, a, s)" and "status_code E UCS_ERR_UNSUPPORTED \<noteq> 0"
    and "arg_server_addr a = Some addr" and "test_mem_type s = MEM_HOST"
    and "unat (test_string_length s) = n" "0 < n" "n < 2 ^ 31" and "unat (iov_cnt s) = k"
    and "\<And>wk. carries E wk lib (message k n)" and "opens E lib" and "lib w = (None, am_expected (arg_type a) False s)"
  shows "\<exists>t. cs_main E argv (cs_init w) = Some (0, t) \<and>
    sends (trace t) = replicate (nat (sint (num_iterations s))) (map Some (message k n)) \<and>
    lines (trace t) = lines_due s k n (session_iterations s) \<and> faults t = []"
proof -
  note E = assms(9)
  have proc: "cs_process s = cs_process (cs_init w)" and opts: "cs_options_ok s"
    and type: "arg_type a \<in> {SEND_RECV_STREAM, SEND_RECV_TAG, SEND_RECV_AM}"
    using parse_opts_process [OF parsed [unfolded parse_cmd_def]]
      parse_opts_ok [OF parsed [unfolded parse_cmd_def] cs_options_ok_init assms(2)]
      parse_opts_type [OF parsed [unfolded parse_cmd_def]] by simp_all
  note wf = cs_process_wf [OF proc cs_wf_init(1) opts]
  have start: "trace s = []" "faults s = []" "world s = w" "am_last s = am_complete s"
    using proc by (simp_all add: cs_process_def cs_init_def)
  obtain ctx wk s1 where i: "init_context E (arg_type a) s = (0, ctx, wk, s1)" and s1: "silent lib s s1" "cs_same s s1"
    "held s1 = Some (add_mset (RWorker wk) (add_mset (RContext ctx) {#}))" "am_last s1 = am_last s" "am_complete s1 = am_complete s"
    using init_context_carries [OF assms(10) wf(2) [unfolded cs_wf_init(2)]] by metis
  have cfg: "test_mem_type s1 = test_mem_type s" "test_string_length s1 = test_string_length s" "iov_cnt s1 = iov_cnt s"
      "num_iterations s1 = num_iterations s"
    using s1(2) by (simp_all add: cs_same_def cs_config_def)
  have "session_ready lib (arg_type a) False k n s1"
    using s1 cfg assms(4,5,8,11) start cs_same_wf [OF s1(2) wf(1)]
    by (simp add: session_ready_def silent_def am_expected_def)
  from run_client_carries [OF E assms(10) type assms(6,7) this, of wk addr] obtain s2 where
      s2: "run_client E wk addr (arg_type a) s1 = Some (0, s2)" "faults s2 = faults s1"
    "sends (trace s2) = sends (trace s1) @ replicate (nat (sint (num_iterations s1))) (map Some (message k n))"
    "lines (trace s2) = lines (trace s1) @ lines_due s1 k n (session_iterations s1)" by blast
  have "lines_due s1 k n (session_iterations s1) = lines_due s k n (session_iterations s)"
    unfolding cfg by (rule lines_due_cong) (rule cfg)
  moreover have "cs_main E argv (cs_init w) = Some (0, call_void E (UcpCleanup ctx) (call_void E (WorkerDestroy wk) s2))"
    using parsed assms(3) i s2(1) by (simp add: cs_main_def)
  moreover have "silent lib s2 (call_void E (UcpCleanup ctx) (call_void E (WorkerDestroy wk) s2))"
    using call_void_silent [OF E] call_void_silent [OF E] by (rule silent_trans)
  ultimately show ?thesis
    using s1(1) s2 start cfg by (auto simp: silent_def unheard_def simp del: lines_due_simps)
qed

lemma deferring_env_opens: "opens (deferring_env data) id"
  by (simp add: opens_def deferring_env_def)

theorem client_program_exchanges_messages_witness:
  "\<exists>t. cs_main (deferring_env (message 1 3)) [''-a'', ''h'', ''-c'', ''am'', ''-i2'', ''-s3''] (cs_init (None, 1)) = Some (0, t) \<and>
     sends (trace t) = replicate 2 (map Some [65, 66, 0]) \<and> lines (trace t) = replicate 2 [65, 66] \<and> faults t = []"
proof -
  let ?E = "deferring_env (message 1 3)"
  let ?a = "\<lparr>arg_server_addr = None, arg_listen_addr = None, arg_type = SEND_RECV_DEFAULT\<rparr>"
  let ?s = "cs_init (None, 1)\<lparr>num_iterations := 2, test_string_length := 3\<rparr> :: duties cs"
  have p: "parse_cmd ?E [''-a'', ''h'', ''-c'', ''am'', ''-i2'', ''-s3''] ?a (cs_init (None, 1)) =
      (0, \<lparr>arg_server_addr = Some ''h'', arg_listen_addr = None, arg_type = SEND_RECV_AM\<rparr>, ?s)"
    by (simp add: run_simps cong: run_congs)
  have m: "message 1 3 = [65, 66, 0]" by (simp add: message_def test_string_def letter_def upt_rec)
  have l: "lines_due ?s 1 3 (session_iterations ?s) = replicate 2 [65, 66]"
    by (simp add: lines_due_def printed_def PRINT_INTERVAL_def letter_def upt_rec upto_rec1 replicate_numeral)
  have "\<exists>t. cs_main ?E [''-a'', ''h'', ''-c'', ''am'', ''-i2'', ''-s3''] (cs_init (None, 1)) = Some (0, t) \<and>
    sends (trace t) = replicate (nat (sint (num_iterations ?s))) (map Some (message 1 3)) \<and>
    lines (trace t) = lines_due ?s 1 3 (session_iterations ?s) \<and> faults t = []"
    by (rule client_program_exchanges_messages [OF p _ _ _ _ _ _ _ deferring_env_carries(1) deferring_env_opens])
      (simp_all add: cs_init_def am_expected_def, simp add: deferring_env_def)
  then show ?thesis unfolding l m by simp
qed

end
