(* ===== verification/Cs_Serve.thy ===== *)
theory Cs_Serve
  imports Cs_Run
begin

text \<open>
  The server of \<open>ucp_client_server\<close> over a library that carries the messages: a round of its loop
  serves one client, and the loop serves any number of them and never ends.
\<close>

section \<open>A library that brings clients\<close>

text \<open>
  \<open>accepts E wk lib m\<close>: sooner or later a progress call on the listening worker \<open>wk\<close> brings connection
  requests, one or more, with each of them \<open>m\<close> active messages to come later; until then it does
  nothing but call the error handler. The calls that answer with a status succeed.
\<close>

definition accepts :: "('w, cs_upcall, 'e) env_scheme \<Rightarrow> nat \<Rightarrow> ('w \<Rightarrow> duties) \<Rightarrow> nat \<Rightarrow> bool" where
  "accepts E wk lib m \<longleftrightarrow>
     (\<forall>c w. fst (u_status E c w) = UCS_OK \<and> lib (snd (u_status E c w)) = lib w) \<and>
     (\<forall>w. lib w = (None, 0) \<longrightarrow> (case u_progress E wk w of ((n, us), w') \<Rightarrow>
        filter (\<lambda>u. \<not> is_err u) us = [] \<and> lib w' = (None, 0) \<or>
        (\<exists>conn conns. filter (\<lambda>u. \<not> is_err u) us = map UpConnRequest (conn # conns) \<and> lib w' = (None, m)))) \<and>
     (\<forall>w. lib w = (None, 0) \<longrightarrow>
        (\<exists>n. \<exists>u \<in> set (snd (fst (u_progress E wk ((next_world E wk ^^ n) w)))). \<not> is_err u))"

lemma accepts_status:
  assumes "accepts E wk lib m"
  shows "fst (u_status E c w) = UCS_OK" "lib (snd (u_status E c w)) = lib w"
  using assms by (simp_all add: accepts_def)

lemma accepts_progress:
  assumes "accepts E wk lib m" "lib w = (None, 0)" "u_progress E wk w = ((n, us), w')"
  obtains (idle) "filter (\<lambda>u. \<not> is_err u) us = []" "lib w' = (None, 0)"
  | (knocked) conn conns where "filter (\<lambda>u. \<not> is_err u) us = map UpConnRequest (conn # conns)" "lib w' = (None, m)"
  using assms(1) [unfolded accepts_def, THEN conjunct2, THEN conjunct1, rule_format, OF assms(2)] assms(3) by auto

lemma accepts_live:
  "accepts E wk lib m \<Longrightarrow> lib w = (None, 0) \<Longrightarrow>
   \<exists>n. \<exists>u \<in> set (snd (fst (u_progress E wk ((next_world E wk ^^ n) w)))). \<not> is_err u"
  by (simp add: accepts_def)

lemma call_status_accepts:
  assumes "accepts E wk lib m"
  obtains t where "call_status E c s = (UCS_OK, t)" "silent lib s t" "conn_request t = conn_request s"
    "cs_same s t" "held t = monitor_step (held s) (EvStatus c UCS_OK)" "cs_listener t = cs_listener s"
proof -
  obtain st w where u: "u_status E c (world s) = (st, w)" by fastforce
  with accepts_status [OF assms, of c "world s"] have ok: "st = UCS_OK" "lib w = lib (world s)" by simp_all
  show thesis
    by (rule that [of "emit (EvStatus c UCS_OK) (s\<lparr>world := w\<rparr>)"])
      (use u ok in \<open>simp_all add: call_status_def silent_def unheard_def\<close>)
qed

section \<open>The wait for a client\<close>

lemma conn_handle_accepts:
  assumes "accepts E wk lib m"
  shows "silent lib s (server_conn_handle_cb E conn s) \<and> conn_request (server_conn_handle_cb E conn s) \<noteq> None"
proof -
  obtain s1 where s1: "call_status E (ConnQuery conn) s = (UCS_OK, s1)" "silent lib s s1" "conn_request s1 = conn_request s"
    using call_status_accepts [OF assms, of "ConnQuery conn" s] by metis
  show ?thesis
  proof (cases "conn_request s")
    case None
    with s1 show ?thesis by (simp add: server_conn_handle_cb_def silent_def unheard_def)
  next
    case (Some old)
    obtain s2 where "call_status E (ListenerReject (cs_listener s1) conn) s1 = (UCS_OK, s2)" "silent lib s1 s2"
        "conn_request s2 = conn_request s1"
      using call_status_accepts [OF assms, of "ListenerReject (cs_listener s1) conn" s1] by metis
    with s1 Some show ?thesis by (auto simp: server_conn_handle_cb_def intro: silent_trans)
  qed
qed

lemma conn_requests_accepts:
  assumes "accepts E wk lib m"
  shows "silent lib s (fold (cs_dispatch E) (map UpConnRequest (conn # conns)) s) \<and>
    conn_request (fold (cs_dispatch E) (map UpConnRequest (conn # conns)) s) \<noteq> None"
proof (induction conns arbitrary: conn s)
  case Nil
  show ?case using conn_handle_accepts [OF assms] by simp
next
  case (Cons c conns)
  with conn_handle_accepts [OF assms, of s conn] show ?case by (auto intro: silent_trans)
qed

lemma accept_wait:
  fixes s :: "'w cs"
  assumes E: "accepts E wk lib m" and l: "lib (world s) = (None, 0)" and none: "conn_request s = None"
  shows "\<exists>t. while_option (\<lambda>s. conn_request s = None) (cs_progress E wk) s = Some t \<and>
    conn_request t \<noteq> None \<and> lib (world t) = (None, m) \<and> unheard s t"
proof -
  let ?Q = "\<lambda>u. lib (world u) = (None, 0) \<and> conn_request u = None \<and> unheard s u"
  let ?R = "\<lambda>u. conn_request u \<noteq> None \<and> lib (world u) = (None, m) \<and> unheard s u"
  let ?X = "\<lambda>w. \<exists>u \<in> set (snd (fst (u_progress E wk w))). \<not> is_err u"
  have step: "?R (cs_progress E wk u) \<or> ?Q (cs_progress E wk u) \<and>
      world (cs_progress E wk u) = next_world E wk (world u) \<and> \<not> ?X (world u)" if Q: "?Q u" for u
  proof -
    obtain n us w where p: "u_progress E wk (world u) = ((n, us), w)" by (metis surj_pair)
    define u1 where "u1 = u\<lparr>world := w, trace := trace u @ [EvVoid (WorkerProgress wk)]\<rparr>"
    have t: "cs_progress E wk u = fold (cs_dispatch E) us u1"
      by (simp add: ucp_worker_progress_def p u1_def emit_def)
    have u1: "unheard s u1" "conn_request u1 = None" "world u1 = w"
      using Q by (simp_all add: u1_def unheard_def)
    from E conjunct1 [OF Q] p show ?thesis
    proof (cases rule: accepts_progress)
      case idle
      have "\<forall>u\<in>set us. is_err u" using idle(1) by (simp add: filter_empty_conv)
      with idle u1 show ?thesis
        by (auto simp: t p fold_errors [OF idle(1)] next_world_def unheard_def)
    next
      case (knocked conn conns)
      let ?v = "fold (cs_dispatch E) (map UpConnRequest (conn # conns)) u1"
      obtain cc where "cs_progress E wk u = ?v\<lparr>connection_closed := cc\<rparr>"
        using dispatch_errors [of E us u1] knocked(1) t by metis
      moreover have "silent lib u1 ?v" "conn_request ?v \<noteq> None" using conn_requests_accepts [OF E] by blast+
      ultimately show ?thesis using knocked(2) u1 by (simp add: silent_def unheard_def)
    qed
  qed
  obtain n where "?X ((next_world E wk ^^ n) (world s))" using accepts_live [OF E l] by blast
  moreover have "?Q s" using l none by simp
  ultimately have "\<exists>t. while_option (\<lambda>s. conn_request s = None) (cs_progress E wk) s = Some t \<and> ?R t"
    by (intro wait_ends [where Q = ?Q and R = ?R and X = ?X]) (use step in blast)+
  then show ?thesis by blast
qed

section \<open>One round of the server\<close>

text \<open>The server between two clients.\<close>

definition server_idle :: "('w \<Rightarrow> duties) \<Rightarrow> nat \<Rightarrow> nat \<Rightarrow> 'w cs \<Rightarrow> bool" where
  "server_idle lib k n s \<longleftrightarrow>
     cs_wf s \<and> held s \<noteq> None \<and> test_mem_type s = MEM_HOST \<and> unat (test_string_length s) = n \<and> unat (iov_cnt s) = k \<and>
     am_last s = am_complete s \<and> lib (world s) = (None, 0) \<and> conn_request s = None"

text \<open>
  \<open>served k n j s t\<close>: from \<open>s\<close> to \<open>t\<close> the server has answered \<open>j\<close> clients with the message, and has printed
  the lines of each session.
\<close>

definition served :: "nat \<Rightarrow> nat \<Rightarrow> nat \<Rightarrow> 'w cs \<Rightarrow> 'w cs \<Rightarrow> bool" where
  "served k n j s t \<longleftrightarrow> faults t = faults s \<and> held t = held s \<and> num_iterations t = num_iterations s \<and>
     sends (trace t) = sends (trace s) @ replicate j (map Some (message k n)) \<and>
     lines (trace t) = lines (trace s) @ concat (replicate j (lines_due s k n (session_iterations s)))"

lemma served_0: "served k n 0 s s"
  by (simp add: served_def)

lemma served_Suc:
  assumes "served k n 1 s t" "served k n j t u" shows "served k n (Suc j) s u"
proof -
  have N: "num_iterations t = num_iterations s" using assms(1) by (simp add: served_def)
  have "lines_due t k n (session_iterations t) = lines_due s k n (session_iterations s)"
    unfolding N by (rule lines_due_cong) (rule N)
  with assms N show ?thesis by (simp add: served_def del: lines_due_simps)
qed

lemma serve_client_carries:
  fixes s :: "'w cs"
  assumes A: "accepts E wk lib m" and E: "carries E dw lib (message k n)" and cl: "closes E dw" and op: "opens E lib"
    and type: "type \<in> {SEND_RECV_STREAM, SEND_RECV_TAG, SEND_RECV_AM}" and n: "0 < n" "n < 2 ^ 31"
    and s: "server_idle lib k n s" and m: "m = am_expected type True s"
  shows "\<exists>t. serve_client E wk dw type s = Some (Inl t) \<and> server_idle lib k n t \<and> served k n 1 s t"
proof -
  obtain M where M: "held s = Some M" and wf: "cs_wf s" using s by (auto simp: server_idle_def)
  have s0: "lib (world s) = (None, 0)" "conn_request s = None" using s by (simp_all add: server_idle_def)
  obtain s1 where w: "while_option (\<lambda>s. conn_request s = None) (cs_progress E wk) s = Some s1"
    and s1: "conn_request s1 \<noteq> None" "lib (world s1) = (None, m)" "unheard s s1"
    using accept_wait [OF A s0] by blast
  obtain conn where conn: "conn_request s1 = Some conn" using s1(1) by blast
  have k1: "cs_keeps s s1" using cs.wait_R [OF w] by (rule cs_frame_keeps)
  have M1: "held s1 = Some M" using k1 M by (simp add: cs_keeps_def)
  obtain ep s2 where c: "call_create E (EpCreateConn dw conn) s1 = ((UCS_OK, ep), s2)"
    and s2: "silent lib s1 s2" "cs_same s1 s2" "held s2 = monitor_step (held s1) (EvCreate (EpCreateConn dw conn) UCS_OK ep)"
    using call_create_opens [OF op] by metis
  have M2: "held s2 = Some (add_mset (REp ep) M)" using s2(3) M1 by (simp add: monitor_step_def)
  have same: "cs_same s s2" using cs_keeps_same [OF k1] s2(2) by (rule cs_same_trans)
  have cfg: "test_mem_type s2 = test_mem_type s" "test_string_length s2 = test_string_length s" "iov_cnt s2 = iov_cnt s"
      "num_iterations s2 = num_iterations s"
    using same by (simp_all add: cs_same_def cs_config_def)
  have "am_last s2 = am_complete s2" "lib (world s2) = (None, am_expected type True s2)"
    using s s1 s2(1) m cfg by (simp_all add: server_idle_def unheard_def silent_def am_expected_def)
  then obtain s3 where d: "client_server_do_work E dw ep type True s2 = Some (0, s3)"
    and s3: "carried lib 0 k n (session_iterations s2) (replicate 1 (map Some (message k n))) s2 s3"
    using session_carries [where is_server = True and wk = dw and ep = ep, OF E cl type n cs_same_wf [OF same wf] M2] s cfg
    by (auto simp: server_idle_def simp del: lines_due_simps)
  have l3: "lib (world s3) = (None, 0)" using s3 by (simp add: carried_def)
  obtain s4 where e: "ep_close E (cs_dispatch E) dw ep True s3 = Some s4" and s4: "silent lib s3 s4"
    using ep_close_carries [OF E op l3] by blast
  let ?t = "s4\<lparr>conn_request := None\<rparr>"
  have run: "serve_client E wk dw type s = Some (Inl ?t)"
    using w conn c d e by (simp add: serve_client_def server_create_ep_def)
  have t: "cs_same s ?t" "held ?t = Some M" using serve_client_cases [OF run wf M] by simp_all
  have cfg': "test_mem_type ?t = test_mem_type s" "test_string_length ?t = test_string_length s" "iov_cnt ?t = iov_cnt s"
      "num_iterations ?t = num_iterations s"
    using t(1) by (simp_all add: cs_same_def cs_config_def)
  have "server_idle lib k n ?t"
    using s s3 s4 t(2) cfg' cs_same_wf [OF t(1) wf] by (simp add: server_idle_def carried_def silent_def unheard_def)
  moreover have "lines_due s2 k n (session_iterations s2) = lines_due s k n (session_iterations s)"
    unfolding cfg by (rule lines_due_cong) (rule cfg)
  then have "served k n 1 s ?t"
    using s1(3) s2(1) s3 s4 t(2) M cfg'(4)
    by (simp add: served_def carried_def silent_def unheard_def del: lines_due_simps)
  ultimately show ?thesis using run by blast
qed

section \<open>The loop\<close>

text \<open>\<open>j\<close> rounds of a loop body, none of which leaves the loop.\<close>

fun rounds :: "('s \<Rightarrow> ('s + 'r) option) \<Rightarrow> nat \<Rightarrow> 's \<Rightarrow> 's \<Rightarrow> bool" where
  "rounds b 0 s t \<longleftrightarrow> t = s"
| "rounds b (Suc j) s t \<longleftrightarrow> (case b s of Some (Inl u) \<Rightarrow> rounds b j u t | _ \<Rightarrow> False)"

lemma loop_endless:
  assumes "P s" and "\<And>t. P t \<Longrightarrow> \<exists>u. b t = Some (Inl u) \<and> P u"
  shows "loop b s = None"
proof (cases "loop b s")
  case (Some r)
  have False by (rule loop_rule [where P = P and Q = "\<lambda>_. False", OF Some assms(1)]) (use assms(2) in force)+
  then show ?thesis ..
qed

lemma serve_rounds:
  fixes s :: "'w cs"
  assumes A: "accepts E wk lib m" and E: "carries E dw lib (message k n)" and cl: "closes E dw" and op: "opens E lib"
    and type: "type \<in> {SEND_RECV_STREAM, SEND_RECV_TAG, SEND_RECV_AM}" and n: "0 < n" "n < 2 ^ 31"
  shows "server_idle lib k n s \<Longrightarrow> m = am_expected type True s \<Longrightarrow>
    \<exists>t. rounds (serve_client E wk dw type) j s t \<and> server_idle lib k n t \<and> served k n j s t"
proof (induction j arbitrary: s)
  case 0
  then show ?case using served_0 by auto
next
  case (Suc j)
  obtain u where u: "serve_client E wk dw type s = Some (Inl u)" "server_idle lib k n u" "served k n 1 s u"
    using serve_client_carries [OF A E cl op type n Suc.prems] by blast
  have "m = am_expected type True u" using Suc.prems(2) u(3) by (simp add: served_def am_expected_def)
  from Suc.IH [OF u(2) this] obtain t where
    "rounds (serve_client E wk dw type) j u t" "server_idle lib k n t" "served k n j u t" by blast
  with u served_Suc [OF u(3)] show ?case by auto
qed

lemma serve_endless:
  fixes s :: "'w cs"
  assumes A: "accepts E wk lib m" and E: "carries E dw lib (message k n)" and cl: "closes E dw" and op: "opens E lib"
    and type: "type \<in> {SEND_RECV_STREAM, SEND_RECV_TAG, SEND_RECV_AM}" and n: "0 < n" "n < 2 ^ 31"
    and s: "server_idle lib k n s" "m = am_expected type True s"
  shows "loop (serve_client E wk dw type) s = None"
proof (rule loop_endless [where P = "\<lambda>u. server_idle lib k n u \<and> m = am_expected type True u"])
  fix t assume t: "server_idle lib k n t \<and> m = am_expected type True t"
  then obtain u where "serve_client E wk dw type t = Some (Inl u)" "server_idle lib k n u" "served k n 1 t u"
    using serve_client_carries [OF A E cl op type n] by blast
  then show "\<exists>u. serve_client E wk dw type t = Some (Inl u) \<and> server_idle lib k n u \<and> m = am_expected type True u"
    using t by (auto simp: served_def am_expected_def)
qed (use s in simp)

section \<open>The start of the server\<close>

lemma server_idle_trans:
  assumes "server_idle lib k n (s\<lparr>conn_request := None\<rparr>)" "silent lib s t" "cs_same s t" "held t \<noteq> None" "conn_request t = None"
  shows "server_idle lib k n t"
proof -
  have "cs_same (s\<lparr>conn_request := None\<rparr>) t"
    using assms(3) by (simp add: cs_same_def cs_config_def heap_shape_def frame_iovs_def fun_eq_iff)
  with assms cs_same_wf [OF this] show ?thesis
    by (simp add: server_idle_def silent_def unheard_def cs_same_def cs_config_def)
qed

lemma silent_upd [simp]:
  "silent lib s (t\<lparr>conn_request := c\<rparr>) \<longleftrightarrow> silent lib s t" "silent lib s (t\<lparr>cs_listener := l\<rparr>) \<longleftrightarrow> silent lib s t"
  "silent lib (s\<lparr>conn_request := c\<rparr>) t \<longleftrightarrow> silent lib s t" "silent lib (s\<lparr>cs_listener := l\<rparr>) t \<longleftrightarrow> silent lib s t"
  by (simp_all add: silent_def unheard_def)

lemma start_server_accepts:
  assumes A: "accepts E wk lib m" and op: "opens E lib" and M: "held s = Some M"
  obtains t where "start_server E wk addr s = (UCS_OK, t)" "silent lib s t" "conn_request t = conn_request s"
proof -
  let ?c = "ListenerCreate wk (set_sock_addr E addr s)"
  obtain l s1 where c: "call_create E ?c s = ((UCS_OK, l), s1)" "silent lib s s1"
    using call_create_opens [OF op] by metis
  obtain s2 where q: "call_status E (ListenerQuery l) (s1\<lparr>cs_listener := l\<rparr>) = (UCS_OK, s2)"
      "silent lib (s1\<lparr>cs_listener := l\<rparr>) s2" "conn_request s2 = conn_request (s1\<lparr>cs_listener := l\<rparr>)"
    using call_status_accepts [OF A] by metis
  have "start_server E wk addr s = (UCS_OK, s2)" using c(1) q(1) by (simp add: start_server_def)
  moreover have "silent lib s s2" using c(2) q(2) by (auto intro: silent_trans)
  moreover have "conn_request s2 = conn_request s" using q(3) call_create_same(4) [OF c(1)] by simp
  ultimately show thesis by (rule that)
qed

lemma run_server_starts:
  assumes A: "accepts E wk lib m" and op: "opens E lib" and new: "\<And>c w. snd (fst (u_create E (WorkerCreate c) w)) \<noteq> wk"
    and s: "server_idle lib k n (s\<lparr>conn_request := None\<rparr>)"
  obtains dw s1 s2 s0 where "init_worker E ctx s = (0, dw, s1)" "dw \<noteq> wk"
    "(if type = SEND_RECV_AM then register_am_recv_callback E dw s1 else (UCS_OK, s1)) = (UCS_OK, s2)"
    "start_server E wk addr (s2\<lparr>conn_request := None\<rparr>) = (UCS_OK, s0)"
    "server_idle lib k n s0" "silent lib s s0" "num_iterations s0 = num_iterations s"
proof -
  obtain M where M: "held s = Some M" using s by (auto simp: server_idle_def)
  obtain dw s1 where c: "call_create E (WorkerCreate ctx) s = ((UCS_OK, dw), s1)" "silent lib s s1"
    using call_create_opens [OF op] by metis
  have dw: "dw \<noteq> wk" using c(1) new [of ctx "world s"] by (auto simp: call_create_def split: prod.splits)
  have i: "init_worker E ctx s = (0, dw, s1)" using c(1) by (simp add: init_worker_def)
  from init_worker_cases [OF i M] have k1: "cs_same s s1" "held s1 = Some (add_mset (RWorker dw) M)" by auto
  obtain r where r: "call_status E (SetAmHandler dw TEST_AM_ID) s1 = (UCS_OK, r)" "silent lib s1 r"
    using call_status_accepts [OF A] by metis
  define s2 where "s2 = (if type = SEND_RECV_AM then r else s1)"
  have reg: "(if type = SEND_RECV_AM then register_am_recv_callback E dw s1 else (UCS_OK, s1)) = (UCS_OK, s2)"
    using r(1) by (simp add: s2_def register_am_recv_callback_def)
  have k2: "cs_same s1 s2" "held s2 = held s1" "silent lib s s2"
    using r(2) c(2) reg
    by (auto simp: s2_def split: if_splits intro: silent_trans dest!: register_am_recv_callback_keeps cs_keeps_same)
  have M2: "held (s2\<lparr>conn_request := None\<rparr>) = Some (add_mset (RWorker dw) M)" using k2(2) k1(2) by simp
  obtain s0 where st: "start_server E wk addr (s2\<lparr>conn_request := None\<rparr>) = (UCS_OK, s0)"
      "silent lib (s2\<lparr>conn_request := None\<rparr>) s0" "conn_request s0 = conn_request (s2\<lparr>conn_request := None\<rparr>)"
    using start_server_accepts [OF A op M2] by metis
  note k3 = start_server_cases [OF st(1) M2]
  have same: "cs_same s s0"
    by (rule cs_same_trans [OF cs_same_trans [OF cs_same_trans [OF k1(1) k2(1)] cs_same_upd(5)] k3(1)])
  have sil: "silent lib s s0" using k2(3) st(2) by (auto intro: silent_trans)
  have "server_idle lib k n s0" by (rule server_idle_trans [OF s sil same]) (use k3(2) st(3) in simp_all)
  moreover have "num_iterations s0 = num_iterations s" using same by (simp add: cs_same_def cs_config_def)
  ultimately show thesis using that i dw reg st(1) sil by blast
qed

section \<open>Properties\<close>

text \<open>
  C5: The server serves every client and never ends. Let the library bring connection requests on the
  listening worker, create objects and carry the messages on every other worker, and report the end
  of each connection. Then the server gets into its loop, and for every \<open>j\<close> the first \<open>j\<close> rounds each
  serve one client: they return, leave nothing behind but what the loop began with, send one
  message to each client, print the lines of each session, and touch no memory that is not theirs;
  and \<open>run_server\<close> as a whole does not return.
\<close>

theorem server_serves_every_client:
  fixes s :: "'w cs"
  assumes "accepts E wk lib m" and "opens E lib"
    and "\<And>dw. dw \<noteq> wk \<Longrightarrow> carries E dw lib (message k n)" and "\<And>dw. dw \<noteq> wk \<Longrightarrow> closes E dw"
    and "\<And>c w. snd (fst (u_create E (WorkerCreate c) w)) \<noteq> wk"
    and "type \<in> {SEND_RECV_STREAM, SEND_RECV_TAG, SEND_RECV_AM}" and "0 < n" "n < 2 ^ 31"
    and "server_idle lib k n (s\<lparr>conn_request := None\<rparr>)" and "m = am_expected type True s"
  shows "\<exists>dw s1 s2 s0. init_worker E ctx s = (0, dw, s1) \<and>
    (if type = SEND_RECV_AM then register_am_recv_callback E dw s1 else (UCS_OK, s1)) = (UCS_OK, s2) \<and>
    start_server E wk addr (s2\<lparr>conn_request := None\<rparr>) = (UCS_OK, s0) \<and>
    (\<forall>j. \<exists>t. rounds (serve_client E wk dw type) j s0 t \<and> held t = held s0 \<and> faults t = faults s \<and>
       sends (trace t) = sends (trace s) @ replicate j (map Some (message k n)) \<and>
       lines (trace t) = lines (trace s) @ concat (replicate j (lines_due s k n (session_iterations s)))) \<and>
    run_server E ctx wk addr type s = None"
proof -
  obtain dw s1 s2 s0 where i: "init_worker E ctx s = (0, dw, s1)" "dw \<noteq> wk"
    and r: "(if type = SEND_RECV_AM then register_am_recv_callback E dw s1 else (UCS_OK, s1)) = (UCS_OK, s2)"
    and st: "start_server E wk addr (s2\<lparr>conn_request := None\<rparr>) = (UCS_OK, s0)"
    and s0: "server_idle lib k n s0" "silent lib s s0" "num_iterations s0 = num_iterations s"
    using run_server_starts [OF assms(1,2,5,9)] by metis
  have m: "m = am_expected type True s0" using assms(10) s0(3) by (simp add: am_expected_def)
  have due: "lines_due s0 k n (session_iterations s0) = lines_due s k n (session_iterations s)"
    unfolding s0(3) by (rule lines_due_cong) (rule s0(3))
  have "\<exists>t. rounds (serve_client E wk dw type) j s0 t \<and> held t = held s0 \<and> faults t = faults s \<and>
       sends (trace t) = sends (trace s) @ replicate j (map Some (message k n)) \<and>
       lines (trace t) = lines (trace s) @ concat (replicate j (lines_due s k n (session_iterations s)))" for j
    using serve_rounds [OF assms(1) assms(3,4) [OF i(2)] assms(2,6-8) s0(1) m, of j] s0(2)
    unfolding served_def silent_def unheard_def due by auto
  moreover have "loop (serve_client E wk dw type) s0 = None"
    by (rule serve_endless [OF assms(1) assms(3,4) [OF i(2)] assms(2,6-8) s0(1) m])
  then have "run_server E ctx wk addr type s = None" using i(1) r st by (simp add: run_server_def Let_def)
  ultimately show ?thesis using i(1) r st by blast
qed

text \<open>
  A library with two workers: on worker 1 every progress call brings two clients at once, on every
  other it does what \<open>deferring_env\<close> does.
\<close>

definition visited_env :: "byte list \<Rightarrow> nat \<Rightarrow> (duties, cs_upcall) env" where
  "visited_env data m = (deferring_env data)
     \<lparr>u_create := (\<lambda>c w. ((UCS_OK, 2), w)),
      u_progress := (\<lambda>wk w. if wk = 1 then ((2, [UpConnRequest 8, UpConnRequest 9]), (None, m))
                            else u_progress (deferring_env data) wk w)\<rparr>"

lemma visited_env_fields:
  "alloc_ok (visited_env data m) = alloc_ok (deferring_env data)" "u_void (visited_env data m) = u_void (deferring_env data)"
  "u_status (visited_env data m) = u_status (deferring_env data)" "u_post (visited_env data m) = u_post (deferring_env data)"
  "u_check (visited_env data m) = u_check (deferring_env data)" "early (visited_env data m) = early (deferring_env data)"
  "u_create (visited_env data m) c w = ((UCS_OK, 2), w)"
  "u_progress (visited_env data m) wk =
     (if wk = 1 then (\<lambda>w. ((2, [UpConnRequest 8, UpConnRequest 9]), (None, m))) else u_progress (deferring_env data) wk)"
  by (simp_all add: visited_env_def early_def fun_eq_iff)

lemma visited_env_carries:
  assumes "dw \<noteq> 1" shows "carries (visited_env data m) dw id data" "closes (visited_env data m) dw"
proof -
  have p: "u_progress (visited_env data m) dw = u_progress (deferring_env data) dw"
    using assms by (simp add: visited_env_fields)
  then have w: "next_world (visited_env data m) dw = next_world (deferring_env data) dw"
    by (simp add: fun_eq_iff next_world_def)
  show "carries (visited_env data m) dw id data"
    unfolding carries_def posted_as_def visited_env_fields(1-6) p w
    by (rule deferring_env_carries(1) [unfolded carries_def posted_as_def])
  show "closes (visited_env data m) dw"
    unfolding closes_def p w by (rule deferring_env_carries(2) [unfolded closes_def])
qed

lemma visited_env_accepts: "accepts (visited_env data m) 1 id m" "opens (visited_env data m) id"
proof -
  have "\<exists>conn conns. [UpConnRequest 8, UpConnRequest 9] = map UpConnRequest (conn # conns)"
    by (rule exI [of _ 8], rule exI [of _ "[9]"]) simp
  moreover have "u_status (deferring_env data) c w = (UCS_OK, w)" for c w by (simp add: deferring_env_def)
  moreover have "\<exists>u\<in>set [UpConnRequest 8, UpConnRequest 9]. \<not> is_err u" by simp
  ultimately show "accepts (visited_env data m) 1 id m"
    by (simp add: accepts_def visited_env_fields)
  show "opens (visited_env data m) id"
    using deferring_env_opens [of data] by (simp add: opens_def visited_env_fields)
qed

theorem server_serves_every_client_witness:
  "\<exists>dw s1 s2 s0 t. init_worker (visited_env (message 1 3) 1) 5 (cs_init (None, 0)\<lparr>test_string_length := 3\<rparr>) = (0, dw, s1) \<and>
     register_am_recv_callback (visited_env (message 1 3) 1) dw s1 = (UCS_OK, s2) \<and>
     start_server (visited_env (message 1 3) 1) 1 None (s2\<lparr>conn_request := None\<rparr>) = (UCS_OK, s0) \<and>
     rounds (serve_client (visited_env (message 1 3) 1) 1 dw SEND_RECV_AM) 3 s0 t \<and>
     sends (trace t) = replicate 3 (map Some [65, 66, 0]) \<and> lines (trace t) = replicate 3 [65, 66] \<and>
     run_server (visited_env (message 1 3) 1) 5 1 None SEND_RECV_AM (cs_init (None, 0)\<lparr>test_string_length := 3\<rparr>) = None"
proof -
  let ?E = "visited_env (message 1 3) 1" and ?s = "cs_init (None, 0)\<lparr>test_string_length := 3\<rparr> :: duties cs"
  have i: "server_idle id 1 3 (?s\<lparr>conn_request := None\<rparr>)"
    by (simp add: server_idle_def cs_wf_def wf_heap_def cs_init_def frame_iovs_def)
  have m: "message 1 3 = [65, 66, 0]" by (simp add: message_def test_string_def letter_def upt_rec)
  have l: "lines_due ?s 1 3 (session_iterations ?s) = [[65, 66]]"
    by (simp add: lines_due_def printed_def PRINT_INTERVAL_def letter_def upt_rec upto_rec1 cs_init_def)
  have e: "(1 :: nat) = am_expected SEND_RECV_AM True ?s" by (simp add: am_expected_def cs_init_def)
  note p = server_serves_every_client [where type = SEND_RECV_AM and ctx = 5 and addr = None,
      OF visited_env_accepts visited_env_carries _ _ _ _ i e]
  have c3: "concat (replicate 3 [[65, 66]]) = replicate 3 [65, 66 :: byte]" by (simp add: numeral_3_eq_3)
  obtain dw s1 s2 s0 where d: "init_worker ?E 5 ?s = (0, dw, s1)" "register_am_recv_callback ?E dw s1 = (UCS_OK, s2)"
     "start_server ?E 1 None (s2\<lparr>conn_request := None\<rparr>) = (UCS_OK, s0)"
     "run_server ?E 5 1 None SEND_RECV_AM ?s = None"
   and all: "\<And>j. \<exists>t. rounds (serve_client ?E 1 dw SEND_RECV_AM) j s0 t \<and> held t = held s0 \<and> faults t = faults ?s \<and>
       sends (trace t) = sends (trace ?s) @ replicate j (map Some (message 1 3)) \<and>
       lines (trace t) = lines (trace ?s) @ concat (replicate j (lines_due ?s 1 3 (session_iterations ?s)))"
    using p by (auto simp: visited_env_fields)
  from all [of 3] obtain t where t: "rounds (serve_client ?E 1 dw SEND_RECV_AM) 3 s0 t"
    "sends (trace t) = sends (trace ?s) @ replicate 3 (map Some (message 1 3))"
    "lines (trace t) = lines (trace ?s) @ concat (replicate 3 (lines_due ?s 1 3 (session_iterations ?s)))" by blast
  have tr: "trace ?s = []" by (simp add: cs_init_def)
  show ?thesis using d t unfolding l m tr c3 by auto
qed

end
