(* ===== verification/Hw_State.thy ===== *)
theory Hw_State
  imports Hello_World_Util
begin

text \<open>
  The state of \<open>ucp_hello_world/ucp_hello_world.c\<close>: its static variables, the request contexts, its
  callbacks, the byte layout of \<open>struct msg\<close>, and the waits.

  UCX keeps the memory of requests in a pool and calls \<open>request_init\<close> only when a request is used
  for the first time, as the documentation of \<open>ucp_params_t\<close> says; a request that comes back from
  the pool has the contents it was left with. So the contexts are a map that a request enters
  when it is handed out for the first time and never leaves.
\<close>

section \<open>State\<close>

datatype test_mode = TEST_MODE_PROBE | TEST_MODE_WAIT | TEST_MODE_EVENTFD

datatype failure_mode = FAILURE_MODE_NONE | FAILURE_MODE_SEND | FAILURE_MODE_RECV | FAILURE_MODE_KEEPALIVE

record 'w hw = "'w machine" +
  ucp_test_mode :: test_mode
  ucp_err_mode :: err_mode
  fail_mode :: failure_mode
  ep_status :: ucs_status
  hw_server_port :: u16
  hw_ai_family :: family
  hw_string_length :: u64
  print_config :: int
  req_completed :: "nat \<Rightarrow> int option"

text \<open>The initial values of the static variables (zero where none is written).\<close>

definition hw_init :: "'w \<Rightarrow> 'w hw" where
  "hw_init w =
     \<lparr>world = w, heap = (\<lambda>_. None), brk = 1, faults = [], trace = [], test_mem_type = MEM_HOST,
      ucp_test_mode = TEST_MODE_PROBE, ucp_err_mode = ERR_MODE_NONE, fail_mode = FAILURE_MODE_NONE,
      ep_status = UCS_OK, hw_server_port = 13337, hw_ai_family = AF_INET, hw_string_length = 16,
      print_config = 0, req_completed = (\<lambda>_. None)\<rparr>"

definition tag :: u64 where
  "tag = 0x1337a880"

definition tag_mask :: u64 where
  "tag_mask = 0xffffffffffffffff"

text \<open>
  What the environment answers beyond the calls of \<open>env\<close> and \<open>net_env\<close>: the address of a worker,
  the probe for a message (its handle and length), and whether \<open>errno\<close> is \<open>EINTR\<close>.
\<close>

record ('w, 'u) hw_env = "('w, 'u) net_env" +
  u_address :: "nat \<Rightarrow> 'w \<Rightarrow> byte list"
  u_probe :: "nat \<Rightarrow> 'w \<Rightarrow> (nat \<times> u64) option \<times> 'w"
  errno_eintr :: "'w \<Rightarrow> bool"

section \<open>Callbacks\<close>

definition request_init :: "nat \<Rightarrow> 'w hw \<Rightarrow> 'w hw" where
  "request_init request s = s\<lparr>req_completed := (req_completed s)(request \<mapsto> 0)\<rparr>"

definition set_completed :: "nat \<Rightarrow> int \<Rightarrow> 'w hw \<Rightarrow> 'w hw" where
  "set_completed request v s =
     (case req_completed s request of
        None \<Rightarrow> fault (DeadFrame request) s
      | Some _ \<Rightarrow> s\<lparr>req_completed := (req_completed s)(request \<mapsto> v)\<rparr>)"

definition send_handler :: "nat \<Rightarrow> ucs_status \<Rightarrow> 'w hw \<Rightarrow> 'w hw" where
  "send_handler request status s = set_completed request 1 s"

definition recv_handler :: "nat \<Rightarrow> ucs_status \<Rightarrow> 'w hw \<Rightarrow> 'w hw" where
  "recv_handler request status s = set_completed request 1 s"

text \<open>\<open>arg\<close> is the \<open>user_data\<close> of the endpoint, the address of \<open>ep_status\<close>.\<close>

definition failure_handler :: "ucs_status \<Rightarrow> 'w hw \<Rightarrow> 'w hw" where
  "failure_handler status s = s\<lparr>ep_status := status\<rparr>"

datatype hw_upcall =
    HwWrite dma
  | HwSend nat ucs_status
  | HwRecv nat ucs_status
  | HwFailure ucs_status

fun hw_dispatch :: "hw_upcall \<Rightarrow> 'w hw \<Rightarrow> 'w hw" where
  "hw_dispatch (HwWrite d) s = apply_dma d s"
| "hw_dispatch (HwSend r status) s = send_handler r status s"
| "hw_dispatch (HwRecv r status) s = recv_handler r status s"
| "hw_dispatch (HwFailure status) s = failure_handler status s"

abbreviation hw_progress :: "('w, hw_upcall, 'e) env_scheme \<Rightarrow> nat \<Rightarrow> 'w hw \<Rightarrow> 'w hw" where
  "hw_progress E wk s \<equiv> snd (ucp_worker_progress E hw_dispatch wk s)"

text \<open>
  A non-blocking operation; a request that was never handed out before is initialised, and only then
  run the callbacks that are due before the call returns.
\<close>

definition hw_post :: "('w, hw_upcall, 'e) env_scheme \<Rightarrow> ucx_call \<Rightarrow> byte option list \<Rightarrow> 'w hw \<Rightarrow>
    req \<times> 'w hw" where
  "hw_post E c bytes s =
     (let (request, s) = call_post E c bytes s
      in (request,
          case request of
            ReqPtr r \<Rightarrow>
              let s = (if req_completed s r = None then request_init r s else s)
              in fold hw_dispatch (early E c r (world s)) s
          | _ \<Rightarrow> s))"

section \<open>struct msg\<close>

text \<open>
  A message is \<open>data_len\<close>, eight bytes in the order of the machine (little endian), and the data.
\<close>

definition sizeof_msg :: u64 where
  "sizeof_msg = 8"

definition set_msg_data_len :: "nat \<Rightarrow> u64 \<Rightarrow> 'w hw \<Rightarrow> 'w hw" where
  "set_msg_data_len msg data_len s =
     (case test_mem_type s of
        MEM_HOST \<Rightarrow> store msg 0 (map Some (le_bytes 8 (unat data_len))) s
      | _ \<Rightarrow> s)"

text \<open>\<open>msg->data_len\<close>: reading outside the block or an unwritten byte is a fault.\<close>

definition msg_data_len :: "nat \<Rightarrow> 'w hw \<Rightarrow> u64 \<times> 'w hw" where
  "msg_data_len msg s =
     (case load msg 0 8 s of
        None \<Rightarrow> (0, fault (BadLoad msg) s)
      | Some bs \<Rightarrow>
          if None \<in> set bs then (0, fault (BadLoad msg) s)
          else (of_nat (le_value (map the bs)), s))"

section \<open>Waiting\<close>

definition completed :: "nat \<Rightarrow> 'w hw \<Rightarrow> int" where
  "completed request s = (case req_completed s request of None \<Rightarrow> 0 | Some v \<Rightarrow> v)"

definition ucx_wait :: "('w, hw_upcall, 'e) env_scheme \<Rightarrow> nat \<Rightarrow> req \<Rightarrow> 'w hw \<Rightarrow>
    (ucs_status \<times> 'w hw) option" where
  "ucx_wait E wk request s =
     (case request of
        ReqErr status \<Rightarrow> Some (status, s)
      | ReqPtr r \<Rightarrow>
          do { s \<leftarrow> while_option (\<lambda>s. completed r s = 0) (hw_progress E wk) s;
               let s = set_completed r 0 s;
               let status = ucp_request_check_status E r s;
               Some (status, call_void E (ReqFree r) s) }
      | ReqNull \<Rightarrow> Some (UCS_OK, s))"

definition epoll_again :: "('w, 'u, 'e) hw_env_scheme \<Rightarrow> int \<Rightarrow> int \<times> 'w hw \<Rightarrow> int \<times> 'w hw" where
  "epoll_again E fd = (\<lambda>(_, s). sock E (EpollWait fd) s)"

definition test_poll_wait :: "('w, 'u, 'e) hw_env_scheme \<Rightarrow> nat \<Rightarrow> 'w hw \<Rightarrow>
    (ucs_status \<times> 'w hw) option" where
  "test_poll_wait E wk s =
     (let ((status, epoll_fd), s) = call_create E (WorkerGetEfd wk) s
      in if status \<noteq> UCS_OK then Some (UCS_ERR_NO_MESSAGE, s)
         else
           let (epoll_fd_local, s) = sock E EpollCreate s;
               (err, s) = sock E (EpollAdd epoll_fd_local (int epoll_fd)) s
           in if err < 0
              then Some (UCS_ERR_NO_MESSAGE, snd (sock E (CloseFd epoll_fd_local) s))
              else
                let (status, s) = call_status E (WorkerArm wk) s
                in if status = UCS_ERR_BUSY
                   then Some (UCS_OK, snd (sock E (CloseFd epoll_fd_local) s))
                   else if status \<noteq> UCS_OK
                   then Some (UCS_ERR_NO_MESSAGE, snd (sock E (CloseFd epoll_fd_local) s))
                   else do {
                     (err, s) \<leftarrow> while_option (\<lambda>(err, s). err = -1 \<and> errno_eintr E (world s))
                                  (epoll_again E epoll_fd_local) (sock E (EpollWait epoll_fd_local) s);
                     Some (UCS_OK, snd (sock E (CloseFd epoll_fd_local) s)) })"

definition ep_close_err_mode :: "('w, hw_upcall, 'e) env_scheme \<Rightarrow> nat \<Rightarrow> nat \<Rightarrow> 'w hw \<Rightarrow>
    'w hw option" where
  "ep_close_err_mode E wk ep s = ep_close E hw_dispatch wk ep (ucp_err_mode s = ERR_MODE_PEER) s"

definition flush_ep :: "('w, hw_upcall, 'e) env_scheme \<Rightarrow> nat \<Rightarrow> nat \<Rightarrow> 'w hw \<Rightarrow>
    (ucs_status \<times> 'w hw) option" where
  "flush_ep E wk ep s =
     (let (request, s) = hw_post E (EpFlush ep) [] s in
      case request of
        ReqNull \<Rightarrow> Some (UCS_OK, s)
      | ReqErr status \<Rightarrow> Some (status, s)
      | ReqPtr r \<Rightarrow>
          do { (status, s) \<leftarrow> progress_request E hw_dispatch wk r s;
               Some (status, call_void E (ReqFree r) s) })"

section \<open>What a callback leaves alone\<close>

text \<open>Everything but the trace, the world, the contents of the blocks, the faults, the endpoint
  status and the contexts of the requests.\<close>

definition hw_core :: "'w hw \<Rightarrow> _" where
  "hw_core s =
     ((heap_shape s, brk s, test_mem_type s),
      (ucp_test_mode s, ucp_err_mode s, fail_mode s),
      (hw_server_port s, hw_ai_family s, hw_string_length s, print_config s))"

definition hw_frame :: "'w hw \<Rightarrow> 'w hw \<Rightarrow> bool" where
  "hw_frame s t \<longleftrightarrow> (held t, hw_core t) = (held s, hw_core s)"

lemma hw_frame_refl: "hw_frame s s"
  by (simp add: hw_frame_def)

lemma hw_frame_trans: "hw_frame s t \<Longrightarrow> hw_frame t u \<Longrightarrow> hw_frame s u"
  by (simp add: hw_frame_def)

lemma emit_hw [frame_simps, simp]:
  "ucp_test_mode (emit e s) = ucp_test_mode s" "ucp_err_mode (emit e s) = ucp_err_mode s"
  "fail_mode (emit e s) = fail_mode s" "ep_status (emit e s) = ep_status s"
  "hw_server_port (emit e s) = hw_server_port s" "hw_ai_family (emit e s) = hw_ai_family s"
  "hw_string_length (emit e s) = hw_string_length s" "print_config (emit e s) = print_config s"
  "req_completed (emit e s) = req_completed s"
  by (simp_all add: emit_def)

lemma fault_hw [frame_simps, simp]:
  "ucp_test_mode (fault f s) = ucp_test_mode s" "ucp_err_mode (fault f s) = ucp_err_mode s"
  "fail_mode (fault f s) = fail_mode s" "ep_status (fault f s) = ep_status s"
  "hw_server_port (fault f s) = hw_server_port s" "hw_ai_family (fault f s) = hw_ai_family s"
  "hw_string_length (fault f s) = hw_string_length s" "print_config (fault f s) = print_config s"
  "req_completed (fault f s) = req_completed s"
  by (simp_all add: fault_def)

lemma heap_shape_upd_hw [simp]:
  "heap_shape (s\<lparr>world := w\<rparr>) = heap_shape s" "heap_shape (s\<lparr>req_completed := r\<rparr>) = heap_shape s"
  "heap_shape (s\<lparr>ep_status := e\<rparr>) = heap_shape s"
  by (simp_all add: heap_shape_def fun_eq_iff)

lemma heap_only_hw:
  assumes "heap_only s (t :: 'w hw)"
  shows "ucp_test_mode t = ucp_test_mode s" "ucp_err_mode t = ucp_err_mode s" "fail_mode t = fail_mode s"
    "ep_status t = ep_status s" "hw_server_port t = hw_server_port s" "hw_ai_family t = hw_ai_family s"
    "hw_string_length t = hw_string_length s" "print_config t = print_config s"
    "req_completed t = req_completed s" "test_mem_type t = test_mem_type s" "trace t = trace s"
  using assms by (auto simp: heap_only_def)

lemma heap_only_core:
  "heap_only s (t :: 'w hw) \<Longrightarrow> heap_shape t = heap_shape s \<Longrightarrow> brk t = brk s \<Longrightarrow> hw_core t = hw_core s \<and> held t = held s"
  by (simp add: hw_core_def heap_only_hw)

lemma hw_core_upd [simp]:
  "hw_core (emit e s) = hw_core s" "hw_core (fault f s) = hw_core s" "hw_core (s\<lparr>world := w\<rparr>) = hw_core s"
  "hw_core (s\<lparr>req_completed := rc\<rparr>) = hw_core s" "hw_core (s\<lparr>ep_status := st\<rparr>) = hw_core s"
  "hw_core (call_void E c s) = hw_core s" "hw_core (set_completed r v s) = hw_core s"
  "hw_core (request_init r s) = hw_core s"
  by (simp_all add: hw_core_def call_void_def set_completed_def request_init_def split: option.split)

lemma set_completed_trace [simp]: "trace (set_completed r v s) = trace s" "trace (request_init r s) = trace s"
  by (simp_all add: set_completed_def request_init_def split: option.split)

lemma hw_core_store [simp]: "hw_core (store p off xs s) = hw_core s"
  using heap_only_core [OF heap_only_store] by simp

lemma hw_core_apply_dma: "hw_core (apply_dma d s) = hw_core s"
  by (cases d) (simp add: apply_dma_def)

lemma hw_core_fold_apply_dma: "hw_core (fold apply_dma ds s) = hw_core s"
  by (induction ds arbitrary: s) (simp_all add: hw_core_apply_dma)

lemma hw_frame_dispatch: "hw_frame s (hw_dispatch u s)"
  by (cases u) (simp_all add: hw_frame_def hw_core_apply_dma send_handler_def recv_handler_def failure_handler_def)

interpretation hw: progress_frame hw_frame hw_dispatch wk for wk
  by unfold_locales
    (rule hw_frame_refl, erule (1) hw_frame_trans, rule hw_frame_dispatch, simp add: hw_frame_def)

lemma hw_dispatch_held: "held (hw_dispatch u s) = held s"
  using hw_frame_dispatch [of s u] by (simp add: hw_frame_def)

interpretation hw_held: balanced_callbacks hw_dispatch wk for wk
  by unfold_locales (simp_all add: hw_dispatch_held)

lemma hw_progress_core [simp]: "hw_core (hw_progress E wk s) = hw_core s" "held (hw_progress E wk s) = held s"
  using hw.progress_R [of s E wk] by (simp_all add: hw_frame_def)

lemma hw_fold_dispatch [simp]:
  "hw_core (fold hw_dispatch us s) = hw_core s" "held (fold hw_dispatch us s) = held s"
  using hw.fold_hnd [of s us] by (simp_all add: hw_frame_def)

lemma hw_fold_dispatch_trace [simp]: "trace (fold hw_dispatch us s) = trace s"
proof (induction us arbitrary: s)
  case (Cons u us)
  then show ?case by (cases u) (simp_all add: send_handler_def recv_handler_def failure_handler_def)
qed simp

section \<open>What the calls and the waits change\<close>

lemma call_create_core:
  assumes "call_create E c s = ((st, h), t)"
  shows "hw_core t = hw_core s" "held t = monitor_step (held s) (EvCreate c st h)"
  using assms by (auto simp: call_create_def split: prod.splits)

lemma call_status_core:
  assumes "call_status E c s = (st, t)"
  shows "hw_core t = hw_core s" "held t = monitor_step (held s) (EvStatus c st)"
  using assms by (auto simp: call_status_def split: prod.splits)

lemma sock_core:
  assumes "sock E c s = (r, t)"
  shows "hw_core t = hw_core s" "held t = monitor_step (held s) (EvSock c r)"
  using assms by (auto simp: sock_def split: prod.splits)

lemma hw_post_core:
  assumes "hw_post E c bytes s = (r, t)"
  shows "hw_core t = hw_core s" "held t = monitor_step (held s) (EvPost c bytes r)"
  using assms
  by (auto simp: hw_post_def call_post_def hw_core_fold_apply_dma Let_def split: prod.splits req.splits if_splits)

text \<open>Waiting for a request releases it, and nothing else.\<close>

lemma ucx_wait_core:
  assumes run: "ucx_wait E wk request s = Some (st, t)" and held: "held s = Some (M + req_of request)"
  shows "hw_core t = hw_core s" "held t = Some M"
proof -
  have "hw_core t = hw_core s \<and> held t = Some M"
  proof (cases request)
    case (ReqPtr r)
    with run obtain s1 where w: "while_option (\<lambda>s. completed r s = 0) (hw_progress E wk) s = Some s1"
        and t: "t = call_void E (ReqFree r) (set_completed r 0 s1)"
      by (auto simp: ucx_wait_def bind_eq_Some_conv Let_def)
    have "hw_frame s s1" using w by (rule hw.wait_R)
    with held ReqPtr show ?thesis by (simp add: hw_frame_def t monitor_step_release)
  qed (use run held in \<open>auto simp: ucx_wait_def\<close>)
  then show "hw_core t = hw_core s" "held t = Some M" by blast+
qed

lemma post_wait_core:
  assumes post: "hw_post E c bytes s = (r, s1)" and wait: "ucx_wait E wk r s1 = Some (st, t)"
    and held: "held s = Some M" and neutral: "released_by c = {#}"
  shows "hw_core t = hw_core s" "held t = Some M"
proof -
  have h1: "held s1 = Some (M + req_of r)" using hw_post_core(2) [OF post] held neutral by (simp add: monitor_step_def)
  note w = ucx_wait_core [OF wait h1]
  show "hw_core t = hw_core s" "held t = Some M" using w hw_post_core(1) [OF post] by simp_all
qed

lemma ep_close_err_mode_core:
  assumes close: "ep_close_err_mode E wk ep s = Some t" and held: "held s = Some (add_mset (REp ep) M)"
  shows "hw_core t = hw_core s" "held t = Some M"
proof -
  from close have c: "ep_close E hw_dispatch wk ep (ucp_err_mode s = ERR_MODE_PEER) s = Some t"
    by (simp add: ep_close_err_mode_def)
  show "held t = Some M" by (rule hw_held.ep_close_held [OF c held])
  have post: "hw_core u = hw_core s" if "call_post E c b s = (r, u)" for c b r u
    using that by (auto simp: call_post_def hw_core_fold_apply_dma split: prod.splits)
  from c show "hw_core t = hw_core s"
    by (cases rule: hw.ep_close_cases) (auto simp: post hw_frame_def)
qed

lemma flush_ep_core:
  assumes run: "flush_ep E wk ep s = Some (st, t)" and held: "held s = Some M"
  shows "hw_core t = hw_core s" "held t = Some M"
proof -
  obtain r s1 where post: "hw_post E (EpFlush ep) [] s = (r, s1)" by fastforce
  note p = hw_post_core [OF post]
  have "hw_core t = hw_core s \<and> held t = Some M"
  proof (cases r)
    case (ReqPtr q)
    with run post obtain st2 s2 where w: "progress_request E hw_dispatch wk q s1 = Some (st2, s2)"
        and t: "t = call_void E (ReqFree q) s2"
      by (auto simp: flush_ep_def bind_eq_Some_conv)
    have "hw_frame s1 s2" by (rule hw.progress_request_R [OF w])
    with p held ReqPtr show ?thesis by (simp add: t hw_frame_def monitor_step_def)
  qed (use run post p held in \<open>auto simp: flush_ep_def monitor_step_def\<close>)
  then show "hw_core t = hw_core s" "held t = Some M" by blast+
qed

text \<open>The wait on the event descriptor: the descriptor it creates is closed on every path.\<close>

lemma epoll_close_core:
  assumes "held s = Some (M + fd_held fd)"
  shows "held (snd (sock E (CloseFd fd) s)) = Some M" "hw_core (snd (sock E (CloseFd fd) s)) = hw_core s"
proof -
  obtain r t where c: "sock E (CloseFd fd) s = (r, t)" by fastforce
  show "held (snd (sock E (CloseFd fd) s)) = Some M" "hw_core (snd (sock E (CloseFd fd) s)) = hw_core s"
    using sock_core [OF c] assms by (simp_all add: c monitor_step_def fd_held_def)
qed

lemma test_poll_wait_core:
  assumes run: "test_poll_wait E wk s = Some (st, t)" and held: "held s = Some M"
  shows "hw_core t = hw_core s" "held t = Some M" "st = UCS_OK \<or> st = UCS_ERR_NO_MESSAGE"
proof -
  obtain st1 efd s1 where c1: "call_create E (WorkerGetEfd wk) s = ((st1, efd), s1)" by (metis surj_pair)
  note k1 = call_create_core [OF c1]
  have h1: "held s1 = Some M" using k1(2) held by (simp add: monitor_step_def)
  have "hw_core t = hw_core s \<and> held t = Some M \<and> (st = UCS_OK \<or> st = UCS_ERR_NO_MESSAGE)"
  proof (cases "st1 = UCS_OK")
    case False
    with run c1 k1(1) h1 show ?thesis by (auto simp: test_poll_wait_def)
  next
    case True
    obtain fd s2 where c2: "sock E EpollCreate s1 = (fd, s2)" by fastforce
    obtain err s3 where c3: "sock E (EpollAdd fd (int efd)) s2 = (err, s3)" by fastforce
    obtain st4 s4 where c4: "call_status E (WorkerArm wk) s3 = (st4, s4)" by fastforce
    note k = sock_core [OF c2] sock_core [OF c3] call_status_core [OF c4]
    have h: "held s3 = Some (M + fd_held fd)" "held s4 = Some (M + fd_held fd)"
      using k h1 by (simp_all add: monitor_step_def fd_held_def)
    have core: "hw_core s3 = hw_core s" "hw_core s4 = hw_core s" using k k1 by simp_all
    note closed = epoll_close_core [where E = E, OF h(1)] epoll_close_core [where E = E, OF h(2)]
    show ?thesis
    proof (cases "err < 0 \<or> st4 \<noteq> UCS_OK")
      case False
      obtain e5 s5 where c5: "sock E (EpollWait fd) s4 = (e5, s5)" by fastforce
      from run c1 True c2 c3 c4 c5 False obtain e6 s6 where
          w: "while_option (\<lambda>(err, s). err = -1 \<and> errno_eintr E (world s)) (epoll_again E fd) (e5, s5) = Some (e6, s6)"
        and t: "st = UCS_OK" "t = snd (sock E (CloseFd fd) s6)"
        by (auto simp: test_poll_wait_def bind_eq_Some_conv)
      let ?R = "\<lambda>(a, u) (b, v). hw_core v = hw_core u \<and> held v = held u"
      have "?R (e5, s5) (e6, s6)"
        by (rule while_option_rel [OF w, where R = ?R])
          (auto simp: epoll_again_def split: prod.splits dest: sock_core)
      with sock_core [OF c5] h core have h6: "held s6 = Some (M + fd_held fd)" "hw_core s6 = hw_core s" by simp_all
      with epoll_close_core [where E = E, OF h6(1)] t show ?thesis by simp
    qed (use run c1 True c2 c3 c4 closed core in \<open>auto simp: test_poll_wait_def split: if_splits\<close>)
  qed
  then show "hw_core t = hw_core s" "held t = Some M" "st = UCS_OK \<or> st = UCS_ERR_NO_MESSAGE" by blast+
qed

section \<open>Memory that is taken and given back\<close>

definition hw_options :: "'w hw \<Rightarrow> _" where
  "hw_options s = ((test_mem_type s, ucp_test_mode s, ucp_err_mode s, fail_mode s),
     (hw_server_port s, hw_ai_family s, hw_string_length s, print_config s))"

text \<open>\<open>hw_keeps s t\<close>: the blocks of \<open>t\<close> are those of \<open>s\<close>, and the options are unchanged.\<close>

definition hw_keeps :: "'w hw \<Rightarrow> 'w hw \<Rightarrow> bool" where
  "hw_keeps s t \<longleftrightarrow> heap_shape t = heap_shape s \<and> brk s \<le> brk t \<and> hw_options t = hw_options s"

text \<open>\<open>hw_holds p s t\<close>: the same, but \<open>t\<close> has the new block \<open>p\<close> too.\<close>

definition hw_holds :: "nat \<Rightarrow> 'w hw \<Rightarrow> 'w hw \<Rightarrow> bool" where
  "hw_holds p s t \<longleftrightarrow> brk s \<le> p \<and> p < brk t \<and> hw_options t = hw_options s \<and>
     (\<exists>k. heap_shape t = (heap_shape s)(p \<mapsto> k))"

lemma hw_keeps_refl [simp]: "hw_keeps s s"
  by (simp add: hw_keeps_def)

lemma hw_keeps_trans [trans]: "hw_keeps s t \<Longrightarrow> hw_keeps t u \<Longrightarrow> hw_keeps s u"
  by (simp add: hw_keeps_def)

lemma hw_core_keeps: "hw_core t = hw_core s \<Longrightarrow> hw_keeps s t"
  by (simp add: hw_keeps_def hw_core_def hw_options_def)

lemma hw_core_holds: "hw_holds p s t \<Longrightarrow> hw_core u = hw_core t \<Longrightarrow> hw_holds p s u"
  by (simp add: hw_holds_def hw_core_def hw_options_def)

lemma hw_holds_trans: "hw_holds p s t \<Longrightarrow> hw_keeps t u \<Longrightarrow> hw_holds p s u"
  by (auto simp: hw_holds_def hw_keeps_def)

lemma hw_keeps_holds: "hw_keeps s t \<Longrightarrow> hw_holds p t u \<Longrightarrow> hw_holds p s u"
  by (auto simp: hw_holds_def hw_keeps_def)

lemma hw_keeps_wf: "hw_keeps s t \<Longrightarrow> wf_heap s \<Longrightarrow> wf_heap t"
  by (auto simp: hw_keeps_def wf_heap_shape)

lemma hw_holds_wf: "hw_holds p s t \<Longrightarrow> wf_heap s \<Longrightarrow> wf_heap t"
  by (auto simp: hw_holds_def wf_heap_shape fun_upd_apply split: if_splits)
    (meson le_less_trans less_le_trans less_imp_le)

lemma hw_core_wf: "hw_core (t :: 'w hw) = hw_core (s :: 'w hw) \<Longrightarrow> wf_heap s \<Longrightarrow> wf_heap t"
  by (rule hw_keeps_wf [OF hw_core_keeps])

lemma hw_keeps_call_void [simp]: "hw_keeps s (call_void E c t) \<longleftrightarrow> hw_keeps s t"
  using hw_core_upd(6) [of E c t] by (simp add: hw_keeps_def hw_core_def hw_options_def)

lemma hw_options_heap_only: "heap_only s t \<Longrightarrow> hw_options t = hw_options s"
  by (simp add: hw_options_def heap_only_hw)

text \<open>Freeing the one new block brings the blocks back to what they were.\<close>

lemma c_free_keeps:
  assumes "hw_holds p s t" "wf_heap s" shows "hw_keeps s (c_free p t)"
proof -
  have p: "p \<noteq> 0" "heap_shape s p = None"
    using assms wf_heap_none [of s p] by (auto simp: hw_holds_def wf_heap_def heap_shape_def)
  have "hw_options (c_free p t) = hw_options t" by (rule hw_options_heap_only) (rule heap_only_c_free)
  with assms(1) p show ?thesis
    by (auto simp: hw_keeps_def hw_holds_def heap_shape_c_free fun_eq_iff)
qed

lemma mem_type_free_keeps:
  "hw_holds p s t \<Longrightarrow> wf_heap s \<Longrightarrow> test_mem_type s = MEM_HOST \<Longrightarrow> hw_keeps s (mem_type_free p t)"
  using c_free_keeps [of p s t] by (simp add: mem_type_free_def hw_holds_def hw_options_def)

lemma malloc_holds:
  assumes "malloc E n s = (p, t)" "wf_heap s"
  shows "held t = held s" "if p = 0 then hw_keeps s t else hw_holds p s t"
    "p \<noteq> 0 \<Longrightarrow> heap t p = Some (replicate (unat n) None)"
    "test_mem_type t = test_mem_type s" "faults t = faults s"
proof -
  have "hw_options t = hw_options s"
    using heap_only_malloc [of s E n] assms(1) by (intro hw_options_heap_only) simp
  with assms show "held t = held s" "if p = 0 then hw_keeps s t else hw_holds p s t"
    "p \<noteq> 0 \<Longrightarrow> heap t p = Some (replicate (unat n) None)"
    "test_mem_type t = test_mem_type s" "faults t = faults s"
    by (auto simp: malloc_def new_block_def Let_def hw_keeps_def hw_holds_def heap_shape_def wf_heap_def
        fun_eq_iff split: prod.splits if_splits)
qed

lemma mem_type_malloc_holds:
  assumes "mem_type_malloc E n s = (p, t)" "wf_heap s"
  shows "held t = held s" "if p = 0 then hw_keeps s t else hw_holds p s t \<and> test_mem_type s = MEM_HOST"
  using assms malloc_holds [of E n s p t] by (auto simp: mem_type_malloc_def split: mem_type.splits)

lemma calloc_holds:
  assumes "calloc E m n s = (p, t)" "wf_heap s"
  shows "held t = held s" "if p = 0 then hw_keeps s t else hw_holds p s t"
proof -
  have "hw_options t = hw_options s"
    using heap_only_calloc [of s E m n] assms(1) by (intro hw_options_heap_only) simp
  with assms show "held t = held s" "if p = 0 then hw_keeps s t else hw_holds p s t"
    by (auto simp: calloc_def new_block_def Let_def hw_keeps_def hw_holds_def heap_shape_def wf_heap_def
        fun_eq_iff split: prod.splits if_splits)
qed

lemma c_free_held [simp]: "held (c_free p s) = held s" "held (mem_type_free p s) = held s"
  by (simp_all add: mem_type_free_def split: mem_type.split)

lemma hw_core_mem_ops [simp]:
  "hw_core (memset p v n s) = hw_core s" "hw_core (memcpy p o1 q o2 n s) = hw_core s"
  "hw_core (mem_type_memset p v n s) = hw_core s" "hw_core (mem_type_memcpy p o1 q o2 n s) = hw_core s"
  "hw_core (set_msg_data_len p v' s) = hw_core s"
  by (simp_all add: memset_def memcpy_def mem_type_memset_def mem_type_memcpy_def set_msg_data_len_def
      split: mem_type.split option.split)

lemma held_mem_ops [simp]:
  "held (mem_type_memset p v n s) = held s" "held (mem_type_memcpy p o1 q o2 n s) = held s"
  "held (set_msg_data_len p v' s) = held s"
  by (simp_all add: mem_type_memset_def mem_type_memcpy_def set_msg_data_len_def split: mem_type.split)

lemma msg_data_len_core:
  "msg_data_len p s = (n, t) \<Longrightarrow> hw_core t = hw_core s \<and> held t = held s"
  by (auto simp: msg_data_len_def split: option.splits if_splits)

end
