(* ===== verification/Hw_Run.thy ===== *)
theory Hw_Run
  imports Hw_State
begin

text \<open>
  \<open>ucp_hello_world.c\<close>: the client, the server, the command line and \<open>main\<close>.

  The result of a run is a number, or nothing when the process killed itself with \<open>SIGKILL\<close> to
  emulate a failure; what the kernel then takes back is not the program's to release.
\<close>

section \<open>The client\<close>

text \<open>\<open>ucp_tag_probe_nb\<close>: the message and its length, if one has come.\<close>

definition tag_probe :: "('w, 'u, 'e) hw_env_scheme \<Rightarrow> nat \<Rightarrow> 'w hw \<Rightarrow>
    (nat \<times> u64) option \<times> 'w hw" where
  "tag_probe E wk s =
     (let (m, w) = u_probe E wk (world s); s = s\<lparr>world := w\<rparr>
      in (m, emit (case m of
                     None \<Rightarrow> EvCreate (TagProbe wk tag tag_mask) UCS_ERR_NO_MESSAGE 0
                   | Some (h, _) \<Rightarrow> EvCreate (TagProbe wk tag tag_mask) UCS_OK h) s))"

text \<open>
  One round of the \<open>for (;;)\<close> of the client: left with nothing (to \<open>err_ep\<close>) or with the message
  and its length.
\<close>

definition client_probe :: "('w, hw_upcall, 'e) hw_env_scheme \<Rightarrow> nat \<Rightarrow> 'w hw \<Rightarrow>
    ('w hw + (nat \<times> u64) option \<times> 'w hw) option" where
  "client_probe E wk s =
     (if ep_status s \<noteq> UCS_OK then Some (Inr (None, s))
      else
        let (msg_tag, s) = tag_probe E wk s
        in if msg_tag \<noteq> None then Some (Inr (msg_tag, s))
           else
             let (n, s) = ucp_worker_progress E hw_dispatch wk s
             in if n \<noteq> 0 then Some (Inl s)
                else if ucp_test_mode s = TEST_MODE_WAIT then
                  let (status, s) = call_status E (WorkerWait wk) s
                  in if status \<noteq> UCS_OK then Some (Inr (None, s)) else Some (Inl s)
                else if ucp_test_mode s = TEST_MODE_EVENTFD then
                  do { (status, s) \<leftarrow> test_poll_wait E wk s;
                       if status \<noteq> UCS_OK then Some (Inr (None, s)) else Some (Inl s) }
                else Some (Inl s))"

text \<open>The address message: the status of the send, or nothing when there is no memory.\<close>

definition send_address :: "('w, hw_upcall, 'e) hw_env_scheme \<Rightarrow> nat \<Rightarrow> nat \<Rightarrow> byte list \<Rightarrow> 'w hw \<Rightarrow>
    (ucs_status option \<times> 'w hw) option" where
  "send_address E wk server_ep local_addr s =
     (let local_addr_len = of_nat (length local_addr) :: u64;
          msg_len = sizeof_msg + local_addr_len;
          (msg, s) = malloc E msg_len s
      in if msg = 0 then Some (None, s)
         else
           let s = memset msg 0 (unat msg_len) s;
               s = store msg 0 (map Some (le_bytes 8 (unat local_addr_len))) s;
               s = store msg 8 (map Some local_addr) s;
               (request, s) = hw_post E (TagSend server_ep (Contig msg msg_len) tag None)
                                (buffer_bytes msg msg_len s) s
           in do { (status, s) \<leftarrow> ucx_wait E wk request s;
                   Some (Some status, c_free msg s) })"

text \<open>\<open>printf("%s", str)\<close> of a whole block.\<close>

definition print_block :: "nat \<Rightarrow> 'w hw \<Rightarrow> 'w hw" where
  "print_block str s =
     (case heap s str of
        None \<Rightarrow> fault (BadLoad str) s
      | Some bs \<Rightarrow> (case c_string bs of
                      None \<Rightarrow> fault BadString s
                    | Some x \<Rightarrow> emit (EvPrint x) s))"

text \<open>The receive of the test string: what \<open>ret\<close> is at the label \<open>err_ep\<close>.\<close>

definition receive_string :: "('w, hw_upcall, 'e) hw_env_scheme \<Rightarrow> nat \<Rightarrow> nat \<Rightarrow> u64 \<Rightarrow> 'w hw \<Rightarrow>
    (int \<times> 'w hw) option" where
  "receive_string E wk msg_tag len s =
     (let (msg, s) = mem_type_malloc E len s
      in if msg = 0 then Some (-1, s)
         else
           let (request, s) = hw_post E (TagMsgRecv wk (Contig msg len) msg_tag [NO_IMM_CMPL]) [] s
           in do {
             (status, s) \<leftarrow> ucx_wait E wk request s;
             if status \<noteq> UCS_OK then Some (-1, mem_type_free msg s)
             else
               let (str, s) = calloc E 1 (hw_string_length s) s
               in if str = 0 then Some (-1, mem_type_free msg s)
                  else
                    let s = mem_type_memcpy str 0 msg 8 (unat (hw_string_length s)) s;
                        s = c_free str (print_block str s)
                    in Some (0, mem_type_free msg s) })"

definition block_bytes :: "nat \<Rightarrow> 'w hw \<Rightarrow> byte option list" where
  "block_bytes p s = (case heap s p of None \<Rightarrow> [] | Some bs \<Rightarrow> bs)"

definition run_ucx_client :: "('w, hw_upcall, 'e) hw_env_scheme \<Rightarrow> nat \<Rightarrow> byte list \<Rightarrow> nat \<Rightarrow>
    'w hw \<Rightarrow> (int option \<times> 'w hw) option" where
  "run_ucx_client E wk local_addr peer_addr s =
     (let ((status, server_ep), s) =
            call_create E (EpCreateAddr wk (block_bytes peer_addr s) (ucp_err_mode s)) s
      in if status \<noteq> UCS_OK then Some (Some (-1), s)
         else do {
           (sent, s) \<leftarrow> send_address E wk server_ep local_addr s;
           if sent \<noteq> Some UCS_OK then
             do { s \<leftarrow> ep_close_err_mode E wk server_ep s; Some (Some (-1), s) }
           else if fail_mode s = FAILURE_MODE_RECV then Some (None, s)
           else do {
             (message, s) \<leftarrow> loop (client_probe E wk) s;
             case message of
               None \<Rightarrow> do { s \<leftarrow> ep_close_err_mode E wk server_ep s; Some (Some (-1), s) }
             | Some (msg_tag, len) \<Rightarrow>
                 if fail_mode s = FAILURE_MODE_KEEPALIVE then Some (None, s)
                 else do {
                   (ret, s) \<leftarrow> receive_string E wk msg_tag len s;
                   s \<leftarrow> ep_close_err_mode E wk server_ep s;
                   Some (Some ret, s) } } })"

section \<open>The server\<close>

text \<open>\<open>do \<dots> while (msg_tag == NULL)\<close>: a progress call and a probe.\<close>

definition server_probe :: "('w, hw_upcall, 'e) hw_env_scheme \<Rightarrow> nat \<Rightarrow> 'w hw \<Rightarrow>
    ('w hw + (nat \<times> u64) \<times> 'w hw) option" where
  "server_probe E wk s =
     (let s = hw_progress E wk s;
          (msg_tag, s) = tag_probe E wk s
      in case msg_tag of None \<Rightarrow> Some (Inl s) | Some m \<Rightarrow> Some (Inr (m, s)))"

text \<open>
  The receive of the client's address: the block it is kept in, a result to return, or nothing
  when the process killed itself.
\<close>

datatype received = Address nat | Failed int | Killed

definition receive_address :: "('w, hw_upcall, 'e) hw_env_scheme \<Rightarrow> nat \<Rightarrow> nat \<Rightarrow> u64 \<Rightarrow> 'w hw \<Rightarrow>
    (received \<times> 'w hw) option" where
  "receive_address E wk msg_tag len s =
     (let (msg, s) = malloc E len s
      in if msg = 0 then Some (Failed (-1), s)
         else
           let (request, s) = hw_post E (TagMsgRecv wk (Contig msg len) msg_tag [NO_IMM_CMPL]) [] s
           in do {
             (status, s) \<leftarrow> ucx_wait E wk request s;
             if status \<noteq> UCS_OK then Some (Failed (-1), c_free msg s)
             else if fail_mode s = FAILURE_MODE_SEND then Some (Killed, c_free msg s)
             else
               let (peer_addr_len, s) = msg_data_len msg s;
                   (peer_addr, s) = malloc E peer_addr_len s
               in if peer_addr = 0 then Some (Failed (-1), c_free msg s)
                  else
                    let s = memcpy peer_addr 0 msg 8 (unat peer_addr_len) s
                    in Some (Address peer_addr, c_free msg s) })"

definition wait_disconnected :: "('w, hw_upcall, 'e) hw_env_scheme \<Rightarrow> nat \<Rightarrow> 'w hw \<Rightarrow> 'w hw option" where
  "wait_disconnected E wk s = while_option (\<lambda>s. ep_status s = UCS_OK) (hw_progress E wk) s"

text \<open>The send of the test string: what \<open>ret\<close> is at the label \<open>err_ep\<close>.\<close>

definition send_string :: "('w, hw_upcall, 'e) hw_env_scheme \<Rightarrow> nat \<Rightarrow> nat \<Rightarrow> 'w hw \<Rightarrow>
    (int \<times> 'w hw) option" where
  "send_string E wk client_ep s =
     (let msg_len = sizeof_msg + hw_string_length s;
          (msg, s) = mem_type_malloc E msg_len s
      in if msg = 0 then Some (-1, s)
         else
           let s = mem_type_memset msg 0 (unat msg_len) s;
               s = set_msg_data_len msg (msg_len - sizeof_msg) s;
               (ret, s) = generate_test_string E msg 8 (ucast (hw_string_length s)) s
           in if ret < 0 then Some (ret, mem_type_free msg s)
              else
                let s = hw_progress E wk s;
                    (request, s) = hw_post E (TagSend client_ep (Contig msg msg_len) tag None)
                                     (buffer_bytes msg msg_len s) s
                in do {
                  (status, s) \<leftarrow> ucx_wait E wk request s;
                  if status \<noteq> UCS_OK then
                    if fail_mode s \<noteq> FAILURE_MODE_NONE then Some (-1, mem_type_free msg s)
                    else do { s \<leftarrow> wait_disconnected E wk s; Some (0, mem_type_free msg s) }
                  else do {
                    s \<leftarrow> (if fail_mode s = FAILURE_MODE_KEEPALIVE then wait_disconnected E wk s
                          else Some s);
                    (status, s) \<leftarrow> flush_ep E wk client_ep s;
                    Some (0, mem_type_free msg s) } })"

definition run_ucx_server :: "('w, hw_upcall, 'e) hw_env_scheme \<Rightarrow> nat \<Rightarrow> 'w hw \<Rightarrow>
    (int option \<times> 'w hw) option" where
  "run_ucx_server E wk s =
     do { ((msg_tag, len), s) \<leftarrow> loop (server_probe E wk) s;
          (received, s) \<leftarrow> receive_address E wk msg_tag len s;
          case received of
            Failed ret \<Rightarrow> Some (Some ret, s)
          | Killed \<Rightarrow> Some (None, s)
          | Address peer_addr \<Rightarrow>
              let ((status, client_ep), s) =
                    call_create E (EpCreateAddr wk (block_bytes peer_addr s) (ucp_err_mode s)) s;
                  ret = (if fail_mode s \<noteq> FAILURE_MODE_NONE then 0 else -1)
              in if status \<noteq> UCS_OK then Some (Some ret, s)
                 else do {
                   (ret, s) \<leftarrow> send_string E wk client_ep s;
                   s \<leftarrow> ep_close_err_mode E wk client_ep s;
                   Some (Some ret, s) } }"

section \<open>What the client and the server take and give back\<close>

lemma tag_probe_core:
  "tag_probe E wk s = (m, t) \<Longrightarrow> hw_core t = hw_core s \<and> held t = held s"
  by (auto simp: tag_probe_def Let_def split: prod.splits option.splits)

lemma client_probe_core:
  assumes run: "client_probe E wk s = Some r" and held: "held s = Some M"
  shows "case r of Inl t \<Rightarrow> hw_core t = hw_core s \<and> held t = Some M
                 | Inr (m, t) \<Rightarrow> hw_core t = hw_core s \<and> held t = Some M"
proof -
  obtain m s1 where p: "tag_probe E wk s = (m, s1)" by fastforce
  note k1 = tag_probe_core [OF p]
  obtain n s2 where q: "ucp_worker_progress E hw_dispatch wk s1 = (n, s2)" by fastforce
  have k2: "hw_core s2 = hw_core s" "held s2 = Some M"
    using hw_progress_core [where E = E and wk = wk and s = s1] k1 held by (simp_all add: q)
  obtain st3 s3 where c: "call_status E (WorkerWait wk) s2 = (st3, s3)" by fastforce
  have k3: "hw_core s3 = hw_core s" "held s3 = Some M"
    using call_status_core [OF c] k2 by (simp_all add: monitor_step_def)
  show ?thesis
    using run held k1 k2 k3 p q c test_poll_wait_core [of E wk s2]
    by (auto simp: client_probe_def Let_def bind_eq_Some_conv split: if_splits)
qed

lemma client_loop_core:
  assumes run: "loop (client_probe E wk) s = Some (m, t)" and held: "held s = Some M"
  shows "hw_core t = hw_core s" "held t = Some M"
proof -
  let ?P = "\<lambda>u. hw_core u = hw_core s \<and> held u = Some M"
  have "(\<lambda>(m, t). ?P t) (m, t)"
  proof (rule loop_rule [where P = ?P and Q = "\<lambda>(m, t). ?P t", OF run])
    fix u u' assume "?P u" "client_probe E wk u = Some (Inl u')"
    with client_probe_core [of E wk u "Inl u'" M] show "?P u'" by simp
  next
    fix u q assume "?P u" "client_probe E wk u = Some (Inr q)"
    with client_probe_core [of E wk u "Inr q" M] show "(\<lambda>(m, t). ?P t) q" by (cases q) simp
  qed (use held in simp)
  then show "hw_core t = hw_core s" "held t = Some M" by simp_all
qed

lemma send_address_keeps:
  assumes run: "send_address E wk ep local_addr s = Some (st, t)" and wf: "wf_heap s" and held: "held s = Some M"
  shows "hw_keeps s t" "held t = Some M"
proof -
  define len where "len = (of_nat (length local_addr) :: u64)"
  obtain msg s1 where m: "malloc E (sizeof_msg + len) s = (msg, s1)" by fastforce
  note k1 = malloc_holds [OF m wf]
  have "hw_keeps s t \<and> held t = Some M"
  proof (cases "msg = 0")
    case True
    with run m k1 held show ?thesis by (simp add: send_address_def len_def)
  next
    case False
    define s2 where "s2 = store msg 8 (map Some local_addr) (store msg 0 (map Some (le_bytes 8 (unat len)))
        (memset msg 0 (unat (sizeof_msg + len)) s1))"
    have k2: "hw_core s2 = hw_core s1" "held s2 = Some M" using k1(1) held by (simp_all add: s2_def)
    obtain r s3 where post: "hw_post E (TagSend ep (Contig msg (sizeof_msg + len)) tag None)
        (buffer_bytes msg (sizeof_msg + len) s2) s2 = (r, s3)" by fastforce
    from run m False post obtain st' s4 where w: "ucx_wait E wk r s3 = Some (st', s4)" and t: "t = c_free msg s4"
      by (auto simp: send_address_def len_def [symmetric] s2_def [symmetric] Let_def bind_eq_Some_conv)
    note k4 = post_wait_core [OF post w k2(2)]
    have "hw_holds msg s s4" by (rule hw_core_holds [of msg s s1]) (use k1(2) False k2 k4 in auto)
    with c_free_keeps [of msg s s4] wf k4 show ?thesis by (simp add: t)
  qed
  then show "hw_keeps s t" "held t = Some M" by blast+
qed

lemma print_block_core: "hw_core (print_block p s) = hw_core s" "held (print_block p s) = held s"
  by (simp_all add: print_block_def split: option.split)

lemma receive_string_keeps:
  assumes run: "receive_string E wk msg_tag len s = Some (ret, t)" and wf: "wf_heap s" and held: "held s = Some M"
  shows "hw_keeps s t" "held t = Some M" "ret = 0 \<or> ret = -1"
proof -
  obtain msg s1 where m: "mem_type_malloc E len s = (msg, s1)" by fastforce
  note k1 = mem_type_malloc_holds [OF m wf]
  have "hw_keeps s t \<and> held t = Some M \<and> (ret = 0 \<or> ret = -1)"
  proof (cases "msg = 0")
    case True
    with run m k1 held show ?thesis by (simp add: receive_string_def)
  next
    case False
    with k1 have h1: "hw_holds msg s s1" and host: "test_mem_type s = MEM_HOST" by simp_all
    obtain r s2 where post: "hw_post E (TagMsgRecv wk (Contig msg len) msg_tag [NO_IMM_CMPL]) [] s1 = (r, s2)" by fastforce
    from run m False post obtain st s3 where w: "ucx_wait E wk r s2 = Some (st, s3)"
      by (auto simp: receive_string_def bind_eq_Some_conv)
    have "held s1 = Some M" using k1(1) held by simp
    note k3 = post_wait_core [OF post w this]
    have h3: "hw_holds msg s s3" "held s3 = Some M" using hw_core_holds [OF h1] k3 by simp_all
    have wf3: "wf_heap s3" using hw_holds_wf [OF h3(1) wf] .
    note free = mem_type_free_keeps [OF _ wf host]
    obtain str s4 where c: "calloc E 1 (hw_string_length s3) s3 = (str, s4)" by fastforce
    note k4 = calloc_holds [OF c wf3]
    show ?thesis
    proof (cases "st \<noteq> UCS_OK \<or> str = 0")
      case True
      have "hw_keeps s3 s4" if "str = 0" using k4 that by simp
      with h3(1) have "hw_holds msg s s4" if "str = 0" using that hw_holds_trans by blast
      with run m False post w c True h3 k4(1) free show ?thesis
        by (auto simp: receive_string_def split: if_splits)
    next
      case ok: False
      define s6 where "s6 = print_block str (mem_type_memcpy str 0 msg 8 (unat (hw_string_length s4)) s4)"
      have k6: "hw_core s6 = hw_core s4" "held s6 = held s4" by (simp_all add: s6_def print_block_core)
      have "hw_holds str s3 s6" using k4 ok k6(1) hw_core_holds by auto
      then have "hw_keeps s3 (c_free str s6)" using wf3 by (rule c_free_keeps)
      with h3(1) have h7: "hw_holds msg s (c_free str s6)" by (rule hw_holds_trans)
      from run m False post w c ok have "ret = 0" "t = mem_type_free msg (c_free str s6)"
        by (simp_all add: receive_string_def Let_def s6_def)
      with free [OF h7] k6(2) k4(1) h3(2) show ?thesis by simp
    qed
  qed
  then show "hw_keeps s t" "held t = Some M" "ret = 0 \<or> ret = -1" by blast+
qed

lemma hw_keeps_mode: "hw_keeps s t \<Longrightarrow> fail_mode t = fail_mode s"
  by (simp add: hw_keeps_def hw_options_def)

text \<open>
  The client: back with 0 or -1 and everything released, or killed where the options ask for it.
\<close>

lemma run_ucx_client_keeps:
  assumes run: "run_ucx_client E wk local_addr peer s = Some (ret, t)" and wf: "wf_heap s" and held: "held s = Some M"
  shows "case ret of
           None \<Rightarrow> fail_mode s = FAILURE_MODE_RECV \<or> fail_mode s = FAILURE_MODE_KEEPALIVE
         | Some r \<Rightarrow> hw_keeps s t \<and> held t = Some M \<and> (r = 0 \<or> r = -1)"
proof -
  obtain st ep s1 where c: "call_create E (EpCreateAddr wk (block_bytes peer s) (ucp_err_mode s)) s = ((st, ep), s1)"
    by (metis surj_pair)
  note k1 = call_create_core [OF c]
  show ?thesis
  proof (cases "st = UCS_OK")
    case False
    with run c k1 held show ?thesis by (auto simp: run_ucx_client_def monitor_step_def hw_core_keeps)
  next
    case True
    let ?M = "add_mset (REp ep) M"
    have h1: "held s1 = Some ?M" using k1(2) True held by (simp add: monitor_step_def)
    have wf1: "wf_heap s1" by (rule hw_core_wf [OF k1(1) wf])
    from run c True obtain sent s2 where a: "send_address E wk ep local_addr s1 = Some (sent, s2)"
      by (auto simp: run_ucx_client_def bind_eq_Some_conv)
    note k2 = send_address_keeps [OF a wf1 h1]
    have s02: "hw_keeps s s2" using hw_core_keeps [OF k1(1)] k2(1) by (rule hw_keeps_trans)
    have close: "hw_keeps s v \<and> held v = Some M" if "ep_close_err_mode E wk ep u = Some v" "hw_keeps s u" "held u = Some ?M" for u v
      using ep_close_err_mode_core [OF that(1,3)] that(2) by (auto intro: hw_keeps_trans hw_core_keeps)
    consider (unsent) "sent \<noteq> Some UCS_OK" | (killed) "sent = Some UCS_OK" "fail_mode s2 = FAILURE_MODE_RECV"
      | (go) "sent = Some UCS_OK" "fail_mode s2 \<noteq> FAILURE_MODE_RECV" by blast
    then show ?thesis
    proof cases
      case unsent
      with run c True a close [OF _ s02 k2(2)] show ?thesis
        by (auto simp: run_ucx_client_def bind_eq_Some_conv)
    next
      case killed
      with run c True a hw_keeps_mode [OF s02] show ?thesis by (auto simp: run_ucx_client_def)
    next
      case go
      with run c True a obtain m s3 where l: "loop (client_probe E wk) s2 = Some (m, s3)"
        by (auto simp: run_ucx_client_def bind_eq_Some_conv)
      note k3 = client_loop_core [OF l k2(2)]
      have s03: "hw_keeps s s3" using s02 hw_core_keeps [OF k3(1)] by (rule hw_keeps_trans)
      show ?thesis
      proof (cases m)
        case None
        with run c True a go l close [OF _ s03 k3(2)] show ?thesis
          by (auto simp: run_ucx_client_def bind_eq_Some_conv)
      next
        case (Some p)
        obtain msg_tag len where p: "p = (msg_tag, len)" by (cases p)
        show ?thesis
        proof (cases "fail_mode s3 = FAILURE_MODE_KEEPALIVE")
          case True
          with run c \<open>st = UCS_OK\<close> a go l Some p hw_keeps_mode [OF s03] show ?thesis
            by (auto simp: run_ucx_client_def)
        next
          case False
          with run c True a go l Some p obtain r4 s4 where
              q: "receive_string E wk msg_tag len s3 = Some (r4, s4)"
            and cl: "ep_close_err_mode E wk ep s4 = Some t" and ret: "ret = Some r4"
            by (auto simp: run_ucx_client_def bind_eq_Some_conv)
          note k4 = receive_string_keeps [OF q hw_keeps_wf [OF s03 wf] k3(2)]
          have "hw_keeps s s4" using s03 k4(1) by (rule hw_keeps_trans)
          with close [OF cl _ k4(2)] k4(3) ret show ?thesis by simp
        qed
      qed
    qed
  qed
qed

lemma server_probe_core:
  assumes run: "server_probe E wk s = Some r"
  shows "case r of Inl t \<Rightarrow> hw_core t = hw_core s \<and> held t = held s
                 | Inr (m, t) \<Rightarrow> hw_core t = hw_core s \<and> held t = held s"
  using run tag_probe_core [of E wk "hw_progress E wk s"]
  by (auto simp: server_probe_def Let_def split: prod.splits option.splits)

lemma server_loop_core:
  assumes run: "loop (server_probe E wk) s = Some (m, t)"
  shows "hw_core t = hw_core s \<and> held t = held s"
proof -
  let ?P = "\<lambda>u. hw_core u = hw_core s \<and> held u = held s"
  have "(\<lambda>(m, t). ?P t) (m, t)"
  proof (rule loop_rule [where P = ?P and Q = "\<lambda>(m, t). ?P t", OF run])
    fix u u' assume "?P u" "server_probe E wk u = Some (Inl u')"
    with server_probe_core [of E wk u "Inl u'"] show "?P u'" by simp
  next
    fix u q assume "?P u" "server_probe E wk u = Some (Inr q)"
    with server_probe_core [of E wk u "Inr q"] show "(\<lambda>(m, t). ?P t) q" by (cases q) simp
  qed simp
  then show ?thesis by simp
qed

text \<open>
  The address: on success one more block, the address, is there; nothing in the program frees it.
\<close>

lemma receive_address_cases:
  assumes run: "receive_address E wk msg_tag len s = Some (r, t)" and wf: "wf_heap s" and held: "held s = Some M"
  shows "held t = Some M"
    "case r of Address p \<Rightarrow> hw_holds p s t
             | Failed ret \<Rightarrow> ret = -1 \<and> hw_keeps s t
             | Killed \<Rightarrow> fail_mode s = FAILURE_MODE_SEND"
proof -
  obtain msg s1 where m: "malloc E len s = (msg, s1)" by fastforce
  note k1 = malloc_holds [OF m wf]
  have "held t = Some M \<and> (case r of Address p \<Rightarrow> hw_holds p s t
             | Failed ret \<Rightarrow> ret = -1 \<and> hw_keeps s t
             | Killed \<Rightarrow> fail_mode s = FAILURE_MODE_SEND)"
  proof (cases "msg = 0")
    case True
    with run m k1 held show ?thesis by (auto simp: receive_address_def)
  next
    case False
    with k1 have h1: "hw_holds msg s s1" by simp
    obtain q s2 where post: "hw_post E (TagMsgRecv wk (Contig msg len) msg_tag [NO_IMM_CMPL]) [] s1 = (q, s2)" by fastforce
    from run m False post obtain st s3 where w: "ucx_wait E wk q s2 = Some (st, s3)"
      by (auto simp: receive_address_def bind_eq_Some_conv)
    have "held s1 = Some M" using k1(1) held by simp
    note k3 = post_wait_core [OF post w this]
    have h3: "hw_holds msg s s3" "held s3 = Some M" using hw_core_holds [OF h1] k3 by simp_all
    obtain n s4 where d: "msg_data_len msg s3 = (n, s4)" by fastforce
    have h4: "hw_holds msg s s4" "held s4 = Some M" using msg_data_len_core [OF d] h3 hw_core_holds by auto
    have wf4: "wf_heap s4" using hw_holds_wf [OF h4(1) wf] .
    obtain p s5 where a: "malloc E n s4 = (p, s5)" by fastforce
    note k5 = malloc_holds [OF a wf4]
    have mode: "fail_mode s3 = fail_mode s" using h3(1) by (simp add: hw_holds_def hw_options_def)
    consider (failed) "st \<noteq> UCS_OK" | (killed) "st = UCS_OK" "fail_mode s3 = FAILURE_MODE_SEND"
      | (no_mem) "st = UCS_OK" "fail_mode s3 \<noteq> FAILURE_MODE_SEND" "p = 0"
      | (ok) "st = UCS_OK" "fail_mode s3 \<noteq> FAILURE_MODE_SEND" "p \<noteq> 0" by blast
    then show ?thesis
    proof cases
      case failed
      with run m False post w c_free_keeps [OF h3(1) wf] h3(2) show ?thesis
        by (auto simp: receive_address_def)
    next
      case killed
      with run m False post w mode h3(2) show ?thesis by (auto simp: receive_address_def)
    next
      case no_mem
      then have "hw_keeps s4 s5" using k5 by simp
      with h4(1) have "hw_holds msg s s5" by (rule hw_holds_trans)
      from c_free_keeps [OF this wf] run m False post w d a no_mem k5(1) h4(2) show ?thesis
        by (auto simp: receive_address_def)
    next
      case ok
      define s6 where "s6 = memcpy p 0 msg 8 (unat n) s5"
      from run m False post w d a ok have r: "r = Address p" "t = c_free msg s6"
        by (auto simp: receive_address_def s6_def Let_def)
      have h5: "hw_holds p s4 s5" using k5(2) ok(3) by simp
      then have h6: "hw_holds p s4 s6" by (rule hw_core_holds) (simp add: s6_def)
      have neq: "p \<noteq> msg" using h4(1) h5 by (auto simp: hw_holds_def)
      have "hw_options t = hw_options s6" unfolding r(2) by (rule hw_options_heap_only) (rule heap_only_c_free)
      moreover have "heap_shape s msg = None" "msg \<noteq> 0"
        using h4(1) wf wf_heap_none [of s msg] by (auto simp: hw_holds_def heap_shape_def wf_heap_def)
      ultimately have "hw_holds p s t"
        using h4(1) h6 neq r by (auto simp: hw_holds_def heap_shape_c_free fun_eq_iff)
      moreover have "held t = Some M" using k5(1) h4(2) by (simp add: r s6_def)
      ultimately show ?thesis by (simp add: r)
    qed
  qed
  then show "held t = Some M"
    "case r of Address p \<Rightarrow> hw_holds p s t
             | Failed ret \<Rightarrow> ret = -1 \<and> hw_keeps s t
             | Killed \<Rightarrow> fail_mode s = FAILURE_MODE_SEND" by blast+
qed

lemma wait_disconnected_core:
  "wait_disconnected E wk s = Some t \<Longrightarrow> hw_core t = hw_core s \<and> held t = held s"
  using hw.wait_R [of "\<lambda>s. ep_status s = UCS_OK" E wk s t] by (simp add: wait_disconnected_def hw_frame_def)

lemma send_string_keeps:
  assumes run: "send_string E wk ep s = Some (ret, t)" and wf: "wf_heap s" and held: "held s = Some M"
  shows "hw_keeps s t" "held t = Some M" "ret = 0 \<or> ret = -1"
proof -
  let ?len = "sizeof_msg + hw_string_length s"
  obtain msg s1 where m: "mem_type_malloc E ?len s = (msg, s1)" by fastforce
  note k1 = mem_type_malloc_holds [OF m wf]
  have "hw_keeps s t \<and> held t = Some M \<and> (ret = 0 \<or> ret = -1)"
  proof (cases "msg = 0")
    case True
    with run m k1 held show ?thesis by (simp add: send_string_def Let_def)
  next
    case False
    with k1 have h1: "hw_holds msg s s1" and host: "test_mem_type s = MEM_HOST" by simp_all
    note free = mem_type_free_keeps [OF _ wf host]
    define s2 where "s2 = set_msg_data_len msg (?len - sizeof_msg) (mem_type_memset msg 0 (unat ?len) s1)"
    have h2: "hw_holds msg s s2" "held s2 = Some M"
      using hw_core_holds [OF h1] k1(1) held by (simp_all add: s2_def)
    obtain r3 s3 where g: "generate_test_string E msg 8 (ucast (hw_string_length s2)) s2 = (r3, s3)" by fastforce
    note k3 = generate_test_string_frame [OF g hw_holds_wf [OF h2(1) wf]]
    have s23: "hw_keeps s2 s3" "held s3 = Some M"
      using k3(2,3) hw_options_heap_only [OF k3(1)] heap_only_hw(11) [OF k3(1)] h2(2) by (simp_all add: hw_keeps_def)
    have h3: "hw_holds msg s s3" using h2(1) s23(1) by (rule hw_holds_trans)
    show ?thesis
    proof (cases "r3 < 0")
      case True
      with run m False g free [OF h3] s23(2) k3(5) show ?thesis
        by (auto simp: send_string_def Let_def s2_def)
    next
      case ok: False
      define s4 where "s4 = hw_progress E wk s3"
      have h4: "hw_holds msg s s4" "held s4 = Some M" using hw_core_holds [OF h3] s23(2) by (simp_all add: s4_def)
      obtain q s5 where post: "hw_post E (TagSend ep (Contig msg ?len) tag None) (buffer_bytes msg ?len s4) s4 = (q, s5)"
        by fastforce
      from run m False g ok post obtain st s6 where w: "ucx_wait E wk q s5 = Some (st, s6)"
        by (auto simp: send_string_def Let_def s2_def s4_def bind_eq_Some_conv)
      note k6 = post_wait_core [OF post w h4(2)]
      have h6: "hw_holds msg s s6" "held s6 = Some M" using hw_core_holds [OF h4(1)] k6 by simp_all
      have "\<exists>s7. hw_core s7 = hw_core s6 \<and> held s7 = Some M \<and> t = mem_type_free msg s7 \<and> (ret = 0 \<or> ret = -1)"
      proof (cases "st = UCS_OK")
        case False
        with run m \<open>msg \<noteq> 0\<close> g ok post w h6(2) show ?thesis
          by (fastforce simp: send_string_def Let_def s2_def s4_def bind_eq_Some_conv
              dest: wait_disconnected_core split: if_splits)
      next
        case True
        with run m False g ok post w obtain s7 st8 s8 where
            d: "(if fail_mode s6 = FAILURE_MODE_KEEPALIVE then wait_disconnected E wk s6 else Some s6) = Some s7"
          and f: "flush_ep E wk ep s7 = Some (st8, s8)" and t: "ret = 0" "t = mem_type_free msg s8"
          by (auto simp: send_string_def Let_def s2_def s4_def bind_eq_Some_conv)
        have k7: "hw_core s7 = hw_core s6" "held s7 = Some M"
          using d h6(2) by (auto split: if_splits dest: wait_disconnected_core)
        with flush_ep_core [OF f k7(2)] t show ?thesis by auto
      qed
      then obtain s7 where s7: "hw_core s7 = hw_core s6" "held s7 = Some M" "t = mem_type_free msg s7" "ret = 0 \<or> ret = -1"
        by blast
      have "hw_holds msg s s7" by (rule hw_core_holds [OF h6(1) s7(1)])
      from free [OF this] s7 show ?thesis by simp
    qed
  qed
  then show "hw_keeps s t" "held t = Some M" "ret = 0 \<or> ret = -1" by blast+
qed

text \<open>The block in which a server keeps the address of its client.\<close>

definition keeps_address :: "('w, hw_upcall, 'e) hw_env_scheme \<Rightarrow> nat \<Rightarrow> 'w hw \<Rightarrow> nat \<Rightarrow> bool" where
  "keeps_address E wk s p \<longleftrightarrow>
     (\<exists>msg_tag len s1 s2. loop (server_probe E wk) s = Some ((msg_tag, len), s1) \<and>
        receive_address E wk msg_tag len s1 = Some (Address p, s2))"

text \<open>
  The server: it gives back every handle, but whenever it reports success, and after every failure
  that comes later than the address, the block with the client's address is still there.
\<close>

lemma run_ucx_server_keeps:
  assumes run: "run_ucx_server E wk s = Some (ret, t)" and wf: "wf_heap s" and held: "held s = Some M"
  shows "case ret of
           None \<Rightarrow> fail_mode s = FAILURE_MODE_SEND
         | Some r \<Rightarrow> held t = Some M \<and> (r = 0 \<or> r = -1) \<and>
             ((\<exists>p. keeps_address E wk s p \<and> hw_holds p s t) \<or> r = -1 \<and> hw_keeps s t)"
proof -
  from run obtain msg_tag len s1 r2 s2 where l: "loop (server_probe E wk) s = Some ((msg_tag, len), s1)"
      and a: "receive_address E wk msg_tag len s1 = Some (r2, s2)"
    by (auto simp: run_ucx_server_def bind_eq_Some_conv)
  note k1 = server_loop_core [OF l]
  have s01: "hw_keeps s s1" "held s1 = Some M" using k1 held by (simp_all add: hw_core_keeps)
  note k2 = receive_address_cases [OF a hw_keeps_wf [OF s01(1) wf] s01(2)]
  show ?thesis
  proof (cases r2)
    case (Failed r)
    with run l a k2 s01 show ?thesis by (auto simp: run_ucx_server_def intro: hw_keeps_trans)
  next
    case Killed
    with run l a k2 hw_keeps_mode [OF s01(1)] show ?thesis by (auto simp: run_ucx_server_def)
  next
    case (Address p)
    with k2(2) s01(1) have h2: "hw_holds p s s2" by (auto intro: hw_keeps_holds)
    have wf2: "wf_heap s2" using h2 wf by (rule hw_holds_wf)
    have addr: "keeps_address E wk s p" using l a Address by (auto simp: keeps_address_def)
    obtain st ep s3 where c: "call_create E (EpCreateAddr wk (block_bytes p s2) (ucp_err_mode s2)) s2 = ((st, ep), s3)"
      by (metis surj_pair)
    note k3 = call_create_core [OF c]
    have h3: "hw_holds p s s3" using h2 k3(1) by (rule hw_core_holds)
    show ?thesis
    proof (cases "st = UCS_OK")
      case False
      with run l a Address c k2(1) k3(2) h3 addr show ?thesis
        by (auto simp: run_ucx_server_def monitor_step_def)
    next
      case True
      have held3: "held s3 = Some (add_mset (REp ep) M)" using k3(2) k2(1) True by (simp add: monitor_step_def)
      from run l a Address c True obtain r4 s4 where q: "send_string E wk ep s3 = Some (r4, s4)"
          and cl: "ep_close_err_mode E wk ep s4 = Some t" and ret: "ret = Some r4"
        by (auto simp: run_ucx_server_def bind_eq_Some_conv)
      note k4 = send_string_keeps [OF q hw_core_wf [OF k3(1) wf2] held3]
      have "hw_holds p s s4" using h3 k4(1) by (rule hw_holds_trans)
      then have "hw_holds p s t" using ep_close_err_mode_core(1) [OF cl k4(2)] by (rule hw_core_holds)
      with ep_close_err_mode_core(2) [OF cl k4(2)] k4(3) ret addr show ?thesis by auto
    qed
  qed
qed

end
