(* ===== verification/Hw_Main.thy ===== *)
theory Hw_Main
  imports Hw_Run
begin

text \<open>
  \<open>ucp_hello_world.c\<close>: the command line and \<open>main\<close>, which exchanges the worker addresses over a
  TCP connection before it runs the client or the server.
\<close>

section \<open>The command line\<close>

definition hw_parse_opt :: "('w, 'u, 'e) env_scheme \<Rightarrow> char \<Rightarrow> string \<Rightarrow> string option \<Rightarrow> 'w hw \<Rightarrow>
    ucs_status \<times> string option \<times> 'w hw" where
  "hw_parse_opt E c optarg server_name s =
     (if c = CHR ''w'' then (UCS_OK, server_name, s\<lparr>ucp_test_mode := TEST_MODE_WAIT\<rparr>)
      else if c = CHR ''f'' then (UCS_OK, server_name, s\<lparr>ucp_test_mode := TEST_MODE_EVENTFD\<rparr>)
      else if c = CHR ''b'' then (UCS_OK, server_name, s\<lparr>ucp_test_mode := TEST_MODE_PROBE\<rparr>)
      else if c = CHR ''e'' then
        let s = s\<lparr>ucp_err_mode := ERR_MODE_PEER\<rparr>
        in if optarg = ''recv'' then (UCS_OK, server_name, s\<lparr>fail_mode := FAILURE_MODE_RECV\<rparr>)
           else if optarg = ''send'' then (UCS_OK, server_name, s\<lparr>fail_mode := FAILURE_MODE_SEND\<rparr>)
           else if optarg = ''keepalive'' then (UCS_OK, server_name, s\<lparr>fail_mode := FAILURE_MODE_KEEPALIVE\<rparr>)
           else (UCS_ERR_UNSUPPORTED, server_name, s)
      else if c = CHR ''n'' then (UCS_OK, Some optarg, s)
      else if c = CHR ''6'' then (UCS_OK, server_name, s\<lparr>hw_ai_family := AF_INET6\<rparr>)
      else if c = CHR ''p'' then
        let s = s\<lparr>hw_server_port := ucast (atoi optarg)\<rparr>
        in if hw_server_port s \<le> 0 then (UCS_ERR_UNSUPPORTED, server_name, s)
           else (UCS_OK, server_name, s)
      else if c = CHR ''s'' then
        let s = s\<lparr>hw_string_length := atol optarg\<rparr>
        in if sint (hw_string_length s) < 0 then (UCS_ERR_UNSUPPORTED, server_name, s)
           else (UCS_OK, server_name, s)
      else if c = CHR ''m'' then
        let s = s\<lparr>test_mem_type := parse_mem_type optarg s\<rparr>
        in if test_mem_type s = MEM_LAST then (UCS_ERR_UNSUPPORTED, server_name, s)
           else (UCS_OK, server_name, s)
      else if c = CHR ''c'' then (UCS_OK, server_name, s\<lparr>print_config := 1\<rparr>)
      else (UCS_ERR_UNSUPPORTED, server_name, s))"

fun hw_parse_opts :: "('w, 'u, 'e) env_scheme \<Rightarrow> opt list \<Rightarrow> string option \<Rightarrow> 'w hw \<Rightarrow>
    ucs_status \<times> string option \<times> 'w hw" where
  "hw_parse_opts E [] server_name s = (UCS_OK, server_name, s)"
| "hw_parse_opts E ((c, optarg) # os) server_name s =
     (let (status, server_name, s) =
        hw_parse_opt E c (case optarg of None \<Rightarrow> [] | Some x \<Rightarrow> x) server_name s
      in if status \<noteq> UCS_OK then (status, server_name, s) else hw_parse_opts E os server_name s)"

definition hw_optstring :: string where
  "hw_optstring = ''wfb6e:n:p:s:m:ch''"

definition hw_parse_cmd :: "('w, 'u, 'e) env_scheme \<Rightarrow> string list \<Rightarrow> string option \<Rightarrow> 'w hw \<Rightarrow>
    ucs_status \<times> string option \<times> 'w hw" where
  "hw_parse_cmd E argv server_name s =
     hw_parse_opts E (fst (getopt_all hw_optstring argv)) server_name
       (s\<lparr>ucp_err_mode := ERR_MODE_NONE, fail_mode := FAILURE_MODE_NONE\<rparr>)"

section \<open>The exchange of addresses\<close>

text \<open>\<open>(int)n\<close> for an unsigned 64-bit \<open>n\<close>.\<close>

definition as_int :: "u64 \<Rightarrow> int" where
  "as_int n = sint (ucast n :: i32)"

text \<open>
  The \<open>ssize_t\<close> of \<open>recv\<close> and \<open>send\<close> in an \<open>int\<close>. For eight bytes it makes no difference: these calls
  return no more than they were asked for.
\<close>

definition ssize_as_int :: "int \<Rightarrow> int" where
  "ssize_as_int r = sint (word_of_int r :: i32)"

text \<open>
  Where the exchange leaves \<open>main\<close>: at one of its labels with the value of \<open>ret\<close>, or connected.
  \<open>peer_addr\<close> is the block of the peer's address, 0 as long as there is none.
\<close>

datatype exchange = Connected int nat | ErrPeerAddr int nat | ErrAddr int

definition oob_client :: "('w, hw_upcall, 'e) hw_env_scheme \<Rightarrow> string \<Rightarrow> 'w hw \<Rightarrow> exchange \<times> 'w hw" where
  "oob_client E server s =
     (let (oob_sock, s) = connect_common E (Some server) (hw_server_port s) (hw_ai_family s) s
      in if oob_sock < 0 then (ErrAddr (-1), s)
         else
           let ((ret, bs), s) = sock_recv E oob_sock 8 s
           in if ret \<noteq> 8 then (ErrAddr ret, s)
              else
                let peer_addr_len = of_nat (le_value bs) :: u64;
                    (peer_addr, s) = malloc E peer_addr_len s
                in if peer_addr = 0 then (ErrAddr ret, s)
                   else
                     let ((ret, bs), s) = sock_recv E oob_sock peer_addr_len s;
                         ret = ssize_as_int ret;
                         s = store peer_addr 0 (map Some bs) s
                     in if ret \<noteq> as_int peer_addr_len then (ErrPeerAddr ret peer_addr, s)
                        else (Connected oob_sock peer_addr, s))"

definition oob_server :: "('w, hw_upcall, 'e) hw_env_scheme \<Rightarrow> byte list \<Rightarrow> 'w hw \<Rightarrow> exchange \<times> 'w hw" where
  "oob_server E local_addr s =
     (let (oob_sock, s) = connect_common E None (hw_server_port s) (hw_ai_family s) s
      in if oob_sock < 0 then (ErrPeerAddr (-1) 0, s)
         else
           let local_addr_len = of_nat (length local_addr) :: u64;
               (ret, s) = sock E (SendBytes oob_sock (le_bytes 8 (unat local_addr_len))) s
           in if ret \<noteq> 8 then (ErrPeerAddr ret 0, s)
              else
                let (ret, s) = sock E (SendBytes oob_sock local_addr) s;
                    ret = ssize_as_int ret
                in if ret \<noteq> as_int local_addr_len then (ErrPeerAddr ret 0, s)
                   else (Connected oob_sock 0, s))"

section \<open>main\<close>

text \<open>From the connection to the label \<open>err_peer_addr\<close>.\<close>

definition run_connected :: "('w, hw_upcall, 'e) hw_env_scheme \<Rightarrow> nat \<Rightarrow> byte list \<Rightarrow> string option \<Rightarrow>
    int \<Rightarrow> nat \<Rightarrow> 'w hw \<Rightarrow> (int option \<times> 'w hw) option" where
  "run_connected E wk local_addr server_name oob_sock peer_addr s =
     do { (ret, s) \<leftarrow> (if server_name \<noteq> None then run_ucx_client E wk local_addr peer_addr s
                       else run_ucx_server E wk s);
          case ret of
            None \<Rightarrow> Some (None, s)
          | Some ret \<Rightarrow> do {
              (ret, s) \<leftarrow> (if ret = 0 \<and> fail_mode s = FAILURE_MODE_NONE
                           then barrier E oob_sock (hw_progress E wk) s
                           else Some (ret, s));
              Some (Some ret, snd (sock E (CloseFd oob_sock) s)) } }"

text \<open>From the worker to the label \<open>err_worker\<close>.\<close>

definition run_worker :: "('w, hw_upcall, 'e) hw_env_scheme \<Rightarrow> nat \<Rightarrow> string option \<Rightarrow> 'w hw \<Rightarrow>
    (int option \<times> 'w hw) option" where
  "run_worker E wk server_name s =
     (let (status, s) = call_status E (WorkerQuery wk) s
      in if status \<noteq> UCS_OK then Some (Some (-1), s)
         else
           let local_addr = u_address E wk (world s);
               (exchange, s) = (case server_name of
                                  Some server \<Rightarrow> oob_client E server s
                                | None \<Rightarrow> oob_server E local_addr s)
           in case exchange of
                ErrAddr ret \<Rightarrow> Some (Some ret, call_void E (ReleaseAddress wk) s)
              | ErrPeerAddr ret peer_addr \<Rightarrow>
                  Some (Some ret, call_void E (ReleaseAddress wk) (c_free peer_addr s))
              | Connected oob_sock peer_addr \<Rightarrow> do {
                  (ret, s) \<leftarrow> run_connected E wk local_addr server_name oob_sock peer_addr s;
                  case ret of
                    None \<Rightarrow> Some (None, s)
                  | Some ret \<Rightarrow>
                      Some (Some ret, call_void E (ReleaseAddress wk) (c_free peer_addr s)) })"

definition hw_main :: "('w, hw_upcall, 'e) hw_env_scheme \<Rightarrow> string list \<Rightarrow> 'w hw \<Rightarrow>
    (int option \<times> 'w hw) option" where
  "hw_main E argv s =
     (let (status, server_name, s) = hw_parse_cmd E argv None s
      in if status \<noteq> UCS_OK then Some (Some (-1), s)
         else
           let (status, s) = call_status E ConfigRead s
           in if status \<noteq> UCS_OK then Some (Some (-1), s)
              else
                let features = FEATURE_TAG # (if ucp_test_mode s = TEST_MODE_WAIT \<or>
                                                 ucp_test_mode s = TEST_MODE_EVENTFD
                                              then [FEATURE_WAKEUP] else []);
                    ((status, ctx), s) = call_create E (UcpInit features) s;
                    s = call_void E ConfigRelease s
                in if status \<noteq> UCS_OK then Some (Some (-1), s)
                   else
                     let ((status, wk), s) = call_create E (WorkerCreate ctx) s
                     in if status \<noteq> UCS_OK then Some (Some (-1), call_void E (UcpCleanup ctx) s)
                        else do {
                          (ret, s) \<leftarrow> run_worker E wk server_name s;
                          case ret of
                            None \<Rightarrow> Some (None, s)
                          | Some ret \<Rightarrow>
                              Some (Some ret, call_void E (UcpCleanup ctx)
                                                (call_void E (WorkerDestroy wk) s)) })"

section \<open>What the program takes and gives back\<close>

lemma connect_loop_core: "connect_loop N server ts fd0 s = (fd, t) \<Longrightarrow> hw_core t = hw_core s"
proof (induction N server ts fd0 s rule: connect_loop.induct)
  case (1 N server sockfd s)
  then show ?case by simp
next
  case (2 N server a ts uu s)
  then show ?case
    by (fastforce simp: Let_def split: prod.splits if_splits dest: sock_core(1))
qed

lemma connect_common_core:
  "connect_common N server port af s = (fd, t) \<Longrightarrow> hw_core t = hw_core s"
proof -
  assume run: "connect_common N server port af s = (fd, t)"
  obtain r res s1 where g: "getaddrinfo N server (snprintf_dec 8 (unat port)) af s = ((r, res), s1)"
    by (metis surj_pair)
  obtain fd2 s2 where l: "connect_loop N server res (-1) s1 = (fd2, s2)" by fastforce
  obtain r3 s3 where f: "sock N FreeAddrInfo s2 = (r3, s3)" by fastforce
  have "hw_core s1 = hw_core s" using g by (auto simp: getaddrinfo_def split: prod.splits)
  with run g l f connect_loop_core [OF l] sock_core(1) [OF f] show ?thesis
    by (auto simp: connect_common_def split: if_splits)
qed

lemma sock_recv_core:
  assumes "sock_recv N fd n s = ((r, bs), t)" shows "hw_core t = hw_core s" "held t = held s"
  using assms by (auto simp: sock_recv_def split: prod.splits)

lemma sock_send_held: "sock N (SendBytes fd bs) (s :: 'w hw) = (r, t) \<Longrightarrow> held t = held s"
  by (simp add: sock_core(2))

text \<open>
  The exchange: whatever it ends with, the socket is held if there is one, and on the client the
  block of the peer's address.
\<close>

definition exchange_block :: "exchange \<Rightarrow> nat" where
  "exchange_block x = (case x of Connected fd p \<Rightarrow> p | ErrPeerAddr ret p \<Rightarrow> p | ErrAddr ret \<Rightarrow> 0)"

definition hw_after :: "nat \<Rightarrow> 'w hw \<Rightarrow> 'w hw \<Rightarrow> bool" where
  "hw_after p s t \<longleftrightarrow> (if p = 0 then hw_keeps s t else hw_holds p s t)"

lemma hw_after_core: "hw_after p s t \<Longrightarrow> hw_core u = hw_core t \<Longrightarrow> hw_after p s u"
  by (auto simp: hw_after_def intro: hw_core_holds hw_keeps_trans hw_core_keeps)

lemma hw_after_wf: "hw_after p s t \<Longrightarrow> wf_heap s \<Longrightarrow> wf_heap t"
  by (auto simp: hw_after_def intro: hw_keeps_wf hw_holds_wf split: if_splits)

lemma hw_after_free: "hw_after p s t \<Longrightarrow> wf_heap s \<Longrightarrow> hw_keeps s (c_free p t)"
  using c_free_keeps [of p s t] by (cases "p = 0") (simp_all add: hw_after_def c_free_def)

lemma oob_server_cases:
  assumes eai: "\<And>node service af w r res w'. n_addrinfo E node service af w = ((r, res), w') \<Longrightarrow> r \<le> 0"
    and run: "oob_server E local_addr s = (x, t)" and held: "held s = Some M"
  shows "exchange_block x = 0" "hw_after (exchange_block x) s t"
    "\<exists>fd. held t = Some (M + fd_held fd) \<and> (case x of Connected fd' p \<Rightarrow> fd' = fd \<and> 0 \<le> fd | _ \<Rightarrow> True)"
proof -
  obtain fd s1 where c: "connect_common E None (hw_server_port s) (hw_ai_family s) s = (fd, s1)" by fastforce
  have k1: "hw_core s1 = hw_core s" "held s1 = Some (M + fd_held fd)"
    using connect_common_core [OF c] connect_common_held [OF eai c held] by simp_all
  obtain r2 s2 where a: "sock E (SendBytes fd (le_bytes 8 (unat (of_nat (length local_addr) :: u64)))) s1 = (r2, s2)" by fastforce
  obtain r3 s3 where b: "sock E (SendBytes fd local_addr) s2 = (r3, s3)" by fastforce
  have k: "hw_core s2 = hw_core s" "hw_core s3 = hw_core s" "held s2 = Some (M + fd_held fd)" "held s3 = Some (M + fd_held fd)"
    using sock_core(1) [OF a] sock_core(1) [OF b] sock_send_held [OF a] sock_send_held [OF b] k1 by simp_all
  have "exchange_block x = 0 \<and> hw_core t = hw_core s \<and> held t = Some (M + fd_held fd) \<and>
      (case x of Connected fd' p \<Rightarrow> fd' = fd \<and> 0 \<le> fd | _ \<Rightarrow> True)"
    using run c a b k k1 by (auto simp: oob_server_def exchange_block_def Let_def split: if_splits)
  then show "exchange_block x = 0" "hw_after (exchange_block x) s t"
    "\<exists>fd. held t = Some (M + fd_held fd) \<and> (case x of Connected fd' p \<Rightarrow> fd' = fd \<and> 0 \<le> fd | _ \<Rightarrow> True)"
    by (auto simp: hw_after_def hw_core_keeps)
qed

lemma oob_client_cases:
  assumes eai: "\<And>node service af w r res w'. n_addrinfo E node service af w = ((r, res), w') \<Longrightarrow> r \<le> 0"
    and run: "oob_client E server s = (x, t)" and held: "held s = Some M" and wf: "wf_heap s"
  shows "hw_after (exchange_block x) s t" "\<exists>fd. held t = Some (M + fd_held fd) \<and> (case x of Connected fd' p \<Rightarrow> fd' = fd \<and> 0 \<le> fd | _ \<Rightarrow> True)"
proof -
  obtain fd s1 where c: "connect_common E (Some server) (hw_server_port s) (hw_ai_family s) s = (fd, s1)" by fastforce
  have k1: "hw_core s1 = hw_core s" "held s1 = Some (M + fd_held fd)"
    using connect_common_core [OF c] connect_common_held [OF eai c held] by simp_all
  obtain r2 bs2 s2 where a: "sock_recv E fd 8 s1 = ((r2, bs2), s2)" by (metis surj_pair)
  have k2: "hw_core s2 = hw_core s" "held s2 = Some (M + fd_held fd)" using sock_recv_core [OF a] k1 by simp_all
  let ?len = "of_nat (le_value bs2) :: u64"
  obtain p s3 where m: "malloc E ?len s2 = (p, s3)" by fastforce
  note k3 = malloc_holds [OF m hw_core_wf [OF k2(1) wf]]
  have h3: "hw_after p s s3" "held s3 = Some (M + fd_held fd)"
    using k3(1,2) k2 hw_keeps_trans [OF hw_core_keeps [OF k2(1)]] hw_keeps_holds [OF hw_core_keeps [OF k2(1)]]
    by (auto simp: hw_after_def split: if_splits)
  obtain r4 bs4 s4 where b: "sock_recv E fd ?len s3 = ((r4, bs4), s4)" by (metis surj_pair)
  define s5 where "s5 = store p 0 (map Some bs4) s4"
  have k5: "hw_after p s s5" "held s5 = Some (M + fd_held fd)"
    using hw_after_core [OF h3(1), of s5] sock_recv_core [OF b] h3(2) by (simp_all add: s5_def)
  consider (no_sock) "fd < 0" | (short) "0 \<le> fd" "r2 \<noteq> 8" | (no_mem) "0 \<le> fd" "r2 = 8" "p = 0"
    | (all_read) "0 \<le> fd" "r2 = 8" "p \<noteq> 0" by linarith
  then have "hw_after (exchange_block x) s t \<and>
      (\<exists>fd. held t = Some (M + fd_held fd) \<and> (case x of Connected fd' p \<Rightarrow> fd' = fd \<and> 0 \<le> fd | _ \<Rightarrow> True))"
  proof cases
    case no_sock
    with run c k1 show ?thesis by (auto simp: oob_client_def exchange_block_def hw_after_def hw_core_keeps)
  next
    case short
    with run c a k2 show ?thesis by (auto simp: oob_client_def exchange_block_def hw_after_def hw_core_keeps)
  next
    case no_mem
    with run c a m h3 show ?thesis by (auto simp: oob_client_def exchange_block_def)
  next
    case all_read
    with run c a m b have "t = s5" "x = (if ssize_as_int r4 \<noteq> as_int ?len then ErrPeerAddr (ssize_as_int r4) p else Connected fd p)"
      by (auto simp: oob_client_def s5_def Let_def split: if_splits)
    with k5 all_read show ?thesis by (auto simp: exchange_block_def)
  qed
  then show "hw_after (exchange_block x) s t"
    "\<exists>fd. held t = Some (M + fd_held fd) \<and> (case x of Connected fd' p \<Rightarrow> fd' = fd \<and> 0 \<le> fd | _ \<Rightarrow> True)" by blast+
qed

lemma barrier_core:
  assumes run: "barrier E fd (hw_progress E wk) s = Some (ret, t)"
  shows "hw_core t = hw_core s" "held t = held s"
proof -
  obtain r1 s1 where a: "sock E (SendBytes fd [0, 0, 0, 0]) s = (r1, s1)" by fastforce
  have k1: "hw_core s1 = hw_core s" "held s1 = held s" using sock_core [OF a] by simp_all
  have poll: "hw_core (hw_progress E wk v) = hw_core u \<and> held (hw_progress E wk v) = held u"
    if "sock E (PollIn fd) u = (r, v)" for u v r
    using sock_core [OF that] by simp
  have "hw_core t = hw_core s \<and> held t = held s"
  proof (cases "r1 < 0")
    case True
    with run a k1 show ?thesis by (simp add: barrier_def)
  next
    case False
    obtain r2 s2 where p: "sock E (PollIn fd) s1 = (r2, s2)" by fastforce
    let ?R = "\<lambda>(a, u) (b, v). hw_core v = hw_core u \<and> held v = held u"
    from run a False p obtain y where
        w: "while_option (\<lambda>(res, s). res \<noteq> 1)
             (\<lambda>(_, s). let (res, s) = sock E (PollIn fd) s in (res, hw_progress E wk s)) (r2, hw_progress E wk s2) = Some y"
      by (auto simp: barrier_def bind_eq_Some_conv)
    obtain r3 s3 where y: "y = (r3, s3)" by (cases y)
    obtain r4 bs4 s4 where rc: "sock_recv E fd 4 s3 = ((r4, bs4), s4)" by (metis surj_pair)
    from run a False p w y rc have t: "t = s4" by (auto simp: barrier_def)
    have "?R (r2, hw_progress E wk s2) (r3, s3)"
      by (rule while_option_rel [OF w [unfolded y], where R = ?R]) (auto dest: poll split: prod.splits)
    with poll [OF p] k1 t y rc sock_recv_core [OF rc] show ?thesis by simp
  qed
  then show "hw_core t = hw_core s" "held t = held s" by blast+
qed

text \<open>
  The run over a connected socket: it is closed, and the blocks are those of before, but for the
  one a server leaves.
\<close>

lemma run_connected_cases:
  assumes run: "run_connected E wk local_addr server_name fd p s = Some (Some ret, t)"
    and wf: "wf_heap s" and held: "held s = Some (M + fd_held fd)"
  shows "held t = Some M" "hw_keeps s t \<or> server_name = None \<and> (\<exists>q. hw_holds q s t)"
proof -
  define body where "body = (if server_name \<noteq> None then run_ucx_client E wk local_addr p s else run_ucx_server E wk s)"
  from run obtain r1 s1 where b: "body = Some (Some r1, s1)"
      and rest: "do { (ret, s) \<leftarrow> (if r1 = 0 \<and> fail_mode s1 = FAILURE_MODE_NONE
                           then barrier E fd (hw_progress E wk) s1 else Some (r1, s1));
              Some (Some ret, snd (sock E (CloseFd fd) s)) } = Some (Some ret, t)"
    by (auto simp: run_connected_def body_def bind_eq_Some_conv split: option.splits)
  have k1: "held s1 = Some (M + fd_held fd) \<and> (hw_keeps s s1 \<or> server_name = None \<and> (\<exists>q. hw_holds q s s1))"
    using b run_ucx_client_keeps [OF _ wf held, of E wk local_addr p "Some r1" s1]
      run_ucx_server_keeps [OF _ wf held, of E wk "Some r1" s1]
    by (auto simp: body_def split: if_splits)
  from rest obtain r2 s2 where br: "(if r1 = 0 \<and> fail_mode s1 = FAILURE_MODE_NONE
        then barrier E fd (hw_progress E wk) s1 else Some (r1, s1)) = Some (r2, s2)"
      and t: "t = snd (sock E (CloseFd fd) s2)"
    by (auto simp: bind_eq_Some_conv)
  have k2: "hw_core s2 = hw_core s1" "held s2 = held s1"
    using br barrier_core [of E fd wk s1 r2 s2] by (auto split: if_splits)
  with k1 have "held s2 = Some (M + fd_held fd)" by simp
  note c = epoll_close_core [where E = E, OF this]
  from c t show "held t = Some M" by simp
  have "hw_core t = hw_core s1" using c k2 t by simp
  with k1 show "hw_keeps s t \<or> server_name = None \<and> (\<exists>q. hw_holds q s t)"
    by (auto intro: hw_keeps_trans hw_core_keeps hw_core_holds)
qed

text \<open>What is left at the end of a run: at most one socket, and on a server at most one block.\<close>

definition hw_left :: "resource multiset \<Rightarrow> string option \<Rightarrow> 'w hw \<Rightarrow> 'w hw \<Rightarrow> bool" where
  "hw_left M server_name s t \<longleftrightarrow>
     (\<exists>fd. held t = Some (M + fd_held fd)) \<and>
     (hw_keeps s t \<or> server_name = None \<and> (\<exists>q. hw_holds q s t))"

lemma hw_left_release:
  assumes "hw_left (M + {#h#}) sn s t" "released_by c = {#h#}"
  shows "hw_left M sn s (call_void E c t)"
  using assms hw_core_holds [of _ s t "call_void E c t"]
  by (auto simp: hw_left_def monitor_step_def)

lemma hw_left_core:
  "hw_core s = hw_core s0 \<Longrightarrow> hw_left M sn s t \<Longrightarrow> hw_left M sn s0 t"
  by (auto simp: hw_left_def intro: hw_keeps_trans [OF hw_core_keeps] hw_keeps_holds [OF hw_core_keeps])

lemma hw_left_same: "hw_core t = hw_core s \<Longrightarrow> held t = Some M \<Longrightarrow> hw_left M sn s t"
  by (auto simp: hw_left_def fd_held_def hw_core_keeps intro: exI [of _ "-1"])

lemma run_worker_cases:
  assumes eai: "\<And>node service af w r res w'. n_addrinfo E node service af w = ((r, res), w') \<Longrightarrow> r \<le> 0"
    and run: "run_worker E wk server_name s = Some (Some ret, t)" and wf: "wf_heap s" and held: "held s = Some M"
  shows "hw_left M server_name s t"
proof -
  obtain st s1 where q: "call_status E (WorkerQuery wk) s = (st, s1)" by fastforce
  note k1 = call_status_core [OF q]
  show ?thesis
  proof (cases "st = UCS_OK")
    case False
    with run q k1 held show ?thesis by (auto simp: run_worker_def monitor_step_def intro: hw_left_same)
  next
    case True
    have h1: "held s1 = Some (M + {#RAddress wk#})" using k1(2) held True by (simp add: monitor_step_def)
    have wf1: "wf_heap s1" using k1(1) wf by (rule hw_core_wf)
    define la where "la = u_address E wk (world s1)"
    obtain x s2 where e: "(case server_name of Some server \<Rightarrow> oob_client E server s1
        | None \<Rightarrow> oob_server E la s1) = (x, s2)" by fastforce
    have ex: "hw_after (exchange_block x) s1 s2 \<and> (server_name = None \<longrightarrow> exchange_block x = 0) \<and>
        (\<exists>fd. held s2 = Some (M + {#RAddress wk#} + fd_held fd) \<and>
          (case x of Connected fd' p \<Rightarrow> fd' = fd \<and> 0 \<le> fd | _ \<Rightarrow> True))"
    proof (cases server_name)
      case None
      with e have "oob_server E la s1 = (x, s2)" by simp
      from oob_server_cases [OF eai this h1] None show ?thesis by simp
    next
      case (Some server)
      with e have "oob_client E server s1 = (x, s2)" by simp
      from oob_client_cases [OF eai this h1 wf1] Some show ?thesis by simp
    qed
    then obtain fd where h2: "held s2 = Some (M + {#RAddress wk#} + fd_held fd)"
        "case x of Connected fd' p \<Rightarrow> fd' = fd \<and> 0 \<le> fd | _ \<Rightarrow> True" by blast
    note after = conjunct1 [OF ex]
    have end_here: "hw_left M server_name s (call_void E (ReleaseAddress wk) (c_free (exchange_block x) s2))"
      by (rule hw_left_release, rule hw_left_core [OF k1(1)])
        (use h2 hw_after_free [OF after wf1] in \<open>auto simp: hw_left_def\<close>)
    show ?thesis
    proof (cases x)
      case (Connected fd' p)
      with run q True e obtain r3 s3 where
          c: "run_connected E wk la server_name fd p s2 = Some (Some r3, s3)"
        and t: "t = call_void E (ReleaseAddress wk) (c_free p s3)"
        using h2(2) by (auto simp: run_worker_def la_def bind_eq_Some_conv split: option.splits)
      note k3 = run_connected_cases [OF c hw_after_wf [OF after wf1] h2(1)]
      have "hw_left (M + {#RAddress wk#}) server_name s1 (c_free p s3)"
        using k3(2)
      proof
        assume k: "hw_keeps s2 s3"
        then have "hw_after p s1 s3" using after Connected
          by (auto simp: hw_after_def exchange_block_def intro: hw_keeps_trans hw_holds_trans split: if_splits)
        with hw_after_free [OF this wf1] k3(1) show ?thesis
          by (auto simp: hw_left_def fd_held_def intro: exI [of _ "-1"])
      next
        assume k: "server_name = None \<and> (\<exists>q. hw_holds q s2 s3)"
        with ex Connected have "p = 0" "hw_keeps s1 s2" by (auto simp: exchange_block_def hw_after_def)
        with k k3(1) show ?thesis
          by (auto simp: hw_left_def c_free_def fd_held_def intro: exI [of _ "-1"] hw_keeps_holds)
      qed
      then show ?thesis unfolding t by (intro hw_left_release [OF hw_left_core [OF k1(1)]]) simp_all
    next
      case (ErrPeerAddr r p)
      with run q True e [unfolded la_def] end_here show ?thesis by (auto simp: run_worker_def Let_def exchange_block_def)
    next
      case (ErrAddr r)
      with run q True e [unfolded la_def] end_here show ?thesis by (auto simp: run_worker_def Let_def exchange_block_def c_free_def)
    qed
  qed
qed

section \<open>The whole program\<close>

lemma hw_parse_opt_process:
  "hw_parse_opt E c a sn s = (st, sn', t) \<Longrightarrow>
   heap t = heap s \<and> brk t = brk s \<and> trace t = trace s \<and> world t = world s \<and>
   faults t = faults s \<and> ep_status t = ep_status s \<and> req_completed t = req_completed s"
  by (auto simp: hw_parse_opt_def Let_def split: if_splits)

lemma hw_parse_opts_process:
  "hw_parse_opts E os sn s = (st, sn', t) \<Longrightarrow>
   heap t = heap s \<and> brk t = brk s \<and> trace t = trace s \<and> world t = world s \<and>
   faults t = faults s \<and> ep_status t = ep_status s \<and> req_completed t = req_completed s"
proof (induction E os sn s rule: hw_parse_opts.induct)
  case (2 E c a os sn s)
  obtain st1 sn1 s1 where o: "hw_parse_opt E c (case a of None \<Rightarrow> [] | Some x \<Rightarrow> x) sn s = (st1, sn1, s1)"
    by (metis surj_pair)
  from 2 hw_parse_opt_process [OF o] show ?case by (auto simp: o split: if_splits)
qed simp

lemma hw_parse_cmd_process:
  "hw_parse_cmd E argv sn s = (st, sn', t) \<Longrightarrow>
   heap t = heap s \<and> brk t = brk s \<and> trace t = trace s \<and> world t = world s \<and>
   faults t = faults s \<and> ep_status t = ep_status s \<and> req_completed t = req_completed s"
  by (auto simp: hw_parse_cmd_def dest!: hw_parse_opts_process)

lemma hw_main_cases:
  assumes eai: "\<And>node service af w r res w'. n_addrinfo E node service af w = ((r, res), w') \<Longrightarrow> r \<le> 0"
    and run: "hw_main E argv s = Some (Some ret, t)" and wf: "wf_heap s" and held: "held s = Some {#}"
  shows "\<exists>st sn s'. hw_parse_cmd E argv None s = (st, sn, s') \<and> hw_left {#} sn s' t"
proof -
  obtain st sn s1 where p: "hw_parse_cmd E argv None s = (st, sn, s1)" by (metis surj_pair)
  note k1 = hw_parse_cmd_process [OF p]
  have wf1: "wf_heap s1" and h1: "held s1 = Some {#}" using k1 wf held by (simp_all add: wf_heap_def)
  obtain st2 s2 where c2: "call_status E ConfigRead s1 = (st2, s2)" by fastforce
  note k2 = call_status_core [OF c2]
  define fs where "fs = FEATURE_TAG # (if ucp_test_mode s2 = TEST_MODE_WAIT \<or> ucp_test_mode s2 = TEST_MODE_EVENTFD
    then [FEATURE_WAKEUP] else [])"
  obtain st3 ctx s3 where c3: "call_create E (UcpInit fs) s2 = ((st3, ctx), s3)" by (metis surj_pair)
  note k3 = call_create_core [OF c3]
  define s4 where "s4 = call_void E ConfigRelease s3"
  obtain st5 wk s5 where c5: "call_create E (WorkerCreate ctx) s4 = ((st5, wk), s5)" by (metis surj_pair)
  note k5 = call_create_core [OF c5]
  have core: "hw_core s2 = hw_core s1" "hw_core s4 = hw_core s1" "hw_core s5 = hw_core s1"
    using k2 k3 k5 by (simp_all add: s4_def)
  have "hw_left {#} sn s1 t"
  proof (cases "st = UCS_OK \<and> st2 = UCS_OK")
    case False
    with run p c2 k2 h1 show ?thesis
      by (auto simp: hw_main_def monitor_step_def intro: hw_left_same split: if_splits)
  next
    case ok: True
    have h4: "held s4 = Some (if st3 = UCS_OK then {#RContext ctx#} else {#})"
      using k2(2) k3(2) h1 ok by (simp add: s4_def monitor_step_def)
    show ?thesis
    proof (cases "st3 = UCS_OK")
      case False
      with run p c2 c3 ok h4 core show ?thesis
        by (auto simp: hw_main_def fs_def s4_def Let_def intro: hw_left_same)
    next
      case True
      show ?thesis
      proof (cases "st5 = UCS_OK")
        case False
        have "hw_core (call_void E (UcpCleanup ctx) s5) = hw_core s1" using core by simp
        with False run p c2 c3 c5 ok h4 k5(2) True show ?thesis
          by (auto simp: hw_main_def fs_def s4_def Let_def monitor_step_def intro: hw_left_same)
      next
        case created: True
        have h5: "held s5 = Some ({#} + {#RContext ctx#} + {#RWorker wk#})"
          using k5(2) h4 True created by (simp add: monitor_step_def)
        from run p c2 c3 c5 ok True created obtain s6 where
            w: "run_worker E wk sn s5 = Some (Some ret, s6)"
          and t: "t = call_void E (UcpCleanup ctx) (call_void E (WorkerDestroy wk) s6)"
          by (auto simp: hw_main_def fs_def s4_def Let_def bind_eq_Some_conv split: option.splits)
        have "hw_left ({#} + {#RContext ctx#} + {#RWorker wk#}) sn s5 s6"
          by (rule run_worker_cases [OF eai w hw_core_wf [OF core(3) wf1] h5])
        then have "hw_left ({#} + {#RContext ctx#} + {#RWorker wk#}) sn s1 s6" by (rule hw_left_core [OF core(3)])
        then show ?thesis unfolding t by (intro hw_left_release) simp_all
      qed
    qed
  qed
  with p show ?thesis by blast
qed

lemmas hw_run [run_simps] =
  request_init_def set_completed_def send_handler_def recv_handler_def failure_handler_def hw_post_def
  sizeof_msg_def set_msg_data_len_def msg_data_len_def buffer_bytes_def completed_def ucx_wait_def
  epoll_again_def test_poll_wait_def ep_close_err_mode_def flush_ep_def tag_probe_def client_probe_def
  send_address_def print_block_def receive_string_def block_bytes_def run_ucx_client_def server_probe_def
  receive_address_def wait_disconnected_def send_string_def run_ucx_server_def hw_parse_opt_def
  hw_optstring_def hw_parse_cmd_def as_int_def ssize_as_int_def oob_client_def oob_server_def run_connected_def
  run_worker_def hw_main_def hw_init_def

end
