(* ===== verification/Hw_Session.thy ===== *)
theory Hw_Session
  imports Hw_Main "HOL-Library.Sublist"
begin

text \<open>
  What holds of \<open>ucp_hello_world\<close>: what is left when it ends, the command line, the exchange of
  addresses, the waits, the two messages between client and server, reads outside a block, and the
  failures it emulates.
\<close>

section \<open>An environment for runs\<close>

text \<open>
  Every call succeeds at once; every progress call reports a lost peer; every probe finds message
  6 of the given length, and its receive has written the given bytes from the first byte of the
  buffer on, and has called back, when the call returns.
\<close>

definition hw_obliging :: "byte list \<Rightarrow> u64 \<Rightarrow> byte list \<Rightarrow> (nat, hw_upcall) hw_env" where
  "hw_obliging addr len data = net_env.extend
     (obliging_net\<lparr>u_post := (\<lambda>c bs w. case c of TagMsgRecv _ _ _ _ \<Rightarrow> ((ReqPtr 6, []), w)
                                      | _ \<Rightarrow> ((ReqNull, []), w)),
                   u_early := (\<lambda>c q w. case c of TagMsgRecv _ (Contig p n) _ _ \<Rightarrow> [HwWrite (p, 0, data), HwRecv q UCS_OK]
                                       | _ \<Rightarrow> []),
                   u_progress := (\<lambda>wk w. ((1, [HwFailure (UCS_ERR 1)]), w))\<rparr>)
     \<lparr>u_address = (\<lambda>wk w. addr), u_probe = (\<lambda>wk w. (Some (6, len), w)), errno_eintr = (\<lambda>w. False)\<rparr>"

lemma hw_obliging_simps [simp]:
  "alloc_ok (hw_obliging addr len data) n w = (True, w)" "u_void (hw_obliging addr len data) c w = w"
  "u_status (hw_obliging addr len data) c w = (UCS_OK, w)" "u_create (hw_obliging addr len data) c w = ((UCS_OK, 1), w)"
  "u_post (hw_obliging addr len data) (TagMsgRecv wk pl m fl) bs w = ((ReqPtr 6, []), w)"
  "u_early (hw_obliging addr len data) (TagMsgRecv wk (Contig p k) m fl) q w = [HwWrite (p, 0, data), HwRecv q UCS_OK]"
  "u_post (hw_obliging addr len data) (TagSend ep pl tg u) bs w = ((ReqNull, []), w)"
  "u_post (hw_obliging addr len data) (EpClose ep force) bs w = ((ReqNull, []), w)"
  "u_post (hw_obliging addr len data) (EpFlush ep) bs w = ((ReqNull, []), w)"
  "u_progress (hw_obliging addr len data) wk w = ((1, [HwFailure (UCS_ERR 1)]), w)"
  "u_check (hw_obliging addr len data) r w = UCS_OK"
  "u_address (hw_obliging addr len data) wk w = addr" "u_probe (hw_obliging addr len data) wk w = (Some (6, len), w)"
  "n_addrinfo (hw_obliging addr len data) server service af w = ((0, [AF_INET]), w)"
  "n_call (hw_obliging addr len data) (Socket af) w = (int w + 3, w + 1)"
  "n_call (hw_obliging addr len data) (Accept fd) w = (int w + 3, w + 1)"
  "n_call (hw_obliging addr len data) EpollCreate w = (int w + 3, w + 1)"
  "n_call (hw_obliging addr len data) (EpollAdd fd efd) w = (0, w)"
  "n_call (hw_obliging addr len data) (EpollWait fd) w = (1, w)" "n_call (hw_obliging addr len data) (PollIn fd) w = (1, w)"
  "n_call (hw_obliging addr len data) (SendBytes fd ds) w = (int (length ds), w)"
  "n_call (hw_obliging addr len data) (Connect fd) w = (0, w)"
  "n_call (hw_obliging addr len data) (SetReuse fd) w = (0, w)" "n_call (hw_obliging addr len data) (Bind fd) w = (0, w)"
  "n_call (hw_obliging addr len data) (Listen fd) w = (0, w)" "n_call (hw_obliging addr len data) (CloseFd fd) w = (0, w)"
  "n_call (hw_obliging addr len data) FreeAddrInfo w = (0, w)"
  "n_recv (hw_obliging addr len data) fd k w = ((uint k, replicate (unat k) 0), w)"
  "errno_eintr (hw_obliging addr len data) w = False"
  by (simp_all add: hw_obliging_def obliging_net_def obliging_env_def env.defs net_env.defs)

lemma hw_init_state [simp]:
  "wf_heap (hw_init w)" "held (hw_init w) = Some {#}" "heap_shape (hw_init w) = (\<lambda>_. None)"
  "test_mem_type (hw_init w) = MEM_HOST" "heap (hw_init w) = (\<lambda>_. None)" "brk (hw_init w) = 1"
  "trace (hw_init w) = []" "faults (hw_init w) = []" "fail_mode (hw_init w) = FAILURE_MODE_NONE"
  "hw_string_length (hw_init w) = 16"
  by (simp_all add: hw_init_def wf_heap_def heap_shape_def fun_eq_iff)

section \<open>Properties\<close>

text \<open>
  C21: Whatever UCX, the network and the allocator answer, when \<open>ucp_hello_world\<close> returns from \<open>main\<close>
  it has released every context, worker, endpoint, request, address and configuration exactly once
  and has closed every descriptor but at most one. A client leaves no block of memory; a server leaves at most one. (\<open>getaddrinfo\<close> reports errors by
  numbers that are not positive.)
\<close>

theorem hello_world_leaves_at_most_socket_and_block:
  assumes "\<And>node service af w r res w'. n_addrinfo E node service af w = ((r, res), w') \<Longrightarrow> r \<le> 0"
    and "hw_main E argv (hw_init w) = Some (Some ret, t)"
  shows "(held t = Some {#} \<or> (\<exists>fd. held t = Some {#RFd fd#})) \<and>
    (heap t = (\<lambda>_. None) \<or>
     fst (snd (hw_parse_cmd E argv None (hw_init w))) = None \<and> (\<exists>p bs. heap t = [p \<mapsto> bs]))"
proof -
  obtain st sn s' where p: "hw_parse_cmd E argv None (hw_init w) = (st, sn, s')"
      and l: "hw_left {#} sn s' t"
  proof -
    have "\<exists>st sn s'. hw_parse_cmd E argv None (hw_init w) = (st, sn, s') \<and> hw_left {#} sn s' t"
      by (rule hw_main_cases [OF assms]) simp_all
    then show thesis using that by blast
  qed
  have sh: "heap_shape s' = (\<lambda>_. None)"
    using hw_parse_cmd_process [OF p] by (simp add: heap_shape_def fun_eq_iff)
  have one: "heap t = [q \<mapsto> the (heap t q)]" if "heap_shape t = [q \<mapsto> k]" for q k
  proof
    fix x show "heap t x = [q \<mapsto> the (heap t q)] x"
      using fun_cong [OF that, of x] by (auto simp: heap_shape_def split: if_splits)
  qed
  have none: "heap t = (\<lambda>_. None)" if "heap_shape t = (\<lambda>_. None)"
  proof
    fix x show "heap t x = None" using fun_cong [OF that, of x] by (simp add: heap_shape_def)
  qed
  show ?thesis using l one none by (auto simp: hw_left_def fd_held_def hw_keeps_def hw_holds_def p sh)
qed

text \<open>A server whose client sends an address of three bytes.\<close>

theorem hello_world_leaves_at_most_socket_and_block_witness:
  "\<exists>t. hw_main (hw_obliging [1, 2] 11 (le_bytes 8 3 @ [7, 8, 9])) [''-s'', ''2''] (hw_init 0) = Some (Some 0, t) \<and>
     (held t = Some {#} \<or> (\<exists>fd. held t = Some {#RFd fd#})) \<and> (heap t = (\<lambda>_. None) \<or> (\<exists>p bs. heap t = [p \<mapsto> bs]))"
proof -
  let ?E = "hw_obliging [1, 2] 11 (le_bytes 8 3 @ [7, 8, 9])"
  have "map_option fst (hw_main ?E [''-s'', ''2''] (hw_init 0)) = Some (Some 0)"
    by (simp add: run_simps loop_next loop_exit cong: run_congs)
  from map_fst_Some [OF this] obtain t where t: "hw_main ?E [''-s'', ''2''] (hw_init 0) = Some (Some 0, t)" ..
  with hello_world_leaves_at_most_socket_and_block [OF _ t] show ?thesis by auto
qed

text \<open>
  C24: Whenever the server of \<open>ucp_hello_world\<close> reports success, it has given back every handle and
  every block except exactly one: the block in which \<open>receive_address\<close> has put the address of the
  client is never freed.
\<close>

theorem hello_world_server_leaks_address:
  assumes "run_ucx_server E wk s = Some (Some 0, t)" and "wf_heap s" and "held s = Some M"
  shows "held t = Some M \<and>
    (\<exists>msg_tag len s1 p s2 k. loop (server_probe E wk) s = Some ((msg_tag, len), s1) \<and>
       receive_address E wk msg_tag len s1 = Some (Address p, s2) \<and>
       heap_shape s p = None \<and> heap_shape t = (heap_shape s)(p \<mapsto> k))"
proof -
  from run_ucx_server_keeps [OF assms] obtain p where h: "held t = Some M" "keeps_address E wk s p" "hw_holds p s t"
    by auto
  then have "brk s \<le> p" by (simp add: hw_holds_def)
  with assms(2) have "heap_shape s p = None" by (simp add: heap_shape_def wf_heap_none)
  with h show ?thesis unfolding keeps_address_def hw_holds_def by blast
qed

theorem hello_world_server_leaks_address_witness:
  "\<exists>t p k. run_ucx_server (hw_obliging [1, 2] 11 (le_bytes 8 3 @ [7, 8, 9])) 1 (hw_init 0 \<lparr>hw_string_length := 2\<rparr>) = Some (Some 0, t) \<and>
     heap_shape t = [p \<mapsto> k]"
proof -
  let ?E = "hw_obliging [1, 2] 11 (le_bytes 8 3 @ [7, 8, 9])" and ?s = "hw_init (0::nat) \<lparr>hw_string_length := 2\<rparr>"
  have "map_option fst (run_ucx_server ?E 1 ?s) = Some (Some 0)"
    by (simp add: run_simps loop_next loop_exit cong: run_congs)
  from map_fst_Some [OF this] obtain t where t: "run_ucx_server ?E 1 ?s = Some (Some 0, t)" ..
  have "wf_heap ?s" "held ?s = Some {#}" "heap_shape ?s = (\<lambda>_. None)"
    by (simp_all add: hw_init_def wf_heap_def heap_shape_def fun_eq_iff)
  with hello_world_server_leaks_address [OF t] t show ?thesis by auto
qed

text \<open>
  The port option of \<open>ucp_hello_world\<close> is not checked for its range: of a number that fits in
  an \<open>int\<close> the low 16 bits are taken as the port, and only if they are all zero is the option
  refused. So 70000 selects port 4464, and 65536 is refused like 0.
\<close>

theorem hello_world_port_is_truncated:
  assumes "n < 2 ^ 31"
  shows "hw_parse_opt E CHR ''p'' (dec_digits n) server s =
    (if n mod 65536 = 0 then UCS_ERR_UNSUPPORTED else UCS_OK, server, s\<lparr>hw_server_port := of_nat n\<rparr>)"
proof -
  have "int n < 2 ^ 63" using assms by simp
  then have "atol (dec_digits n) = of_nat n" by (simp add: atol_def strtol_dec_digits)
  then have port: "ucast (atoi (dec_digits n)) = (of_nat n :: u16)"
    using assms by (simp add: atoi_def unsigned_of_nat take_bit_nat_eq_self)
  have "of_nat n \<le> (0 :: u16) \<longleftrightarrow> n mod 65536 = 0"
    by (simp add: word_of_nat_eq_0_iff dvd_eq_mod_eq_0)
  with port show ?thesis by (simp add: hw_parse_opt_def Let_def)
qed

theorem hello_world_port_is_truncated_witness:
  "hw_server_port (snd (snd (hw_parse_opt (hw_obliging [] 0 []) CHR ''p'' (dec_digits 70000) None (hw_init 0)))) = 4464"
  using hello_world_port_is_truncated [of 70000 "hw_obliging [] 0 []" None "hw_init 0"] by simp

text \<open>
  C29: A client of \<open>ucp_hello_world\<close> whose peer does not send eight bytes of address length ends with
  the number \<open>recv\<close> returned as its exit status, and with the out-of-band socket still open. In
  particular a peer that closes the connection at once makes the client end with 0, success.
\<close>

theorem hello_world_short_exchange_result:
  assumes "call_status E (WorkerQuery wk) s = (UCS_OK, s1)"
    and "connect_common E (Some server) (hw_server_port s1) (hw_ai_family s1) s1 = (fd, s2)" "0 \<le> fd"
    and "n_recv E fd 8 (world s2) = ((r, bs), w)" "r \<noteq> 8"
    and "\<And>node service af w r res w'. n_addrinfo E node service af w = ((r, res), w') \<Longrightarrow> r \<le> 0"
    and "held s = Some M"
  shows "\<exists>t. run_worker E wk (Some server) s = Some (Some r, t) \<and> held t = Some (add_mset (RFd fd) M)"
proof -
  have "held s1 = Some (add_mset (RAddress wk) M)"
    using call_status_core(2) [OF assms(1)] assms(7) by (simp add: monitor_step_def)
  then have "held s2 = Some (add_mset (RAddress wk) M + fd_held fd)"
    using connect_common_held [OF assms(6) assms(2)] by simp
  with assms(3) have h2: "held s2 = Some (add_mset (RFd fd) (add_mset (RAddress wk) M))"
    by (simp add: fd_held_def)
  then show ?thesis using assms(1-5)
    by (simp add: run_worker_def oob_client_def sock_recv_def Let_def monitor_step_def)
qed

text \<open>A peer that closes the connection: \<open>recv\<close> returns 0.\<close>

definition closing_peer :: "(nat, hw_upcall) hw_env" where
  "closing_peer = (hw_obliging [1, 2] 0 [])\<lparr>n_recv := (\<lambda>fd n w. ((0, []), w))\<rparr>"

lemma closing_peer_simps [simp]:
  "u_status closing_peer c w = (UCS_OK, w)" "n_addrinfo closing_peer server service af w = ((0, [AF_INET]), w)"
  "n_call closing_peer d w = n_call (hw_obliging [1, 2] 0 []) d w" "n_recv closing_peer fd n w = ((0, []), w)"
  using hw_obliging_simps(3) hw_obliging_simps(13) by (simp_all add: closing_peer_def)

theorem hello_world_short_exchange_result_witness:
  "\<exists>t. run_worker closing_peer 1 (Some ''host'') (hw_init 0) = Some (Some 0, t) \<and> held t = Some {#RFd 3#}"
proof -
  obtain s1 where a: "call_status closing_peer (WorkerQuery 1) (hw_init 0) = (UCS_OK, s1)"
      and s1: "s1 = emit (EvStatus (WorkerQuery 1) UCS_OK) (hw_init 0)"
    by (simp add: call_status_def hw_init_def)
  obtain fd s2 where b: "connect_common closing_peer (Some ''host'') (hw_server_port s1) (hw_ai_family s1) s1 = (fd, s2)"
    by fastforce
  have "fst (connect_common closing_peer (Some ''host'') (hw_server_port s1) (hw_ai_family s1) s1) = 3"
    by (simp add: run_simps s1 cong: run_congs)
  with b have "fd = 3" by simp
  with b hello_world_short_exchange_result [OF a b, where r = 0 and bs = "[]" and w = "world s2" and M = "{#}"]
  show ?thesis by simp
qed

text \<open>
  The wait for events closes the descriptor it creates on every path, keeps every other handle
  and the memory, and tells its caller only two things: to probe again or that it failed.
\<close>

theorem poll_wait_closes_descriptor:
  assumes "test_poll_wait E wk s = Some (st, t)" and "held s = Some M"
  shows "held t = Some M \<and> heap_shape t = heap_shape s \<and> st \<in> {UCS_OK, UCS_ERR_NO_MESSAGE}"
  using test_poll_wait_core [OF assms] by (auto simp: hw_core_def)

theorem poll_wait_closes_descriptor_witness:
  "\<exists>t. test_poll_wait (hw_obliging [] 0 []) 1 (hw_init 0) = Some (UCS_OK, t) \<and> held t = Some {#}"
proof -
  have "map_option fst (test_poll_wait (hw_obliging [] 0 []) 1 (hw_init 0)) = Some UCS_OK"
    by (simp add: run_simps cong: run_congs)
  from map_fst_Some [OF this] obtain t where t: "test_poll_wait (hw_obliging [] 0 []) 1 (hw_init 0) = Some (UCS_OK, t)" ..
  with poll_wait_closes_descriptor [OF t, of "{#}"] show ?thesis by simp
qed

lemma completed_reset [simp]:
  "completed r (set_completed r 0 s) = 0" "completed r (call_void E c s) = completed r s"
  by (simp_all add: completed_def set_completed_def call_void_def split: option.split)

text \<open>
  C30: The wait for a request returns exactly when some number of progress calls sets the request's
  \<open>completed\<close>; it then resets the flag, so that the request can be used again when the pool hands
  it out without \<open>request_init\<close>.
\<close>

theorem ucx_wait_returns_iff_completed:
  "((\<exists>st t. ucx_wait E wk (ReqPtr r) s = Some (st, t)) \<longleftrightarrow>
     (\<exists>n. completed r (progressed E hw_dispatch wk n s) \<noteq> 0)) \<and>
   map_option (\<lambda>(st, t). completed r t) (ucx_wait E wk (ReqPtr r) s) \<in> {None, Some 0}"
proof
  have "(\<exists>st t. ucx_wait E wk (ReqPtr r) s = Some (st, t)) \<longleftrightarrow>
      (\<exists>t. while_option (\<lambda>s. completed r s = 0) (hw_progress E wk) s = Some t)"
    by (auto simp: ucx_wait_def bind_eq_Some_conv Let_def)
  also have "\<dots> \<longleftrightarrow> (\<exists>n. completed r (progressed E hw_dispatch wk n s) \<noteq> 0)"
    by (simp add: while_option_returns_iff progressed_def)
  finally show "(\<exists>st t. ucx_wait E wk (ReqPtr r) s = Some (st, t)) \<longleftrightarrow>
      (\<exists>n. completed r (progressed E hw_dispatch wk n s) \<noteq> 0)" .
  have "completed r t = 0" if "ucx_wait E wk (ReqPtr r) s = Some (st, t)" for st t
    using that by (auto simp: ucx_wait_def bind_eq_Some_conv Let_def)
  then show "map_option (\<lambda>(st, t). completed r t) (ucx_wait E wk (ReqPtr r) s) \<in> {None, Some 0}"
    by (cases "ucx_wait E wk (ReqPtr r) s") auto
qed

section \<open>What is sent and what is received\<close>

text \<open>The trace only ever grows.\<close>

interpretation hw_trace: progress_frame "\<lambda>s t. prefix (trace s) (trace t)" hw_dispatch wk for wk
proof unfold_locales
  fix s u
  show "prefix (trace s) (trace (hw_dispatch u s))"
    by (cases u) (simp_all add: send_handler_def recv_handler_def failure_handler_def)
qed auto

lemma ucx_wait_prefix:
  assumes "ucx_wait E wk r s = Some (st, t)" shows "prefix (trace s) (trace t)"
  using assms hw_trace.wait_R
  by (fastforce simp: ucx_wait_def bind_eq_Some_conv Let_def split: req.splits)

lemma wait_disconnected_prefix: "wait_disconnected E wk s = Some t \<Longrightarrow> prefix (trace s) (trace t)"
  unfolding wait_disconnected_def by (rule hw_trace.wait_R)

lemma hw_post_trace: "hw_post E c bytes s = (r, t) \<Longrightarrow> trace t = trace s @ [EvPost c bytes r]"
  by (auto simp: hw_post_def Let_def split: prod.splits req.splits if_splits dest: call_post_trace)

lemma flush_ep_prefix:
  assumes "flush_ep E wk ep s = Some (st, t)" shows "prefix (trace s) (trace t)"
proof -
  obtain r s1 where p: "hw_post E (EpFlush ep) [] s = (r, s1)" by fastforce
  note tr = hw_post_trace [OF p]
  show ?thesis
  proof (cases r)
    case (ReqPtr q)
    with assms p obtain st2 s2 where "progress_request E hw_dispatch wk q s1 = Some (st2, s2)"
        and "t = call_void E (ReqFree q) s2"
      by (auto simp: flush_ep_def bind_eq_Some_conv)
    with hw_trace.progress_request_R [of E wk q s1 st2 s2] tr show ?thesis by (auto intro: append_prefixD)
  qed (use assms p tr in \<open>auto simp: flush_ep_def\<close>)
qed

text \<open>The address message.\<close>

lemma send_address_posts:
  assumes mem: "\<And>k w. fst (alloc_ok E k w)" and wf: "wf_heap s" and len: "length addr < 2 ^ 32"
    and run: "send_address E wk ep addr s = Some (st, t)"
  shows "\<exists>r. prefix (trace s @ [EvPost (TagSend ep (Contig (brk s) (of_nat (8 + length addr))) tag None)
    (map Some (le_bytes 8 (length addr) @ addr)) r]) (trace t)"
proof -
  let ?n = "length addr" and ?p = "brk s"
  have n: "unat (of_nat ?n :: u64) = ?n" "unat (8 + of_nat ?n :: u64) = 8 + ?n"
    using len unat_of_nat_u64 [of ?n] unat_of_nat_u64 [of "8 + ?n"] by simp_all
  obtain s1 where m: "malloc E (sizeof_msg + of_nat ?n) s = (?p, s1)"
      and h1: "heap s1 ?p = Some (replicate (8 + ?n) None)" "trace s1 = trace s"
    using malloc_ok [OF mem, of "sizeof_msg + of_nat ?n" s] n by (simp add: sizeof_msg_def)
  let ?s2 = "store ?p 8 (map Some addr) (store ?p 0 (map Some (le_bytes 8 ?n)) (memset ?p 0 (8 + ?n) s1))"
  have h2: "buffer_bytes ?p (8 + of_nat ?n) ?s2 = map Some (le_bytes 8 ?n @ addr)"
    using h1 by (simp add: memset_def memory_simps buffer_bytes_def n)
  obtain r s3 where post: "hw_post E (TagSend ep (Contig ?p (8 + of_nat ?n)) tag None)
      (map Some (le_bytes 8 ?n @ addr)) ?s2 = (r, s3)" by fastforce
  have "?p \<noteq> 0" using wf by (simp add: wf_heap_def)
  with run m post h2 obtain st' s4 where "ucx_wait E wk r s3 = Some (st', s4)" "t = c_free ?p s4"
    by (auto simp: send_address_def sizeof_msg_def n Let_def bind_eq_Some_conv)
  then show ?thesis using hw_post_trace [OF post] ucx_wait_prefix [of E wk r s3 st' s4] h1(2) by auto
qed

text \<open>The test message. While nothing is received, the library writes to no buffer.\<close>

definition quiet :: "('w, hw_upcall, 'e) env_scheme \<Rightarrow> bool" where
  "quiet E \<longleftrightarrow> (\<forall>wk w. \<forall>u \<in> set (snd (fst (u_progress E wk w))). \<forall>d. u \<noteq> HwWrite d)"

lemma quiet_progress:
  fixes s :: "'w hw"
  assumes "quiet E"
  shows "heap (hw_progress E wk s) = heap s" "trace (hw_progress E wk s) = trace s @ [EvVoid (WorkerProgress wk)]"
    "fail_mode (hw_progress E wk s) = fail_mode s"
proof -
  obtain n us w where p: "u_progress E wk (world s) = ((n, us), w)" by (metis surj_pair)
  have us: "\<forall>u \<in> set us. \<forall>d. u \<noteq> HwWrite d"
    using assms [unfolded quiet_def, rule_format, of _ wk "world s"] p by simp
  have "heap (fold hw_dispatch us x) = heap x \<and> trace (fold hw_dispatch us x) = trace x \<and>
      fail_mode (fold hw_dispatch us x) = fail_mode x" for x :: "'w hw"
    using us
  proof (induction us arbitrary: x)
    case (Cons u us)
    have "heap (hw_dispatch u x) = heap x \<and> trace (hw_dispatch u x) = trace x \<and> fail_mode (hw_dispatch u x) = fail_mode x"
      using Cons.prems [unfolded list.set ball_simps, THEN conjunct1] by (cases u)
        (simp_all del: split_paired_All add: send_handler_def recv_handler_def failure_handler_def set_completed_def split: option.split)
    with Cons show ?case by simp
  qed simp
  then show "heap (hw_progress E wk s) = heap s" "trace (hw_progress E wk s) = trace s @ [EvVoid (WorkerProgress wk)]"
    "fail_mode (hw_progress E wk s) = fail_mode s"
    by (simp_all add: ucp_worker_progress_def p)
qed

lemma wait_disconnected_done: "wait_disconnected E wk s = Some t \<Longrightarrow> ep_status t \<noteq> UCS_OK"
  unfolding wait_disconnected_def by (drule while_option_stop) simp

lemma ucx_wait_keeps_core:
  assumes "ucx_wait E wk r s = Some (st, t)" shows "hw_core t = hw_core s"
proof (cases r)
  case (ReqPtr q)
  with assms obtain s1 where w: "while_option (\<lambda>s. completed q s = 0) (hw_progress E wk) s = Some s1"
      and t: "t = call_void E (ReqFree q) (set_completed q 0 s1)"
    by (auto simp: ucx_wait_def bind_eq_Some_conv Let_def)
  have "hw_frame s s1" using w by (rule hw.wait_R)
  with t show ?thesis by (simp add: hw_frame_def)
qed (use assms in \<open>auto simp: ucx_wait_def\<close>)

text \<open>The message of the server as it is built: its length, the test string, and where it is.\<close>

lemma string_message_built:
  fixes s :: "'w hw"
  assumes mem: "\<And>k w. fst (alloc_ok E k w)" and wf: "wf_heap s" and host: "test_mem_type s = MEM_HOST"
    and n: "unat (hw_string_length s) = n" "0 < n" "n < 2 ^ 31"
  obtains w1 w2 s1 s3 where "w1 = snd (alloc_ok E (8 + n) (world s))" "w2 = snd (alloc_ok E n w1)"
    "mem_type_malloc E (8 + hw_string_length s) s = (brk s, s1)"
    "set_msg_data_len (brk s) (hw_string_length s) (mem_type_memset (brk s) 0 (8 + n) s1) = s3"
    "hw_string_length s3 = hw_string_length s"
    "generate_test_string E (brk s) 8 (ucast (hw_string_length s)) s3 = (0, s\<lparr>world := w2,
       heap := (heap s)(brk s \<mapsto> map Some (le_bytes 8 n @ test_string n)), brk := Suc (Suc (brk s))\<rparr>)"
proof -
  let ?p = "brk s" and ?len = "8 + hw_string_length s"
  have len: "unat ?len = 8 + n"
    using word_of_unat [OF n(1)] n(3) unat_of_nat_u64 [of "8 + n"] by simp
  define w1 where "w1 = snd (alloc_ok E (8 + n) (world s))"
  define w2 where "w2 = snd (alloc_ok E n w1)"
  let ?s1 = "s\<lparr>world := w1, heap := (heap s)(?p \<mapsto> replicate (8 + n) None), brk := Suc ?p\<rparr>"
  let ?s3 = "s\<lparr>world := w1, heap := (heap s)(?p \<mapsto> map Some (le_bytes 8 n) @ replicate n (Some 0)), brk := Suc ?p\<rparr>"
  have m: "mem_type_malloc E ?len s = (?p, ?s1)"
    using host unfolding mem_type_malloc_def malloc_ok [OF mem] len w1_def by simp
  have set_len: "set_msg_data_len ?p (hw_string_length s) (mem_type_memset ?p 0 (8 + n) ?s1) = ?s3"
    using host n(1) by (simp add: set_msg_data_len_def mem_type_memset_def memset_def store_def)
  have ok: "alloc_ok E n (world ?s3) = (True, w2)" using mem [of n w1] by (simp add: w2_def prod_eq_iff)
  have "wf_heap ?s3" using wf by (auto simp: wf_heap_def)
  from generate_test_string_ok [OF this _ _ _ sint_ucast_size [OF n(1,3)] n(2) ok,
      of ?p "map Some (le_bytes 8 n) @ replicate n (Some 0)" 8] host
  have "generate_test_string E ?p 8 (ucast (hw_string_length s)) ?s3 = (0, s\<lparr>world := w2,
       heap := (heap s)(?p \<mapsto> map Some (le_bytes 8 n @ test_string n)), brk := Suc (Suc ?p)\<rparr>)"
    by simp
  with that [OF w1_def w2_def m set_len] show thesis by simp
qed

text \<open>The message of the server: what is sent, and how the result depends on the status.\<close>

lemma send_string_cases:
  fixes s :: "'w hw"
  assumes mem: "\<And>k w. fst (alloc_ok E k w)" and q: "quiet E" and wf: "wf_heap s" and host: "test_mem_type s = MEM_HOST"
    and n: "unat (hw_string_length s) = n" "0 < n" "n < 2 ^ 31"
    and run: "send_string E wk ep s = Some (ret, t)"
  shows "\<exists>r s5 s6 st s7.
    hw_post E (TagSend ep (Contig (brk s) (8 + hw_string_length s)) tag None)
       (map Some (le_bytes 8 n @ test_string n)) s5 = (r, s6) \<and>
    ucx_wait E wk r s6 = Some (st, s7) \<and>
    trace s5 = trace s @ [EvVoid (WorkerProgress wk)] \<and> prefix (trace s7) (trace t) \<and>
    (if st = UCS_OK then ret = 0
     else if fail_mode s \<noteq> FAILURE_MODE_NONE then ret = -1
     else ret = 0 \<and> ep_status t \<noteq> UCS_OK)"
proof -
  let ?p = "brk s" and ?len = "8 + hw_string_length s"
  have len: "unat ?len = 8 + n"
    using word_of_unat [OF n(1)] n(3) unat_of_nat_u64 [of "8 + n"] by simp
  have p: "?p \<noteq> 0" using wf by (simp add: wf_heap_def)
  obtain w1 w2 s1 s3 s4 where mm: "mem_type_malloc E ?len s = (?p, s1)"
    and set_len: "set_msg_data_len ?p (hw_string_length s) (mem_type_memset ?p 0 (8 + n) s1) = s3"
    and len3: "hw_string_length s3 = hw_string_length s"
    and g: "generate_test_string E ?p 8 (ucast (hw_string_length s)) s3 = (0, s4)"
    and s4: "s4 = s\<lparr>world := w2, heap := (heap s)(?p \<mapsto> map Some (le_bytes 8 n @ test_string n)), brk := Suc (Suc ?p)\<rparr>"
    using string_message_built [OF mem wf host n] by metis
  define s5 where "s5 = hw_progress E wk s4"
  have s5: "heap s5 ?p = Some (map Some (le_bytes 8 n @ test_string n))" "fail_mode s5 = fail_mode s"
      "trace s5 = trace s @ [EvVoid (WorkerProgress wk)]"
    using quiet_progress [OF q, of wk s4] by (simp_all add: s5_def s4)
  have b: "buffer_bytes ?p ?len s5 = map Some (le_bytes 8 n @ test_string n)"
    by (simp add: buffer_bytes_def load_def s5(1) len)
  obtain r s6 where post: "hw_post E (TagSend ep (Contig ?p ?len) tag None) (map Some (le_bytes 8 n @ test_string n)) s5 = (r, s6)"
    by fastforce
  obtain st s7 where w: "ucx_wait E wk r s6 = Some (st, s7)"
      and tail: "(if st \<noteq> UCS_OK then
            if fail_mode s7 \<noteq> FAILURE_MODE_NONE then Some (-1, mem_type_free ?p s7)
            else do { s \<leftarrow> wait_disconnected E wk s7; Some (0, mem_type_free ?p s) }
          else do {
            s \<leftarrow> (if fail_mode s7 = FAILURE_MODE_KEEPALIVE then wait_disconnected E wk s7 else Some s7);
            (status, s) \<leftarrow> flush_ep E wk ep s;
            Some (0, mem_type_free ?p s) }) = Some (ret, t)"
    using run p post
    unfolding send_string_def Let_def sizeof_msg_def mm prod.case len set_len b [symmetric]
    by (simp add: set_len g len3 s5_def [symmetric] b bind_eq_Some_conv)
       (auto simp: bind_eq_Some_conv)
  have fm: "fail_mode s7 = fail_mode s"
    using hw_post_core(1) [OF post] ucx_wait_keeps_core [OF w] s5(2) by (simp add: hw_core_def)
  have ep: "ep_status (mem_type_free ?p x) = ep_status x" for x :: "'w hw"
    by (rule heap_only_hw(4) [OF mem_type_free_heap_only])
  have tr: "trace (mem_type_free ?p x) = trace x" for x :: "'w hw"
    by (simp add: mem_type_free_def split: mem_type.split)
  have "prefix (trace s7) (trace t) \<and> (if st = UCS_OK then ret = 0
     else if fail_mode s \<noteq> FAILURE_MODE_NONE then ret = -1 else ret = 0 \<and> ep_status t \<noteq> UCS_OK)"
    using tail fm
    by (auto simp: bind_eq_Some_conv ep tr split: if_splits
        dest!: flush_ep_prefix dest: wait_disconnected_prefix prefix_order.trans wait_disconnected_done)
  with post w s5(3) show ?thesis by blast
qed

section \<open>Reads outside a block\<close>

lemma load_outside: "heap_shape s p = Some k \<Longrightarrow> k < off + n \<Longrightarrow> load p off n s = None"
  by (auto simp: heap_shape_def load_def)

lemma faults_grow:
  "set (faults s) \<subseteq> set (faults (c_free p s))" "set (faults s) \<subseteq> set (faults (mem_type_free p s))"
  "set (faults s) \<subseteq> set (faults (print_block p s))"
  by (auto simp: mem_type_free_def c_free_def print_block_def split: mem_type.split option.split)

lemma post_wait_keeps_core:
  "hw_post E c bytes s = (r, s1) \<Longrightarrow> ucx_wait E wk r s1 = Some (st, t) \<Longrightarrow> hw_core t = hw_core s"
  using hw_post_core(1) [of E c bytes s r s1] ucx_wait_keeps_core [of E wk r s1 st t] by simp

text \<open>
  C27: When a client of \<open>ucp_hello_world\<close> succeeds on a message that is shorter than the length field
  and the client's own \<open>-s\<close> together, it has read outside the message: the number of bytes copied is
  the client's option, whatever the server sent.
\<close>

theorem hello_world_client_overreads:
  assumes run: "receive_string E wk m len s = Some (0, t)" and wf: "wf_heap s"
    and short: "unat len < 8 + unat (hw_string_length s)"
  shows "\<exists>p. BadLoad p \<in> set (faults t)"
proof -
  obtain msg s1 where a: "mem_type_malloc E len s = (msg, s1)" by fastforce
  obtain r s2 where post: "hw_post E (TagMsgRecv wk (Contig msg len) m [NO_IMM_CMPL]) [] s1 = (r, s2)" by fastforce
  from run a post obtain st s3 where nz: "msg \<noteq> 0" and w: "ucx_wait E wk r s2 = Some (st, s3)"
    by (auto simp: receive_string_def bind_eq_Some_conv split: if_splits)
  obtain str s4 where c: "calloc E 1 (hw_string_length s3) s3 = (str, s4)" by fastforce
  let ?s5 = "mem_type_memcpy str 0 msg 8 (unat (hw_string_length s4)) s4"
  from run a post nz w c have ok: "str \<noteq> 0" and t: "t = mem_type_free msg (c_free str (print_block str ?s5))"
    by (auto simp: receive_string_def Let_def split: if_splits)
  have host: "test_mem_type s = MEM_HOST" using a nz by (auto simp: mem_type_malloc_def split: mem_type.splits)
  then have a': "malloc E len s = (msg, s1)" using a by (simp add: mem_type_malloc_def)
  have h1: "hw_holds msg s s1" and sh1: "heap_shape s1 msg = Some (unat len)"
    using malloc_holds(2,3) [OF a' wf] nz by (simp_all add: heap_shape_def)
  note core = post_wait_keeps_core [OF post w]
  have h3: "hw_holds msg s s3" using h1 core by (rule hw_core_holds)
  have wf3: "wf_heap s3" using h3 wf by (rule hw_holds_wf)
  have sh3: "heap_shape s3 msg = Some (unat len)" using sh1 core by (simp add: hw_core_def)
  have h4: "hw_holds str s3 s4" using calloc_holds(2) [OF c wf3] ok by simp
  have "msg < str" using h3 h4 by (simp add: hw_holds_def)
  with h4 sh3 have sh4: "heap_shape s4 msg = Some (unat len)" by (auto simp: hw_holds_def)
  have opts: "hw_options s4 = hw_options s" using h3 h4 by (simp add: hw_holds_def)
  then have "load msg 8 (unat (hw_string_length s4)) s4 = None"
    using short by (intro load_outside [OF sh4]) (simp add: hw_options_def)
  then have "BadLoad msg \<in> set (faults ?s5)"
    using opts host by (simp add: mem_type_memcpy_def memcpy_def hw_options_def)
  then have "BadLoad msg \<in> set (faults t)" unfolding t using faults_grow by blast
  then show ?thesis ..
qed

theorem hello_world_client_overreads_witness:
  "\<exists>t p. receive_string (hw_obliging [] 0 (le_bytes 8 1 @ [0])) 1 6 9 (hw_init 0 \<lparr>hw_string_length := 2\<rparr>) = Some (0, t) \<and>
     BadLoad p \<in> set (faults t)"
proof -
  let ?E = "hw_obliging [] 0 (le_bytes 8 1 @ [0])" and ?s = "hw_init (0::nat) \<lparr>hw_string_length := 2\<rparr>"
  have "map_option fst (receive_string ?E 1 6 9 ?s) = Some 0"
    by (simp add: run_simps cong: run_congs)
  from map_fst_Some [OF this] obtain t where t: "receive_string ?E 1 6 9 ?s = Some (0, t)" ..
  have "wf_heap ?s" by (simp add: hw_init_def wf_heap_def)
  with hello_world_client_overreads [OF t] t show ?thesis by simp
qed

text \<open>
  C28: A server of \<open>ucp_hello_world\<close> takes the length of the address from the message and does not
  compare it with the length of the message: if it keeps an address that is longer than what the
  message has room for, it has read outside the message.
\<close>

theorem hello_world_server_overreads:
  assumes run: "receive_address E wk m len s = Some (Address p, t)" and wf: "wf_heap s"
    and short: "heap_shape t p = Some k" "unat len < 8 + k"
  shows "\<exists>q. BadLoad q \<in> set (faults t)"
proof -
  obtain msg s1 where a: "malloc E len s = (msg, s1)" by fastforce
  obtain r s2 where post: "hw_post E (TagMsgRecv wk (Contig msg len) m [NO_IMM_CMPL]) [] s1 = (r, s2)" by fastforce
  from run a post obtain st s3 where nz: "msg \<noteq> 0" and w: "ucx_wait E wk r s2 = Some (st, s3)"
    by (auto simp: receive_address_def bind_eq_Some_conv split: if_splits)
  obtain n s4 where d: "msg_data_len msg s3 = (n, s4)" by fastforce
  obtain q s5 where b: "malloc E n s4 = (q, s5)" by fastforce
  from run a post nz w d b have q: "q \<noteq> 0" "p = q" and t: "t = c_free msg (memcpy q 0 msg 8 (unat n) s5)"
    by (auto simp: receive_address_def Let_def split: if_splits)
  have h1: "hw_holds msg s s1" and sh1: "heap_shape s1 msg = Some (unat len)"
    using malloc_holds(2,3) [OF a wf] nz by (simp_all add: heap_shape_def)
  have core: "hw_core s4 = hw_core s1" using post_wait_keeps_core [OF post w] msg_data_len_core [OF d] by simp
  have h4: "hw_holds msg s s4" using h1 core by (rule hw_core_holds)
  have wf4: "wf_heap s4" using h4 wf by (rule hw_holds_wf)
  have sh4: "heap_shape s4 msg = Some (unat len)" using sh1 core by (simp add: hw_core_def)
  have h5: "hw_holds q s4 s5" "heap_shape s5 q = Some (unat n)"
    using malloc_holds(2,3) [OF b wf4] q by (simp_all add: heap_shape_def)
  have "msg < q" using h4 h5 by (simp add: hw_holds_def)
  with h5 sh4 have sh5: "heap_shape s5 msg = Some (unat len)" by (auto simp: hw_holds_def)
  have "heap_shape (memcpy q 0 msg 8 (unat n) s5) = heap_shape s5"
    by (simp add: memcpy_def split: option.split)
  with t short(1) q(2) h5(2) \<open>msg < q\<close> have "k = unat n" by (simp add: heap_shape_c_free split: if_splits)
  then have "load msg 8 (unat n) s5 = None" using short(2) by (intro load_outside [OF sh5]) simp
  then have "BadLoad msg \<in> set (faults (memcpy q 0 msg 8 (unat n) s5))" by (simp add: memcpy_def)
  then have "BadLoad msg \<in> set (faults t)" unfolding t using faults_grow by blast
  then show ?thesis ..
qed

text \<open>A message of nine bytes that claims an address of three.\<close>

theorem hello_world_server_overreads_witness:
  "\<exists>p t q. receive_address (hw_obliging [] 0 (le_bytes 8 3 @ [7])) 1 6 9 (hw_init 0) = Some (Address p, t) \<and>
     BadLoad q \<in> set (faults t)"
proof -
  let ?E = "hw_obliging [] 0 (le_bytes 8 3 @ [7])"
  have r: "map_option (\<lambda>(r, t). (r, heap_shape t 2)) (receive_address ?E 1 6 9 (hw_init 0)) = Some (Address 2, Some 3)"
    by (simp add: run_simps heap_shape_def cong: run_congs)
  then obtain t where t: "receive_address ?E 1 6 9 (hw_init 0) = Some (Address 2, t)" and "heap_shape t 2 = Some 3" by auto
  with hello_world_server_overreads [OF t, of 3] show ?thesis by auto
qed

section \<open>Failures\<close>


text \<open>A library that refuses the send, and one that calls back and then reports that it failed.\<close>

definition failing_sends :: "req \<Rightarrow> (nat, hw_upcall) hw_env" where
  "failing_sends req = (hw_obliging [] 0 [])
     \<lparr>u_post := (\<lambda>c bs w. case c of TagSend _ _ _ _ \<Rightarrow> ((req, []), w) | _ \<Rightarrow> ((ReqNull, []), w)),
      u_progress := (\<lambda>wk w. ((1, [HwSend 5 (UCS_ERR 1), HwFailure (UCS_ERR 1)]), w)),
      u_check := (\<lambda>q w. UCS_ERR 1)\<rparr>"

lemma failing_sends_simps [simp]:
  "alloc_ok (failing_sends req) n w = (True, w)" "u_check (failing_sends req) q w = UCS_ERR 1"
  "u_progress (failing_sends req) wk w = ((1, [HwSend 5 (UCS_ERR 1), HwFailure (UCS_ERR 1)]), w)"
  "u_post (failing_sends req) (TagSend ep pl tg u) bs w = ((req, []), w)" "u_void (failing_sends req) c w = w"
  by (simp_all add: failing_sends_def)

lemma failing_sends_fail:
  assumes "hw_post (failing_sends req) (TagSend ep msg tg None) bs s1 = (r, s2)"
    and "ucx_wait (failing_sends req) wk r s2 = Some (st, s3)" and "req = ReqErr (UCS_ERR 1) \<or> req = ReqPtr 5"
  shows "st \<noteq> UCS_OK"
proof -
  have "r = req" using assms(1) by (simp add: hw_post_def call_post_def Let_def split_beta)
  with assms(2,3) show ?thesis by (auto simp: ucx_wait_def ucp_request_check_status_def bind_eq_Some_conv Let_def)
qed


text \<open>The program kills itself only where the command line asks for it.\<close>

definition kill_asked :: "string option \<Rightarrow> failure_mode \<Rightarrow> bool" where
  "kill_asked server_name m \<longleftrightarrow>
     (if server_name = None then m = FAILURE_MODE_SEND else m = FAILURE_MODE_RECV \<or> m = FAILURE_MODE_KEEPALIVE)"

lemma run_connected_killed:
  assumes run: "run_connected E wk local_addr server_name fd p s = Some (None, t)"
    and wf: "wf_heap s" and held: "held s = Some M"
  shows "kill_asked server_name (fail_mode s)"
proof -
  from run obtain s1 where "(if server_name \<noteq> None then run_ucx_client E wk local_addr p s else run_ucx_server E wk s) = Some (None, s1)"
    by (auto simp: run_connected_def bind_eq_Some_conv split: option.splits if_splits)
  then show ?thesis
    using run_ucx_client_keeps [OF _ wf held, of E wk local_addr p None s1]
      run_ucx_server_keeps [OF _ wf held, of E wk None s1]
    by (auto simp: kill_asked_def split: if_splits)
qed

lemma run_worker_killed:
  assumes eai: "\<And>node service af w r res w'. n_addrinfo E node service af w = ((r, res), w') \<Longrightarrow> r \<le> 0"
    and run: "run_worker E wk server_name s = Some (None, t)" and wf: "wf_heap s" and held: "held s = Some M"
  shows "kill_asked server_name (fail_mode s)"
proof -
  obtain st s1 where q: "call_status E (WorkerQuery wk) s = (st, s1)" by fastforce
  note k1 = call_status_core [OF q]
  have st: "st = UCS_OK" using run q by (auto simp: run_worker_def split: if_splits)
  have h1: "held s1 = Some (M + {#RAddress wk#})" using k1(2) held st by (simp add: monitor_step_def)
  have wf1: "wf_heap s1" using k1(1) wf by (rule hw_core_wf)
  define la where "la = u_address E wk (world s1)"
  obtain x s2 where e: "(case server_name of Some server \<Rightarrow> oob_client E server s1
      | None \<Rightarrow> oob_server E la s1) = (x, s2)" by fastforce
  have after: "hw_after (exchange_block x) s1 s2 \<and>
      (\<exists>fd. held s2 = Some (M + {#RAddress wk#} + fd_held fd) \<and>
        (case x of Connected fd' p \<Rightarrow> fd' = fd \<and> 0 \<le> fd | _ \<Rightarrow> True))"
  proof (cases server_name)
    case None
    with e have "oob_server E la s1 = (x, s2)" by simp
    from oob_server_cases [OF eai this h1] show ?thesis by simp
  next
    case (Some server)
    with e have "oob_client E server s1 = (x, s2)" by simp
    from oob_client_cases [OF eai this h1 wf1] show ?thesis by simp
  qed
  then obtain M2 where h2: "held s2 = Some M2" by blast
  have mode: "fail_mode s2 = fail_mode s"
    using after k1(1) by (auto simp: hw_after_def hw_keeps_def hw_holds_def hw_options_def hw_core_def split: if_splits)
  from run q st e [unfolded la_def] obtain fd p s3 where "run_connected E wk la server_name fd p s2 = Some (None, s3)"
    by (cases x) (auto simp: run_worker_def la_def Let_def bind_eq_Some_conv split: option.splits)
  from run_connected_killed [OF this hw_after_wf [OF conjunct1 [OF after] wf1] h2] show ?thesis by (simp add: mode)
qed

text \<open>
  C25: \<open>ucp_hello_world\<close> kills itself only in the failure mode that was asked for on the command line:
  the server with \<open>-e send\<close>, the client with \<open>-e recv\<close> or \<open>-e keepalive\<close>.
\<close>

theorem hello_world_kills_itself_only_when_asked:
  assumes "\<And>node service af w r res w'. n_addrinfo E node service af w = ((r, res), w') \<Longrightarrow> r \<le> 0"
    and run: "hw_main E argv (hw_init w) = Some (None, t)"
  shows "\<exists>server_name s. hw_parse_cmd E argv None (hw_init w) = (UCS_OK, server_name, s) \<and>
    (case server_name of None \<Rightarrow> fail_mode s = FAILURE_MODE_SEND
     | Some _ \<Rightarrow> fail_mode s \<in> {FAILURE_MODE_RECV, FAILURE_MODE_KEEPALIVE})"
proof -
  obtain st sn s1 where p: "hw_parse_cmd E argv None (hw_init w) = (st, sn, s1)" by (metis surj_pair)
  note k1 = hw_parse_cmd_process [OF p]
  have wf1: "wf_heap s1" and h1: "held s1 = Some {#}" using k1 hw_init_state(1,2) [of w] by (simp_all add: wf_heap_def)
  obtain st2 s2 where c2: "call_status E ConfigRead s1 = (st2, s2)" by fastforce
  define fs where "fs = FEATURE_TAG # (if ucp_test_mode s2 = TEST_MODE_WAIT \<or> ucp_test_mode s2 = TEST_MODE_EVENTFD
    then [FEATURE_WAKEUP] else [])"
  obtain st3 ctx s3 where c3: "call_create E (UcpInit fs) s2 = ((st3, ctx), s3)" by (metis surj_pair)
  define s4 where "s4 = call_void E ConfigRelease s3"
  obtain st5 wk s5 where c5: "call_create E (WorkerCreate ctx) s4 = ((st5, wk), s5)" by (metis surj_pair)
  note k = call_status_core [OF c2] call_create_core [OF c3] call_create_core [OF c5]
  from run p c2 c3 c5 obtain s6 where ok: "st = UCS_OK" "st2 = UCS_OK" and w: "run_worker E wk sn s5 = Some (None, s6)"
    by (auto simp: hw_main_def fs_def s4_def Let_def bind_eq_Some_conv split: option.splits if_splits)
  have core: "hw_core s5 = hw_core s1" using k by (simp add: s4_def)
  have "\<exists>M. held s5 = Some M" using k h1 ok by (auto simp: s4_def monitor_step_def)
  then obtain M where "held s5 = Some M" ..
  from run_worker_killed [OF assms(1) w hw_core_wf [OF core wf1] this] have "kill_asked sn (fail_mode s5)" by simp
  with core p ok show ?thesis by (auto simp: kill_asked_def hw_core_def split: option.split)
qed

theorem hello_world_kills_itself_only_when_asked_witness:
  "\<exists>t server_name s. hw_main (hw_obliging [1, 2] 11 (le_bytes 8 3 @ [7, 8, 9])) [''-e'', ''send''] (hw_init 0) = Some (None, t) \<and>
     hw_parse_cmd (hw_obliging [1, 2] 11 (le_bytes 8 3 @ [7, 8, 9])) [''-e'', ''send''] None (hw_init 0) = (UCS_OK, server_name, s) \<and>
     (case server_name of None \<Rightarrow> fail_mode s = FAILURE_MODE_SEND
      | Some _ \<Rightarrow> fail_mode s \<in> {FAILURE_MODE_RECV, FAILURE_MODE_KEEPALIVE})"
proof -
  let ?E = "hw_obliging [1, 2] 11 (le_bytes 8 3 @ [7, 8, 9])"
  have "map_option fst (hw_main ?E [''-e'', ''send''] (hw_init 0)) = Some None"
    by (simp add: run_simps loop_next loop_exit cong: run_congs)
  from map_fst_Some [OF this] obtain t where t: "hw_main ?E [''-e'', ''send''] (hw_init 0) = Some (None, t)" ..
  with hello_world_kills_itself_only_when_asked [OF _ t] show ?thesis by auto
qed

end
