(* ===== verification/Hw_Scopes.thy ===== *)
theory Hw_Scopes
  imports Hw_Session Scopes
begin

text \<open>
  \<open>ucp_hello_world.c\<close> follows the grammar of \<open>Scopes\<close> too, whether it returns or kills itself. The
  configuration, the worker address and the sockets are not handles in the sense of the grammar:
  their life is not nested.
\<close>

section \<open>Steps\<close>

lemma hw_dispatch_trace [simp]: "trace (hw_dispatch u s) = trace s"
  by (cases u) (simp_all add: send_handler_def recv_handler_def failure_handler_def)

interpretation hw_scope: progress_frame "within (insert (RWorker wk) H)" hw_dispatch wk for wk H
proof unfold_locales
  fix s :: "'a hw" and w
  show "within (insert (RWorker wk) H) s (emit (EvVoid (WorkerProgress wk)) (s\<lparr>world := w\<rparr>))"
    by (auto simp: given_def intro: within_step)
qed (auto intro: within_trans within_same)

lemma hw_within_wait:
  "while_option b (hw_progress E wk) s = Some t \<Longrightarrow> RWorker wk \<in> H \<Longrightarrow> within H s t"
  by (drule hw_scope.wait_R [where H = H]) (simp add: insert_absorb)

lemma hw_within_progress: "RWorker wk \<in> H \<Longrightarrow> within H s (hw_progress E wk s)"
  using hw_scope.progress_R [where H = H and wk = wk and s = s and E = E] by (simp add: insert_absorb)

lemma hw_within_progress_request:
  "progress_request E hw_dispatch wk r s = Some (st, t) \<Longrightarrow> RWorker wk \<in> H \<Longrightarrow> within H s t"
  by (drule hw_scope.progress_request_R [where H = H]) (simp add: insert_absorb)

lemma within_heap_only: "heap_only s t \<Longrightarrow> within H s t"
  by (rule within_same) (rule heap_onlyD)

lemma no_handle_in_sockets:
  "filter_mset is_handle (fd_of c r) = {#}" "filter_mset is_handle (fd_closed c) = {#}"
  by (cases c; simp)+

lemma within_event: "trace t = trace s @ [EvSock c r] \<Longrightarrow> within H s t"
  by (rule within_step [of t s "EvSock c r"])
    (simp_all add: taken_def given_def no_handle_in_sockets del: filter_mset_eq_mempty_iff)

lemma sock_within: "sock N c s = (r, t) \<Longrightarrow> within H s t"
  by (rule within_event [of _ _ c r]) (auto simp: sock_def split: prod.splits)

lemma sock_within' [simp, intro]: "within H s (snd (sock N c s))"
  by (rule sock_within [OF surjective_pairing])

lemma getaddrinfo_within: "getaddrinfo N server service af s = (r, t) \<Longrightarrow> within H s t"
  by (cases r, rule within_event [of _ _ "GetAddrInfo server service af" "fst r"])
    (auto simp: getaddrinfo_def split: prod.splits)

lemma sock_recv_within: "sock_recv N fd n s = (r, t) \<Longrightarrow> within H s t"
  by (cases r, rule within_event [of _ _ "RecvBytes fd n" "fst r"])
    (auto simp: sock_recv_def split: prod.splits)

lemma trace_mem_ops [simp]:
  "trace (mem_type_free p s) = trace s" "trace (mem_type_memcpy p o1 q o2 n s) = trace s"
  "trace (mem_type_memset p v n s) = trace s" "trace (set_msg_data_len p x s') = trace s'"
  by (simp_all add: mem_type_free_def mem_type_memcpy_def mem_type_memset_def set_msg_data_len_def split: mem_type.split)

section \<open>Requests\<close>

text \<open>What an exchange needs: its worker live, and no request.\<close>

definition at_rest :: "nat \<Rightarrow> resource set \<Rightarrow> bool" where
  "at_rest wk H \<longleftrightarrow> RWorker wk \<in> H \<and> (\<forall>x \<in> H. \<not> is_request x)"

lemma hw_post_none_within:
  "hw_post E c bytes s = (req, s1) \<Longrightarrow> released_by c = {#} \<Longrightarrow> used_by c \<subseteq> H \<Longrightarrow> req_of req = {#} \<Longrightarrow> within H s s1"
  by (drule hw_post_trace, erule within_step) (simp_all add: taken_def given_def)

lemma hw_request_within:
  assumes "hw_post E c bytes s = (ReqPtr r, s1)" "released_by c = {#}" "used_by c \<subseteq> H" "at_rest wk H"
    and "within (insert (RRequest r) H) s1 s2" and "trace t = trace s2 @ [EvVoid (ReqFree r)]"
  shows "within H s t"
  by (rule within_scope [OF hw_post_trace [OF assms(1)] _ _ _ _ assms(5,6)])
    (use assms(2-4) in \<open>simp_all add: taken_def given_def alone_def at_rest_def\<close>)

lemma exchange_within:
  assumes post: "hw_post E c bytes s = (req, s1)" and wait: "ucx_wait E wk req s1 = Some (st, t)"
    and c: "released_by c = {#}" "used_by c \<subseteq> H" and H: "at_rest wk H"
  shows "within H s t"
proof (cases req)
  case (ReqPtr r)
  with wait obtain s2 where w: "while_option (\<lambda>s. completed r s = 0) (hw_progress E wk) s1 = Some s2"
      and t: "t = call_void E (ReqFree r) (set_completed r 0 s2)"
    by (auto simp: ucx_wait_def bind_eq_Some_conv Let_def)
  have "within (insert (RRequest r) H) s1 s2"
    using w by (rule hw_within_wait) (use H in \<open>simp add: at_rest_def\<close>)
  with post c H ReqPtr t show ?thesis by (intro hw_request_within [of E c bytes s r s1 H wk s2]) simp_all
qed (use assms in \<open>auto simp: ucx_wait_def intro: hw_post_none_within\<close>)

lemma flush_ep_within:
  assumes run: "flush_ep E wk ep s = Some (st, t)" and H: "at_rest wk H" "REp ep \<in> H"
  shows "within H s t"
proof -
  obtain req s1 where post: "hw_post E (EpFlush ep) [] s = (req, s1)" by fastforce
  show ?thesis
  proof (cases req)
    case (ReqPtr r)
    with run post obtain st2 s2 where w: "progress_request E hw_dispatch wk r s1 = Some (st2, s2)"
        and t: "t = call_void E (ReqFree r) s2"
      by (auto simp: flush_ep_def bind_eq_Some_conv)
    have "within (insert (RRequest r) H) s1 s2"
      using w by (rule hw_within_progress_request) (use H in \<open>simp add: at_rest_def\<close>)
    with post H ReqPtr t show ?thesis by (intro hw_request_within [of E "EpFlush ep" "[]" s r s1 H wk s2]) simp_all
  qed (use run post H in \<open>auto simp: flush_ep_def intro: hw_post_none_within\<close>)
qed

lemma wait_disconnected_within: "wait_disconnected E wk s = Some t \<Longrightarrow> RWorker wk \<in> H \<Longrightarrow> within H s t"
  unfolding wait_disconnected_def by (rule hw_within_wait)

section \<open>Waiting for a message\<close>

lemma status_within:
  "call_status E c s = (st, t) \<Longrightarrow> got_by c = {#} \<Longrightarrow> used_by c \<subseteq> H \<Longrightarrow> within H s t"
  by (erule within_call_status) simp_all

lemma test_poll_wait_within:
  assumes run: "test_poll_wait E wk s = Some (st, t)" and wk: "RWorker wk \<in> H"
  shows "within H s t"
proof -
  obtain st1 efd s1 where a: "call_create E (WorkerGetEfd wk) s = ((st1, efd), s1)" by (metis surj_pair)
  have k1: "within H s s1"
    using within_call_create [OF a] wk by (cases "st1 = UCS_OK") simp_all
  obtain fd s2 where b: "sock E EpollCreate s1 = (fd, s2)" by fastforce
  obtain err s3 where c: "sock E (EpollAdd fd (int efd)) s2 = (err, s3)" by fastforce
  obtain st4 s4 where d: "call_status E (WorkerArm wk) s3 = (st4, s4)" by fastforce
  have k3: "within H s s3" using k1 sock_within [OF b] sock_within [OF c] by (blast intro: within_trans)
  have "within H s3 s4" using d by (rule status_within) (use wk in simp_all)
  with k3 have k4: "within H s s4" by (rule within_trans)
  obtain r5 s5 where e: "sock E (EpollWait fd) s4 = (r5, s5)" by fastforce
  have again: "within H s u" if "while_option (\<lambda>(err, s). err = -1 \<and> errno_eintr E (world s)) (epoll_again E fd) (r5, s5) = Some (r, u)" for r u
  proof -
    have "(\<lambda>(a, u) (b, v). within H u v) (r5, s5) (r, u)"
      by (rule while_option_rel [OF that, where R = "\<lambda>(a, u) (b, v). within H u v"])
        (auto simp: epoll_again_def split_beta intro: within_trans)
    then have "within H s5 u" by simp
    with k4 sock_within [OF e] show ?thesis by (blast intro: within_trans)
  qed
  from run a b c d e consider "t = s1" | "t = snd (sock E (CloseFd fd) s3)" | "t = snd (sock E (CloseFd fd) s4)"
    | r u where "while_option (\<lambda>(err, s). err = -1 \<and> errno_eintr E (world s)) (epoll_again E fd) (r5, s5) = Some (r, u)"
        "t = snd (sock E (CloseFd fd) u)"
    by (auto simp: test_poll_wait_def bind_eq_Some_conv split: if_splits)
  then show ?thesis
    by cases (use k1 k3 k4 again in \<open>auto intro: within_trans [OF _ sock_within']\<close>)
qed

lemma tag_probe_within:
  assumes "tag_probe E wk s = (m, t)" "RWorker wk \<in> H" shows "within H s t"
proof -
  from assms(1) obtain st h where "trace t = trace s @ [EvCreate (TagProbe wk tag tag_mask) st h]"
    by (auto simp: tag_probe_def split: prod.splits option.splits)
  then show ?thesis by (rule within_step) (use assms(2) in \<open>simp_all add: taken_def\<close>)
qed

lemma client_probe_within:
  assumes run: "client_probe E wk s = Some r" and wk: "RWorker wk \<in> H"
  shows "case r of Inl t \<Rightarrow> within H s t | Inr (m, t) \<Rightarrow> within H s t"
proof -
  obtain m s1 where p: "tag_probe E wk s = (m, s1)" by fastforce
  note k1 = tag_probe_within [OF p wk]
  obtain n s2 where q: "ucp_worker_progress E hw_dispatch wk s1 = (n, s2)" by fastforce
  have k2: "within H s s2"
    using k1 hw_within_progress [OF wk, of s1 E] by (auto simp: q intro: within_trans)
  obtain st s3 where c: "call_status E (WorkerWait wk) s2 = (st, s3)" by fastforce
  have "within H s2 s3" using c by (rule status_within) (use wk in simp_all)
  with k2 have k3: "within H s s3" by (rule within_trans)
  have k4: "within H s u" if "test_poll_wait E wk s2 = Some (st, u)" for st u
    using k2 test_poll_wait_within [OF that wk] by (rule within_trans)
  show ?thesis
    using run k1 k2 k3 p q c
    by (auto simp: client_probe_def bind_eq_Some_conv split: if_splits dest: k4)
qed

lemma client_loop_within:
  assumes run: "loop (client_probe E wk) s = Some (m, t)" and wk: "RWorker wk \<in> H"
  shows "within H s t"
proof -
  let ?Q = "\<lambda>(m, t). within H s t"
  have "?Q (m, t)"
    by (rule loop_rule [where P = "within H s" and Q = ?Q, OF run])
      (auto dest!: client_probe_within [OF _ wk] intro: within_trans)
  then show ?thesis by simp
qed

lemma server_loop_within:
  assumes run: "loop (server_probe E wk) s = Some (m, t)" and wk: "RWorker wk \<in> H"
  shows "within H s t"
proof -
  have step: "case r of Inl v \<Rightarrow> within H u v | Inr (m, v) \<Rightarrow> within H u v" if "server_probe E wk u = Some r" for u r
  proof -
    obtain m v where p: "tag_probe E wk (hw_progress E wk u) = (m, v)" by fastforce
    have "within H u v" using hw_within_progress [OF wk] tag_probe_within [OF p wk] by (rule within_trans)
    with that p show ?thesis by (auto simp: server_probe_def split: option.splits)
  qed
  let ?Q = "\<lambda>(m, t). within H s t"
  have "?Q (m, t)"
    by (rule loop_rule [where P = "within H s" and Q = ?Q, OF run])
      (auto dest!: step intro: within_trans)
  then show ?thesis by simp
qed

section \<open>The messages\<close>

lemma send_address_within:
  assumes run: "send_address E wk ep addr s = Some (st, t)" and H: "at_rest wk H" "REp ep \<in> H"
  shows "within H s t"
proof -
  let ?len = "sizeof_msg + of_nat (length addr)"
  obtain msg s1 where m: "malloc E ?len s = (msg, s1)" by fastforce
  have k1: "within H s s1" using heap_only_malloc [of s E ?len] by (simp add: m within_heap_only)
  define s2 where "s2 = store msg 8 (map Some addr) (store msg 0
    (map Some (le_bytes 8 (unat (of_nat (length addr) :: u64)))) (memset msg 0 (unat ?len) s1))"
  have k2: "within H s1 s2" by (rule within_same) (simp add: s2_def)
  obtain r s3 where post: "hw_post E (TagSend ep (Contig msg ?len) tag None) (buffer_bytes msg ?len s2) s2 = (r, s3)"
    by fastforce
  show ?thesis
  proof (cases "msg = 0")
    case True
    with run m k1 show ?thesis by (simp add: send_address_def)
  next
    case False
    with run m post obtain st' s4 where w: "ucx_wait E wk r s3 = Some (st', s4)" and t: "t = c_free msg s4"
      by (auto simp: send_address_def s2_def [symmetric] Let_def bind_eq_Some_conv)
    have "within H s2 s4" by (rule exchange_within [OF post w _ _ H(1)]) (use H(2) in simp_all)
    moreover have "within H s4 t" by (rule within_same) (simp add: t)
    ultimately show ?thesis using k1 k2 by (blast intro: within_trans)
  qed
qed

lemma print_block_within: "within H s (print_block p s)"
  by (auto simp: print_block_def split: option.splits intro: within_same within_step)

lemma receive_string_within:
  assumes run: "receive_string E wk m len s = Some (ret, t)" and H: "at_rest wk H"
  shows "within H s t"
proof -
  obtain msg s1 where a: "mem_type_malloc E len s = (msg, s1)" by fastforce
  have k1: "within H s s1" using mem_type_malloc_heap_only [of s E len] by (simp add: a within_heap_only)
  obtain r s2 where post: "hw_post E (TagMsgRecv wk (Contig msg len) m [NO_IMM_CMPL]) [] s1 = (r, s2)" by fastforce
  show ?thesis
  proof (cases "msg = 0")
    case True
    with run a k1 show ?thesis by (simp add: receive_string_def)
  next
    case False
    with run a post obtain st s3 where w: "ucx_wait E wk r s2 = Some (st, s3)"
      by (auto simp: receive_string_def Let_def bind_eq_Some_conv)
    have "within H s1 s3" by (rule exchange_within [OF post w _ _ H]) (use H in \<open>simp_all add: at_rest_def\<close>)
    with k1 have k3: "within H s s3" by (rule within_trans)
    obtain str s4 where c: "calloc E 1 (hw_string_length s3) s3 = (str, s4)" by fastforce
    have k4: "within H s s4"
      using k3 heap_only_calloc [of s3 E 1 "hw_string_length s3"] by (auto simp: c intro: within_trans within_heap_only)
    define s5 where "s5 = mem_type_memcpy str 0 msg 8 (unat (hw_string_length s4)) s4"
    have free: "within H u (c_free p u)" "within H u (mem_type_free p u)" for p and u :: "'a hw"
      by (rule within_same; simp)+
    have k5: "within H s s5" using k4 within_same [of s5 s4 H] by (auto simp: s5_def intro: within_trans)
    from run a post False w c consider "t = mem_type_free msg s3" | "t = mem_type_free msg s4"
      | "t = mem_type_free msg (c_free str (print_block str s5))"
      by (auto simp: receive_string_def s5_def Let_def split: if_splits)
    then show ?thesis
      using within_trans [OF k3 free(2)] within_trans [OF k4 free(2)]
        within_trans [OF within_trans [OF within_trans [OF k5 print_block_within] free(1)] free(2)]
      by cases simp_all
  qed
qed

lemma receive_address_within:
  assumes run: "receive_address E wk m len s = Some (r, t)" and H: "at_rest wk H"
  shows "within H s t"
proof -
  obtain msg s1 where a: "malloc E len s = (msg, s1)" by fastforce
  have k1: "within H s s1" using heap_only_malloc [of s E len] by (simp add: a within_heap_only)
  obtain q s2 where post: "hw_post E (TagMsgRecv wk (Contig msg len) m [NO_IMM_CMPL]) [] s1 = (q, s2)" by fastforce
  show ?thesis
  proof (cases "msg = 0")
    case True
    with run a k1 show ?thesis by (simp add: receive_address_def)
  next
    case False
    with run a post obtain st s3 where w: "ucx_wait E wk q s2 = Some (st, s3)"
      by (auto simp: receive_address_def Let_def bind_eq_Some_conv)
    have "within H s1 s3" by (rule exchange_within [OF post w _ _ H]) (use H in \<open>simp_all add: at_rest_def\<close>)
    with k1 have k3: "within H s s3" by (rule within_trans)
    obtain n s4 where d: "msg_data_len msg s3 = (n, s4)" by fastforce
    have "trace s4 = trace s3" using d by (auto simp: msg_data_len_def split: option.splits if_splits)
    obtain p s5 where b: "malloc E n s4 = (p, s5)" by fastforce
    have "trace s5 = trace s4" using heap_onlyD(1) [OF heap_only_malloc [of s4 E n]] by (simp add: b)
    with run a post False w d b \<open>trace s4 = trace s3\<close> have "trace t = trace s3"
      by (auto simp: receive_address_def Let_def split: if_splits)
    with k3 show ?thesis by (blast intro: within_same within_trans)
  qed
qed

lemma send_string_within:
  assumes run: "send_string E wk ep s = Some (ret, t)" and H: "at_rest wk H" "REp ep \<in> H"
  shows "within H s t"
proof -
  have wk: "RWorker wk \<in> H" using H(1) by (simp add: at_rest_def)
  let ?len = "sizeof_msg + hw_string_length s"
  obtain msg s1 where a: "mem_type_malloc E ?len s = (msg, s1)" by fastforce
  have k1: "within H s s1" using mem_type_malloc_heap_only [of s E ?len] by (simp add: a within_heap_only)
  define s2 where "s2 = set_msg_data_len msg (hw_string_length s) (mem_type_memset msg 0 (unat ?len) s1)"
  obtain g s3 where b: "generate_test_string E msg 8 (ucast (hw_string_length s2)) s2 = (g, s3)" by fastforce
  have "within H s1 s2" by (rule within_same) (simp add: s2_def)
  with k1 have k3: "within H s s3"
    using within_heap_only [OF generate_test_string_heap_only [OF b], of H] by (blast intro: within_trans)
  let ?s4 = "hw_progress E wk s3"
  have k4: "within H s ?s4" using k3 hw_within_progress [OF wk] by (rule within_trans)
  obtain r s5 where post: "hw_post E (TagSend ep (Contig msg ?len) tag None) (buffer_bytes msg ?len ?s4) ?s4 = (r, s5)"
    by fastforce
  have free: "within H u (mem_type_free msg u)" for u :: "'a hw" by (rule within_same) simp
  show ?thesis
  proof (cases "msg = 0 \<or> g < 0")
    case True
    with run a b k1 k3 free show ?thesis
      by (auto simp: send_string_def s2_def Let_def split: if_splits intro: within_trans)
  next
    case False
    with run a b post obtain st s6 where w: "ucx_wait E wk r s5 = Some (st, s6)"
        and tail: "(if st \<noteq> UCS_OK then
            if fail_mode s6 \<noteq> FAILURE_MODE_NONE then Some (-1, mem_type_free msg s6)
            else do { s \<leftarrow> wait_disconnected E wk s6; Some (0, mem_type_free msg s) }
          else do {
            s \<leftarrow> (if fail_mode s6 = FAILURE_MODE_KEEPALIVE then wait_disconnected E wk s6 else Some s6);
            (status, s) \<leftarrow> flush_ep E wk ep s;
            Some (0, mem_type_free msg s) }) = Some (ret, t)"
      by (auto simp: send_string_def s2_def [symmetric] Let_def bind_eq_Some_conv)
    have "within H ?s4 s6" by (rule exchange_within [OF post w _ _ H(1)]) (use H(2) in simp_all)
    with k4 have k6: "within H s s6" by (rule within_trans)
    from tail consider "t = mem_type_free msg s6"
      | u where "wait_disconnected E wk s6 = Some u" "t = mem_type_free msg u"
      | u st' v where "u = s6 \<or> wait_disconnected E wk s6 = Some u" "flush_ep E wk ep u = Some (st', v)"
          "t = mem_type_free msg v"
      by (auto simp: bind_eq_Some_conv split: if_splits)
    then obtain u where "within H s6 u" "t = mem_type_free msg u"
    proof cases
      case (3 u st' v)
      have "within H s6 u" using 3(1) wait_disconnected_within [OF _ wk, of E s6 u] by auto
      with flush_ep_within [OF 3(2) H] 3(3) that show ?thesis by (blast intro: within_trans)
    qed (use that wait_disconnected_within [OF _ wk, of E s6] in blast)+
    with within_trans [OF within_trans [OF k6, of u] free] show ?thesis by simp
  qed
qed

section \<open>The client and the server\<close>

text \<open>A run that returned closed its scopes; one that killed itself is cut off.\<close>

definition ended :: "resource set \<Rightarrow> int option \<Rightarrow> 'w hw \<Rightarrow> 'w hw \<Rightarrow> bool" where
  "ended H ret s t \<longleftrightarrow> (case ret of Some _ \<Rightarrow> within H s t | None \<Rightarrow> cut_off H s t)"

lemma ended_cut_off: "ended H ret s t \<Longrightarrow> cut_off H s t"
  by (auto simp: ended_def intro: within_cut_off split: option.splits)

lemma ended_after: "within H s t \<Longrightarrow> ended H ret t u \<Longrightarrow> ended H ret s u"
  by (auto simp: ended_def intro: within_trans cut_off_after split: option.splits)

text \<open>What lies around an endpoint: its worker, and neither an endpoint nor a request.\<close>

definition hw_idle :: "nat \<Rightarrow> resource set \<Rightarrow> bool" where
  "hw_idle wk H \<longleftrightarrow> RWorker wk \<in> H \<and> (\<forall>x \<in> H. \<not> is_ep x \<and> \<not> is_request x)"

lemma hw_idle_at_rest: "hw_idle wk H \<Longrightarrow> at_rest wk H" "hw_idle wk H \<Longrightarrow> at_rest wk (insert (REp ep) H)"
  by (auto simp: hw_idle_def at_rest_def)

lemma endpoint_within:
  assumes create: "call_create E (EpCreateAddr wk addr mode) s = ((UCS_OK, ep), s1)" and H: "hw_idle wk H"
    and body: "within (insert (REp ep) H) s1 s2" and close: "ep_close_err_mode E wk ep s2 = Some t"
  shows "within H s t"
proof -
  let ?force = "ucp_err_mode s2 = ERR_MODE_PEER"
  obtain req s3 where post: "call_post E (EpClose ep ?force) [] s2 = (req, s3)" by fastforce
  have fin: "case req of ReqPtr r \<Rightarrow> \<exists>s4. within (insert (RRequest r) H) s3 s4 \<and> trace t = trace s4 @ [EvVoid (ReqFree r)]
      | _ \<Rightarrow> t = s3"
  proof (cases req)
    case (ReqPtr r)
    with close post obtain st s4 where w: "progress_request E hw_dispatch wk r s3 = Some (st, s4)"
        and t: "t = call_void E (ReqFree r) s4"
      by (auto simp: ep_close_err_mode_def ep_close_def bind_eq_Some_conv)
    have "within (insert (RRequest r) H) s3 s4"
      using w by (rule hw_within_progress_request) (use H in \<open>simp add: hw_idle_def\<close>)
    with ReqPtr t show ?thesis by auto
  qed (use close post in \<open>simp_all add: ep_close_err_mode_def ep_close_def\<close>)
  show ?thesis
    by (rule within_endpoint [OF create _ _ _ body post fin]) (use H in \<open>simp_all add: hw_idle_def\<close>)
qed

text \<open>Killed with the endpoint open.\<close>

lemma endpoint_cut_off:
  assumes create: "call_create E (EpCreateAddr wk addr mode) s = ((UCS_OK, ep), s1)" and H: "hw_idle wk H"
    and body: "within (insert (REp ep) H) s1 t"
  shows "cut_off H s t"
  by (rule cut_off_scope [where z = "EvPost (EpClose ep True) [] ReqNull",
        OF call_create_trace [OF create] _ _ _ _ within_cut_off [OF body]])
    (use H in \<open>simp_all add: taken_def given_def alone_def hw_idle_def\<close>)

lemma run_ucx_client_within:
  assumes run: "run_ucx_client E wk addr peer s = Some (ret, t)" and H: "hw_idle wk H"
  shows "ended H ret s t"
proof -
  obtain st ep s1 where c: "call_create E (EpCreateAddr wk (block_bytes peer s) (ucp_err_mode s)) s = ((st, ep), s1)"
    by (metis surj_pair)
  show ?thesis
  proof (cases "st = UCS_OK")
    case False
    with run c have "ret = Some (-1)" "t = s1" by (auto simp: run_ucx_client_def)
    with within_call_create(2) [OF c False, of H] H show ?thesis by (simp add: ended_def hw_idle_def)
  next
    case True
    note create = c [unfolded True]
    let ?H = "insert (REp ep) H"
    have H': "at_rest wk ?H" "REp ep \<in> ?H" "RWorker wk \<in> ?H"
      using H hw_idle_at_rest(2) [OF H] by (simp_all add: hw_idle_def)
    from run c True obtain sent s2 where a: "send_address E wk ep addr s1 = Some (sent, s2)"
      by (auto simp: run_ucx_client_def bind_eq_Some_conv)
    note k2 = send_address_within [OF a H'(1,2)]
    have loop: "within ?H s1 u" if "loop (client_probe E wk) s2 = Some (m, u)" for m u
      using k2 client_loop_within [OF that H'(3)] by (rule within_trans)
    have str: "within ?H s1 v" if "loop (client_probe E wk) s2 = Some (m, u)" "receive_string E wk x len u = Some (r, v)" for m u x len r v
      using loop [OF that(1)] receive_string_within [OF that(2) H'(1)] by (rule within_trans)
    note closed = endpoint_within [OF create H] and cut = endpoint_cut_off [OF create H]
    from run c True a cut [OF k2] show ?thesis
      by (auto simp: run_ucx_client_def ended_def bind_eq_Some_conv split: if_splits option.splits
          intro: closed [OF k2] closed [OF loop] closed [OF str] cut [OF loop])
  qed
qed

lemma run_ucx_server_within:
  assumes run: "run_ucx_server E wk s = Some (ret, t)" and H: "hw_idle wk H"
  shows "ended H ret s t"
proof -
  have wk: "RWorker wk \<in> H" using H by (simp add: hw_idle_def)
  from run obtain m len s1 rcv s2 where l: "loop (server_probe E wk) s = Some ((m, len), s1)"
      and a: "receive_address E wk m len s1 = Some (rcv, s2)"
    by (auto simp: run_ucx_server_def bind_eq_Some_conv)
  have k2: "within H s s2"
    using server_loop_within [OF l wk] receive_address_within [OF a hw_idle_at_rest(1) [OF H]] by (rule within_trans)
  show ?thesis
  proof (cases rcv)
    case (Address peer)
    obtain st ep s3 where c: "call_create E (EpCreateAddr wk (block_bytes peer s2) (ucp_err_mode s2)) s2 = ((st, ep), s3)"
      by (metis surj_pair)
    show ?thesis
    proof (cases "st = UCS_OK")
      case False
      with run l a Address c obtain r where "ret = Some r" "t = s3" by (auto simp: run_ucx_server_def)
      with k2 within_call_create(2) [OF c False, of H] wk show ?thesis by (auto simp: ended_def intro: within_trans)
    next
      case True
      from run l a Address c True obtain r s4 where b: "send_string E wk ep s3 = Some (r, s4)"
          and cl: "ep_close_err_mode E wk ep s4 = Some t" and ret: "ret = Some r"
        by (auto simp: run_ucx_server_def bind_eq_Some_conv)
      have "within (insert (REp ep) H) s3 s4"
        using b hw_idle_at_rest(2) [OF H] by (rule send_string_within) simp
      with endpoint_within [OF c [unfolded True] H _ cl] k2 ret show ?thesis by (auto simp: ended_def intro: within_trans)
    qed
  next
    case (Failed r)
    with run l a k2 show ?thesis by (auto simp: run_ucx_server_def ended_def)
  next
    case Killed
    with run l a k2 show ?thesis by (auto simp: run_ucx_server_def ended_def intro: within_cut_off)
  qed
qed

section \<open>The connection and main\<close>

lemma connect_loop_within: "connect_loop N server ts fd0 s = (fd, t) \<Longrightarrow> within H s t"
proof (induction N server ts fd0 s rule: connect_loop.induct)
  case (1 N server sockfd s)
  then show ?case by auto
next
  case (2 N server a ts uu s)
  then show ?case
    by (auto simp: Let_def split: prod.splits if_splits dest!: sock_within [where H = H] intro: within_trans)
      ((erule within_trans)+, (simp | blast))+
qed

lemma connect_common_within:
  assumes run: "connect_common N server port af s = (fd, t)" shows "within H s t"
proof -
  obtain r res s1 where g: "getaddrinfo N server (snprintf_dec 8 (unat port)) af s = ((r, res), s1)"
    by (metis surj_pair)
  obtain fd2 s2 where l: "connect_loop N server res (-1) s1 = (fd2, s2)" by fastforce
  obtain r3 s3 where f: "sock N FreeAddrInfo s2 = (r3, s3)" by fastforce
  from run g l f have "t = s1 \<or> t = s3" by (auto simp: connect_common_def split: if_splits)
  with getaddrinfo_within [OF g] connect_loop_within [OF l] sock_within [OF f] show ?thesis by (blast intro: within_trans)
qed

lemma barrier_within:
  assumes run: "barrier E fd (hw_progress E wk) s = Some (ret, t)" and wk: "RWorker wk \<in> H"
  shows "within H s t"
proof -
  obtain r1 s1 where a: "sock E (SendBytes fd [0, 0, 0, 0]) s = (r1, s1)" by fastforce
  note k1 = sock_within [OF a, of H]
  have poll: "within H u (hw_progress E wk v)" if "sock E (PollIn fd) u = (r, v)" for u v r
    using sock_within [OF that] hw_within_progress [OF wk] by (rule within_trans)
  show ?thesis
  proof (cases "r1 < 0")
    case True
    with run a k1 show ?thesis by (simp add: barrier_def)
  next
    case False
    obtain r2 s2 where p: "sock E (PollIn fd) s1 = (r2, s2)" by fastforce
    let ?R = "\<lambda>(a, u) (b, v). within H u v"
    from run a False p obtain r3 s3 where
        w: "while_option (\<lambda>(res, s). res \<noteq> 1)
             (\<lambda>(_, s). let (res, s) = sock E (PollIn fd) s in (res, hw_progress E wk s)) (r2, hw_progress E wk s2) = Some (r3, s3)"
      by (auto simp: barrier_def bind_eq_Some_conv)
    obtain r4 bs4 s4 where rc: "sock_recv E fd 4 s3 = ((r4, bs4), s4)" by (metis surj_pair)
    from run a False p w rc have t: "t = s4" by (auto simp: barrier_def)
    have "?R (r2, hw_progress E wk s2) (r3, s3)"
      by (rule while_option_rel [OF w, where R = ?R]) (auto dest: poll split: prod.splits intro: within_trans)
    with poll [OF p] k1 t sock_recv_within [OF rc] show ?thesis by (auto intro: within_trans)
  qed
qed

lemma oob_client_within:
  assumes "oob_client E server s = (x, t)" shows "within H s t"
proof -
  obtain fd s1 where c: "connect_common E (Some server) (hw_server_port s) (hw_ai_family s) s = (fd, s1)" by fastforce
  obtain r bs s2 where a: "sock_recv E fd 8 s1 = ((r, bs), s2)" by (metis surj_pair)
  let ?n = "of_nat (le_value bs) :: u64"
  obtain p s3 where m: "malloc E ?n s2 = (p, s3)" by fastforce
  obtain r' bs' s4 where b: "sock_recv E fd ?n s3 = ((r', bs'), s4)" by (metis surj_pair)
  have k1: "within H s s1" using c by (rule connect_common_within)
  have k2: "within H s s2" using k1 sock_recv_within [OF a] by (rule within_trans)
  have k3: "within H s s3"
    using k2 heap_only_malloc [of s2 E ?n] by (auto simp: m intro: within_trans within_heap_only)
  have k4: "within H s (store p 0 (map Some bs') s4)"
    by (rule within_trans [OF k3 within_trans [OF sock_recv_within [OF b] within_same]]) simp
  from assms c a m b have "t = s1 \<or> t = s2 \<or> t = s3 \<or> t = store p 0 (map Some bs') s4"
    by (auto simp: oob_client_def Let_def split: if_splits)
  with k1 k2 k3 k4 show ?thesis by blast
qed

lemma oob_server_within:
  assumes "oob_server E addr s = (x, t)" shows "within H s t"
proof -
  obtain fd s1 where c: "connect_common E None (hw_server_port s) (hw_ai_family s) s = (fd, s1)" by fastforce
  obtain r s2 where a: "sock E (SendBytes fd (le_bytes 8 (unat (of_nat (length addr) :: u64)))) s1 = (r, s2)" by fastforce
  obtain r' s3 where b: "sock E (SendBytes fd addr) s2 = (r', s3)" by fastforce
  from assms c a b have "t = s1 \<or> t = s2 \<or> t = s3" by (auto simp: oob_server_def Let_def split: if_splits)
  with connect_common_within [OF c] sock_within [OF a] sock_within [OF b] show ?thesis by (blast intro: within_trans)
qed

lemma run_connected_within:
  assumes run: "run_connected E wk addr server_name fd p s = Some (ret, t)" and H: "hw_idle wk H"
  shows "ended H ret s t"
proof -
  from run obtain r1 s1 where b: "(if server_name \<noteq> None then run_ucx_client E wk addr p s else run_ucx_server E wk s) = Some (r1, s1)"
    by (auto simp: run_connected_def bind_eq_Some_conv)
  have k1: "ended H r1 s s1"
    using b run_ucx_client_within [OF _ H] run_ucx_server_within [OF _ H] by (auto split: if_splits)
  show ?thesis
  proof (cases r1)
    case None
    with run b k1 show ?thesis by (auto simp: run_connected_def split: if_splits)
  next
    case (Some r)
    from run b Some obtain r2 s2 where br: "(if r = 0 \<and> fail_mode s1 = FAILURE_MODE_NONE
           then barrier E fd (hw_progress E wk) s1 else Some (r, s1)) = Some (r2, s2)"
        and t: "ret = Some r2" "t = snd (sock E (CloseFd fd) s2)"
      by (auto simp: run_connected_def bind_eq_Some_conv split: if_splits)
    have "within H s1 s2" using br H by (auto simp: hw_idle_def split: if_splits intro: barrier_within)
    with k1 Some t show ?thesis
      using sock_within' [of H s2 E "CloseFd fd"] by (auto simp: ended_def intro: within_trans)
  qed
qed

lemma release_address_within: "RWorker wk \<in> H \<Longrightarrow> within H s (call_void E (ReleaseAddress wk) s)"
  by (rule within_call_void) simp_all

lemma run_worker_within:
  assumes run: "run_worker E wk server_name s = Some (ret, t)" and H: "hw_idle wk H"
  shows "ended H ret s t"
proof -
  have wk: "RWorker wk \<in> H" using H by (simp add: hw_idle_def)
  obtain st s1 where q: "call_status E (WorkerQuery wk) s = (st, s1)" by fastforce
  have k1: "within H s s1" using q by (rule within_call_status) (use wk in simp_all)
  let ?addr = "u_address E wk (world s1)"
  obtain x s2 where e: "(case server_name of Some server \<Rightarrow> oob_client E server s1 | None \<Rightarrow> oob_server E ?addr s1) = (x, s2)"
    by fastforce
  have "within H s1 s2"
    using e by (cases server_name) (auto intro: oob_client_within oob_server_within)
  with k1 have k2: "within H s s2" by (rule within_trans)
  have free: "within H u (call_void E (ReleaseAddress wk) (c_free p u))" for p and u :: "'a hw"
    using within_same [of "c_free p u" u H] release_address_within [OF wk] by (auto intro: within_trans)
  show ?thesis
  proof (cases "st = UCS_OK")
    case False
    with run q k1 show ?thesis by (auto simp: run_worker_def ended_def)
  next
    case True
    show ?thesis
    proof (cases x)
      case (Connected fd p)
      with run q True e obtain r s3 where c: "run_connected E wk ?addr server_name fd p s2 = Some (r, s3)"
          and t: "case r of None \<Rightarrow> ret = None \<and> t = s3
                  | Some r' \<Rightarrow> ret = Some r' \<and> t = call_void E (ReleaseAddress wk) (c_free p s3)"
        by (auto simp: run_worker_def bind_eq_Some_conv split: option.splits)
      have "ended H r s s3" using k2 run_connected_within [OF c H] by (rule ended_after)
      with t free show ?thesis by (auto simp: ended_def split: option.splits intro: within_trans)
    next
      case (ErrPeerAddr r p)
      with run q True e have "ret = Some r" "t = call_void E (ReleaseAddress wk) (c_free p s2)"
        by (simp_all add: run_worker_def)
      with k2 free show ?thesis by (auto simp: ended_def intro: within_trans)
    next
      case (ErrAddr r)
      with run q True e have "ret = Some r" "t = call_void E (ReleaseAddress wk) s2" by (simp_all add: run_worker_def)
      with k2 release_address_within [OF wk] show ?thesis by (auto simp: ended_def intro: within_trans)
    qed
  qed
qed

lemma hw_main_within:
  assumes run: "hw_main E argv s = Some (ret, t)"
  shows "ended {} ret s t"
proof -
  obtain st sn s1 where p: "hw_parse_cmd E argv None s = (st, sn, s1)" by (metis surj_pair)
  obtain st2 s2 where c2: "call_status E ConfigRead s1 = (st2, s2)" by fastforce
  have k1: "within {} s s1" using hw_parse_cmd_process [OF p] by (simp add: within_same)
  have "within {} s1 s2" using c2 by (rule within_call_status) simp_all
  with k1 have k2: "within {} s s2" by (rule within_trans)
  define fs where "fs = FEATURE_TAG # (if ucp_test_mode s2 = TEST_MODE_WAIT \<or> ucp_test_mode s2 = TEST_MODE_EVENTFD
    then [FEATURE_WAKEUP] else [])"
  obtain st3 ctx s3 where c3: "call_create E (UcpInit fs) s2 = ((st3, ctx), s3)" by (metis surj_pair)
  note tr3 = call_create_trace [OF c3]
  have k4: "within H s3 (call_void E ConfigRelease s3)" for H by (rule within_call_void) simp_all
  obtain st5 wk s5 where c5: "call_create E (WorkerCreate ctx) (call_void E ConfigRelease s3) = ((st5, wk), s5)"
    by (metis surj_pair)
  note tr5 = call_create_trace [OF c5]
  show ?thesis
  proof (cases "st = UCS_OK \<and> st2 = UCS_OK")
    case False
    with run p c2 k1 k2 show ?thesis by (auto simp: hw_main_def ended_def split: if_splits)
  next
    case ok: True
    show ?thesis
    proof (cases "st3 = UCS_OK")
      case False
      with run p c2 c3 ok have "ret = Some (-1)" "t = call_void E ConfigRelease s3"
        by (auto simp: hw_main_def fs_def Let_def)
      with k2 within_trans [OF within_call_create(2) [OF c3 False] k4, of "{}"] show ?thesis
        by (auto simp: ended_def intro: within_trans)
    next
      case ctx: True
      let ?H = "{RContext ctx}"
      have "ended {} ret s2 t"
      proof (cases "st5 = UCS_OK")
        case False
        with run p c2 c3 c5 ok ctx have r: "ret = Some (-1)" "t = call_void E (UcpCleanup ctx) s5"
          by (auto simp: hw_main_def fs_def Let_def)
        have w5: "within ?H s3 s5" using k4 within_call_create(2) [OF c5 False, of ?H] by (auto intro: within_trans)
        have "within {} s2 (call_void E (UcpCleanup ctx) s5)"
          by (rule within_scope [OF tr3 _ _ _ _ w5 call_void_trace]) (use ctx in \<open>simp_all add: taken_def given_def alone_def\<close>)
        with r show ?thesis by (simp add: ended_def)
      next
        case wk: True
        from run p c2 c3 c5 ok ctx wk obtain r s6 where w: "run_worker E wk sn s5 = Some (r, s6)"
          and t: "case r of None \<Rightarrow> ret = None \<and> t = s6
            | Some r' \<Rightarrow> ret = Some r' \<and> t = call_void E (UcpCleanup ctx) (call_void E (WorkerDestroy wk) s6)"
          by (auto simp: hw_main_def fs_def Let_def bind_eq_Some_conv split: option.splits)
        have k6: "ended {RWorker wk, RContext ctx} r s5 s6"
          using w by (rule run_worker_within) (simp add: hw_idle_def)
        show ?thesis
        proof (cases r)
          case None
          from k6 have "cut_off ?H (call_void E ConfigRelease s3) s6"
            by (intro cut_off_scope [OF tr5, where z = "EvVoid (WorkerDestroy wk)" and h = "RWorker wk"])
              (use wk None in \<open>simp_all add: taken_def given_def alone_def ended_def\<close>)
          then have "cut_off ?H s3 s6" by (rule cut_off_after [OF k4])
          then have "cut_off {} s2 s6"
            by (intro cut_off_scope [OF tr3, where z = "EvVoid (UcpCleanup ctx)" and h = "RContext ctx"])
              (use ctx in \<open>simp_all add: taken_def given_def alone_def\<close>)
          with t None show ?thesis by (simp add: ended_def)
        next
          case (Some r')
          with k6 have w6: "within {RWorker wk, RContext ctx} s5 s6" by (simp add: ended_def)
          have "within ?H (call_void E ConfigRelease s3) (call_void E (WorkerDestroy wk) s6)"
            by (rule within_scope [OF tr5 _ _ _ _ w6 call_void_trace])
              (use wk in \<open>simp_all add: taken_def given_def alone_def\<close>)
          with k4 have w3: "within ?H s3 (call_void E (WorkerDestroy wk) s6)" by (rule within_trans)
          have "within {} s2 (call_void E (UcpCleanup ctx) (call_void E (WorkerDestroy wk) s6))"
            by (rule within_scope [OF tr3 _ _ _ _ w3 call_void_trace])
              (use ctx in \<open>simp_all add: taken_def given_def alone_def\<close>)
          with t Some show ?thesis by (simp add: ended_def)
        qed
      qed
      with k2 show ?thesis by (rule ended_after)
    qed
  qed
qed

section \<open>Properties\<close>

text \<open>
  C20: No use after release in \<open>ucp_hello_world\<close>: whether \<open>main\<close> returns or the process kills itself, at
  every event the handles the call works on are live, and at most one endpoint and at most one
  request are. When \<open>main\<close> returns, the trace follows the grammar: no handle is live any more.
\<close>

theorem hw_main_uses_live_handles:
  assumes "hw_main E argv (hw_init w) = Some (ret, t)"
  shows "(\<forall>before e after. trace t = before @ e # after \<longrightarrow>
       (\<exists>M. live_after before = Some M \<and> tidy M \<and> uses e \<subseteq> set_mset M)) \<and>
    (ret \<noteq> None \<longrightarrow> scoped {} (trace t) \<and> live_after (trace t) = Some {#})"
proof -
  have e: "ended {} ret (hw_init w) t" using assms by (rule hw_main_within)
  have "safe_from (Some {#}) (trace t)"
    by (rule cut_off_safe [OF ended_cut_off [OF e]]) simp
  then have "\<forall>before e after. trace t = before @ e # after \<longrightarrow>
       (\<exists>M. live_after before = Some M \<and> tidy M \<and> uses e \<subseteq> set_mset M)"
    by (auto dest: safe_from_at)
  moreover have "ret \<noteq> None \<longrightarrow> scoped {} (trace t)"
    using e by (auto simp: ended_def within_def split: option.splits)
  ultimately show ?thesis using scoped_run by blast
qed

text \<open>A server that kills itself before it has answered: its request was freed on a live worker.\<close>

theorem hw_main_uses_live_handles_witness:
  "\<exists>t before after M. hw_main (hw_obliging [1, 2] 11 (le_bytes 8 3 @ [7, 8, 9])) [''-e'', ''send''] (hw_init 0) = Some (None, t) \<and>
     trace t = before @ EvPost (TagMsgRecv 1 (Contig 1 11) 6 [NO_IMM_CMPL]) [] (ReqPtr 6) # after \<and>
     live_after before = Some M \<and> RWorker 1 \<in># M \<and> tidy M"
proof -
  let ?E = "hw_obliging [1, 2] 11 (le_bytes 8 3 @ [7, 8, 9])"
  let ?e = "EvPost (TagMsgRecv 1 (Contig 1 11) 6 [NO_IMM_CMPL]) [] (ReqPtr 6)"
  have "map_option (\<lambda>(ret, t). (ret, ?e \<in> set (trace t))) (hw_main ?E [''-e'', ''send''] (hw_init 0)) = Some (None, True)"
    by (simp add: run_simps loop_next loop_exit cong: run_congs)
  then obtain t where t: "hw_main ?E [''-e'', ''send''] (hw_init 0) = Some (None, t)" "?e \<in> set (trace t)" by auto
  from split_list [OF t(2)] obtain before after where tr: "trace t = before @ ?e # after" by blast
  with hw_main_uses_live_handles [OF t(1)] have
      "\<exists>M. live_after before = Some M \<and> tidy M \<and> uses ?e \<subseteq> set_mset M" by blast
  with t(1) tr show ?thesis by (intro exI [of _ t] exI [of _ before] exI [of _ after]) auto
qed

end
