(* ===== verification/Hw_Exchange.thy ===== *)
theory Hw_Exchange
  imports Hw_Session
begin

text \<open>
  What each step of \<open>ucp_hello_world\<close> does when the library carries the two messages and the network
  carries the bytes of the out-of-band exchange: the contract of such a library and such a network,
  the waits over it, whether an operation is complete at once or later, the two messages on either
  side, the exchange of addresses and the barrier.
\<close>

section \<open>What a run shows\<close>

text \<open>
  What others see of a run, in its order: the bytes it sends to an endpoint, the bytes it sends on
  the socket, the addresses it creates endpoints for, and what it prints.
\<close>

datatype shown =
    Sent "byte option list"
  | Wired "byte list"
  | Dialled "byte option list"
  | Printed "byte list"

fun shown_of :: "event \<Rightarrow> shown list" where
  "shown_of (EvPost (TagSend _ _ _ _) bs _) = [Sent bs]"
| "shown_of (EvSock (SendBytes _ bs) _) = [Wired bs]"
| "shown_of (EvCreate (EpCreateAddr _ addr _) _ _) = [Dialled addr]"
| "shown_of (EvPrint str) = [Printed str]"
| "shown_of _ = []"

definition visible :: "event list \<Rightarrow> shown list" where
  "visible tr = concat (map shown_of tr)"

lemma visible_simps [simp]:
  "visible [] = []" "visible (tr @ [e]) = visible tr @ shown_of e"
  by (simp_all add: visible_def)

text \<open>The two messages.\<close>

definition address_message :: "byte list \<Rightarrow> byte list" where
  "address_message addr = le_bytes 8 (length addr) @ addr"

definition string_message :: "nat \<Rightarrow> byte list" where
  "string_message n = le_bytes 8 n @ test_string n"

lemma length_messages [simp]:
  "length (address_message addr) = 8 + length addr" "length (string_message n) = 8 + n"
  by (simp_all add: address_message_def string_message_def)

section \<open>A library and a network that carry the messages\<close>

text \<open>
  What the library and the network have to do: the request that is under way and the callbacks that
  will end it; the message that is to be received, and whether it has arrived; the message that a
  probe has handed out; the bytes the peer has sent on the socket; and for how many calls whatever
  is due may still keep the program waiting.
\<close>

record link =
  under_way :: "(nat \<times> hw_upcall list) option"
  inbound :: "(byte list \<times> bool) option"
  matched :: "(nat \<times> byte list) option"
  stream :: "byte list"
  patience :: nat

text \<open>Nothing happens.\<close>

definition still :: "link \<Rightarrow> link \<Rightarrow> bool" where
  "still d d' \<longleftrightarrow> under_way d' = under_way d \<and> inbound d' = inbound d \<and> matched d' = matched d \<and>
     stream d' = stream d \<and> patience d' \<le> patience d"

text \<open>A progress call that runs the callbacks \<open>us\<close>.\<close>

definition due :: "link \<Rightarrow> bool" where
  "due d \<longleftrightarrow> under_way d \<noteq> None \<or> (\<exists>data. inbound d = Some (data, False))"

definition advances :: "link \<Rightarrow> hw_upcall list \<Rightarrow> link \<Rightarrow> bool" where
  "advances d us d' \<longleftrightarrow>
     (us = [] \<and> under_way d' = under_way d \<or> (\<exists>q. under_way d = Some (q, us)) \<and> under_way d' = None) \<and>
     (inbound d' = inbound d \<or> (\<exists>data. inbound d = Some (data, False) \<and> inbound d' = Some (data, True))) \<and>
     matched d' = matched d \<and> stream d' = stream d \<and> patience d' \<le> patience d \<and>
     (due d \<longrightarrow> patience d' < patience d)"

text \<open>What a receive writes and the callback that ends an operation.\<close>

fun written :: "link \<Rightarrow> ucx_call \<Rightarrow> dma list" where
  "written d (TagMsgRecv _ (Contig p k) h _) =
     (case matched d of
        Some (h', data) \<Rightarrow> (if h' = h \<and> unat k = length data then [(p, 0, data)] else [])
      | None \<Rightarrow> [])"
| "written _ _ = []"

fun ended_by :: "ucx_call \<Rightarrow> nat \<Rightarrow> hw_upcall list" where
  "ended_by (TagSend _ _ _ _) q = [HwSend q UCS_OK]"
| "ended_by (TagMsgRecv _ _ _ _) q = [HwRecv q UCS_OK]"
| "ended_by _ _ = []"

text \<open>
  A non-blocking operation is complete at once, or a later progress call completes it. With
  \<open>NO_IMM_CMPL\<close> no call returns \<open>NULL\<close>: one that is complete at once returns a request and has called
  back before it returned (\<open>es\<close>: the callbacks that run before the call returns).
\<close>

definition posts :: "link \<Rightarrow> ucx_call \<Rightarrow> req \<times> dma list \<Rightarrow> (nat \<Rightarrow> hw_upcall list) \<Rightarrow> link \<Rightarrow> bool" where
  "posts d c = (\<lambda>(r, ds) es d'. inbound d' = inbound d \<and> stream d' = stream d \<and>
     (if NO_IMM_CMPL \<notin> set (flags_of c) \<and> r = ReqNull then ds = written d c \<and> under_way d' = None
      else \<exists>q. r = ReqPtr q \<and> ds = [] \<and>
        (if NO_IMM_CMPL \<in> set (flags_of c) \<and> es q \<noteq> []
         then es q = map HwWrite (written d c) @ ended_by c q \<and> under_way d' = None
         else under_way d' = Some (q, map HwWrite (written d c) @ ended_by c q))))"

text \<open>
  The library, seen as \<open>lib\<close>: there is memory, objects are created, an operation is posted when none
  is under way, no endpoint fails, and the message to be received arrives and is found by a probe.
\<close>

definition relays :: "('w, hw_upcall, 'e) hw_env_scheme \<Rightarrow> ('w \<Rightarrow> link) \<Rightarrow> bool" where
  "relays E lib \<longleftrightarrow>
     (\<forall>n w. fst (alloc_ok E n w) \<and> still (lib w) (lib (snd (alloc_ok E n w)))) \<and>
     (\<forall>c w. still (lib w) (lib (u_void E c w))) \<and>
     (\<forall>c w. (fst (u_status E c w) = UCS_OK \<or> (\<exists>wk. c = WorkerArm wk) \<and> fst (u_status E c w) = UCS_ERR_BUSY) \<and>
        still (lib w) (lib (snd (u_status E c w)))) \<and>
     (\<forall>c w. fst (fst (u_create E c w)) = UCS_OK \<and> still (lib w) (lib (snd (u_create E c w)))) \<and>
     (\<forall>c bs w. under_way (lib w) = None \<longrightarrow>
        (case u_post E c bs w of (r, w') \<Rightarrow> posts (lib w) c r (\<lambda>q. u_early E c q w') (lib w'))) \<and>
     (\<forall>wk w. advances (lib w) (snd (fst (u_progress E wk w))) (lib (snd (u_progress E wk w)))) \<and>
     (\<forall>q w. u_check E q w = (if \<exists>us. under_way (lib w) = Some (q, us) then UCS_INPROGRESS else UCS_OK)) \<and>
     (\<forall>wk w. case u_probe E wk w of
        (None, w') \<Rightarrow> (\<forall>data. inbound (lib w) \<noteq> Some (data, True)) \<and> still (lib w) (lib w')
      | (Some (h, len), w') \<Rightarrow> (\<exists>data. inbound (lib w) = Some (data, True) \<and> len = of_nat (length data) \<and>
           lib w' = (lib w)\<lparr>inbound := None, matched := Some (h, data)\<rparr>))"

text \<open>
  The network: names are resolved, connections are made, what is sent is taken, and what is received
  is what the peer has sent, in order. A poll finds the bytes of the peer sooner or later, and
  \<open>epoll_wait\<close> is not interrupted for ever.
\<close>

fun succeeds :: "sock_call \<Rightarrow> int \<Rightarrow> bool" where
  "succeeds (Socket _) r = (0 \<le> r)"
| "succeeds (Connect _) r = (r = 0)"
| "succeeds (SetReuse _) r = (0 \<le> r)"
| "succeeds (Bind _) r = (r = 0)"
| "succeeds (Listen _) r = (0 \<le> r)"
| "succeeds (Accept _) r = (0 \<le> r)"
| "succeeds (SendBytes _ bs) r = (r = int (length bs))"
| "succeeds (EpollAdd _ _) r = (0 \<le> r)"
| "succeeds _ _ = True"

fun keeps_waiting :: "('w, 'u, 'e) hw_env_scheme \<Rightarrow> sock_call \<Rightarrow> int \<Rightarrow> 'w \<Rightarrow> bool" where
  "keeps_waiting E (PollIn _) r w = (r \<noteq> 1)"
| "keeps_waiting E (EpollWait _) r w = (r = -1 \<and> errno_eintr E w)"
| "keeps_waiting _ _ _ _ = False"

definition connects :: "('w, 'u, 'e) hw_env_scheme \<Rightarrow> ('w \<Rightarrow> link) \<Rightarrow> bool" where
  "connects E lib \<longleftrightarrow>
     (\<forall>server service af w. case n_addrinfo E server service af w of
        ((r, res), w') \<Rightarrow> r = 0 \<and> res \<noteq> [] \<and> still (lib w) (lib w')) \<and>
     (\<forall>c w. case n_call E c w of (r, w') \<Rightarrow> succeeds c r \<and> still (lib w) (lib w') \<and>
        (keeps_waiting E c r w' \<longrightarrow> patience (lib w') < patience (lib w))) \<and>
     (\<forall>fd k w. unat k \<le> length (stream (lib w)) \<longrightarrow>
        (case n_recv E fd k w of ((r, bs), w') \<Rightarrow> r = uint k \<and> bs = take (unat k) (stream (lib w)) \<and>
           stream (lib w') = drop (unat k) (stream (lib w)) \<and> still (lib w) (lib w'\<lparr>stream := stream (lib w)\<rparr>)))"

lemma still_refl [simp]: "still d d"
  by (simp add: still_def)

lemma still_trans [trans]: "still d d' \<Longrightarrow> still d' d'' \<Longrightarrow> still d d''"
  by (simp add: still_def)

lemma relays_alloc: "relays E lib \<Longrightarrow> fst (alloc_ok E n w)" "relays E lib \<Longrightarrow> still (lib w) (lib (snd (alloc_ok E n w)))"
  by (simp_all add: relays_def)

lemma relays_void: "relays E lib \<Longrightarrow> still (lib w) (lib (u_void E c w))"
  by (simp add: relays_def)

lemma relays_status:
  "relays E lib \<Longrightarrow> fst (u_status E c w) = UCS_OK \<or> (\<exists>wk. c = WorkerArm wk) \<and> fst (u_status E c w) = UCS_ERR_BUSY"
  "relays E lib \<Longrightarrow> still (lib w) (lib (snd (u_status E c w)))"
  by (simp_all add: relays_def)

lemma relays_create:
  "relays E lib \<Longrightarrow> fst (fst (u_create E c w)) = UCS_OK" "relays E lib \<Longrightarrow> still (lib w) (lib (snd (u_create E c w)))"
  by (simp_all add: relays_def)

lemma relays_post: "relays E lib \<Longrightarrow> under_way (lib w) = None \<Longrightarrow>
    (case u_post E c bs w of (r, w') \<Rightarrow> posts (lib w) c r (\<lambda>q. u_early E c q w') (lib w'))"
  by (simp add: relays_def)

lemma relays_progress: "relays E lib \<Longrightarrow> advances (lib w) (snd (fst (u_progress E wk w))) (lib (snd (u_progress E wk w)))"
  by (simp add: relays_def)

lemma relays_check: "relays E lib \<Longrightarrow>
    u_check E q w = (if \<exists>us. under_way (lib w) = Some (q, us) then UCS_INPROGRESS else UCS_OK)"
  by (simp add: relays_def)

lemma relays_probe: "relays E lib \<Longrightarrow> (case u_probe E wk w of
    (None, w') \<Rightarrow> (\<forall>data. inbound (lib w) \<noteq> Some (data, True)) \<and> still (lib w) (lib w')
  | (Some (h, len), w') \<Rightarrow> (\<exists>data. inbound (lib w) = Some (data, True) \<and> len = of_nat (length data) \<and>
       lib w' = (lib w)\<lparr>inbound := None, matched := Some (h, data)\<rparr>))"
  by (simp add: relays_def)

lemma connects_addrinfo: "connects E lib \<Longrightarrow> (case n_addrinfo E server service af w of
    ((r, res), w') \<Rightarrow> r = 0 \<and> res \<noteq> [] \<and> still (lib w) (lib w'))"
  by (simp add: connects_def)

lemma connects_call: "connects E lib \<Longrightarrow> (case n_call E c w of (r, w') \<Rightarrow> succeeds c r \<and> still (lib w) (lib w') \<and>
    (keeps_waiting E c r w' \<longrightarrow> patience (lib w') < patience (lib w)))"
  by (simp add: connects_def)

lemma connects_recv: "connects E lib \<Longrightarrow> unat k \<le> length (stream (lib w)) \<Longrightarrow>
    (case n_recv E fd k w of ((r, bs), w') \<Rightarrow> r = uint k \<and> bs = take (unat k) (stream (lib w)) \<and>
       stream (lib w') = drop (unat k) (stream (lib w)) \<and> still (lib w) (lib w'\<lparr>stream := stream (lib w)\<rparr>))"
  by (simp add: connects_def)

section \<open>Steps that only show something\<close>

text \<open>
  \<open>calm lib xs s t\<close>: from \<open>s\<close> to \<open>t\<close> the process shows \<open>xs\<close>, and neither its memory nor its variables nor
  what is to come change.
\<close>

definition calm :: "('w \<Rightarrow> link) \<Rightarrow> shown list \<Rightarrow> 'w hw \<Rightarrow> 'w hw \<Rightarrow> bool" where
  "calm lib xs s t \<longleftrightarrow> visible (trace t) = visible (trace s) @ xs \<and> heap t = heap s \<and> brk t = brk s \<and>
     faults t = faults s \<and> ep_status t = ep_status s \<and> req_completed t = req_completed s \<and>
     hw_options t = hw_options s \<and> still (lib (world s)) (lib (world t))"

lemma calm_refl [simp]: "calm lib [] s s"
  by (simp add: calm_def)

lemma calm_trans: "calm lib xs s t \<Longrightarrow> calm lib ys t u \<Longrightarrow> calm lib (xs @ ys) s u"
  unfolding calm_def by (auto intro: still_trans)

lemma calm_trans_Nil [trans]: "calm lib [] s t \<Longrightarrow> calm lib xs t u \<Longrightarrow> calm lib xs s u"
  using calm_trans [of lib "[]" s t xs u] by simp

lemma calm_call:
  "calm lib (shown_of e) s (emit e (s\<lparr>world := w\<rparr>)) \<longleftrightarrow> still (lib (world s)) (lib w)"
  by (simp add: calm_def hw_options_def)

lemma call_void_calm: "relays E lib \<Longrightarrow> calm lib [] s (call_void E c s)"
  using calm_call [of lib "EvVoid c" s] by (simp add: call_void_def relays_void)

lemma call_status_calm:
  assumes "relays E lib"
  obtains st t where "call_status E c s = (st, t)" "calm lib [] s t"
    "st = UCS_OK \<or> (\<exists>wk. c = WorkerArm wk) \<and> st = UCS_ERR_BUSY"
proof -
  obtain st w where u: "u_status E c (world s) = (st, w)" by fastforce
  show thesis
  proof (rule that)
    show "call_status E c s = (st, emit (EvStatus c st) (s\<lparr>world := w\<rparr>))" by (simp add: call_status_def u)
    show "calm lib [] s (emit (EvStatus c st) (s\<lparr>world := w\<rparr>))"
      using relays_status(2) [OF assms, of "world s" c] calm_call [of lib "EvStatus c st" s w] by (simp add: u)
    show "st = UCS_OK \<or> (\<exists>wk. c = WorkerArm wk) \<and> st = UCS_ERR_BUSY"
      using relays_status(1) [OF assms, of c "world s"] by (simp add: u)
  qed
qed

lemma call_create_calm:
  assumes "relays E lib"
  obtains h t where "call_create E c s = ((UCS_OK, h), t)" "calm lib (shown_of (EvCreate c UCS_OK h)) s t"
proof -
  obtain st h w where u: "u_create E c (world s) = ((st, h), w)" by (metis surj_pair)
  show thesis
  proof (rule that)
    have "st = UCS_OK" using relays_create(1) [OF assms, of c "world s"] by (simp add: u)
    then show "call_create E c s = ((UCS_OK, h), emit (EvCreate c UCS_OK h) (s\<lparr>world := w\<rparr>))"
      by (simp add: call_create_def u)
    show "calm lib (shown_of (EvCreate c UCS_OK h)) s (emit (EvCreate c UCS_OK h) (s\<lparr>world := w\<rparr>))"
      using relays_create(2) [OF assms, of "world s" c] by (simp add: calm_call u)
  qed
qed

lemma sock_calm:
  assumes "connects E lib"
  obtains r t where "sock E c s = (r, t)" "calm lib (shown_of (EvSock c r)) s t" "succeeds c r"
    "keeps_waiting E c r (world t) \<Longrightarrow> patience (lib (world t)) < patience (lib (world s))"
proof -
  obtain r w where u: "n_call E c (world s) = (r, w)" by fastforce
  show thesis
  proof (rule that)
    show "sock E c s = (r, emit (EvSock c r) (s\<lparr>world := w\<rparr>))" by (simp add: sock_def u)
  qed (use connects_call [OF assms, of c "world s"] in \<open>simp_all add: calm_call u\<close>)
qed

section \<open>The network\<close>

text \<open>What is left for the library to do, the bytes on the socket aside.\<close>

definition deaf :: "('w \<Rightarrow> link) \<Rightarrow> 'w \<Rightarrow> link" where
  "deaf lib w = (lib w)\<lparr>stream := []\<rparr>"

lemma deaf_simps [simp]:
  "under_way (deaf lib w) = under_way (lib w)" "inbound (deaf lib w) = inbound (lib w)"
  "matched (deaf lib w) = matched (lib w)" "stream (deaf lib w) = []" "patience (deaf lib w) = patience (lib w)"
  by (simp_all add: deaf_def)

lemma sock_recv_carries:
  fixes s :: "'w hw"
  assumes N: "connects E lib" and str: "stream (lib (world s)) = bs @ rest" and k: "unat k = length bs"
  shows "\<exists>t. sock_recv E fd k s = ((uint k, bs), t) \<and> stream (lib (world t)) = rest \<and> calm (deaf lib) [] s t"
proof -
  have "unat k \<le> length (stream (lib (world s)))" using str k by simp
  from connects_recv [OF N this, of fd] str k obtain w where u: "n_recv E fd k (world s) = ((uint k, bs), w)"
      and w: "stream (lib w) = rest" "still (lib (world s)) (lib w\<lparr>stream := stream (lib (world s))\<rparr>)"
    by (cases "n_recv E fd k (world s)") auto
  have "sock_recv E fd k s = ((uint k, bs), emit (EvSock (RecvBytes fd k) (uint k)) (s\<lparr>world := w\<rparr>))"
    by (simp add: sock_recv_def u)
  moreover have "calm (deaf lib) [] s (emit (EvSock (RecvBytes fd k) (uint k)) (s\<lparr>world := w\<rparr>))"
    using w by (simp add: calm_def hw_options_def still_def)
  ultimately show ?thesis using w(1) by simp
qed

lemma connect_loop_calm:
  fixes s :: "'w hw"
  assumes N: "connects E lib" and ts: "ts \<noteq> []"
  obtains fd t where "connect_loop E server ts fd0 s = (fd, t)" "0 \<le> fd" "calm lib [] s t"
proof -
  obtain a as where a: "ts = a # as" using ts by (cases ts) auto
  obtain fd s1 where 1: "sock E (Socket a) s = (fd, s1)" "0 \<le> fd" "calm lib [] s s1"
    by (rule sock_calm [OF N, of "Socket a" s]) simp
  show thesis
  proof (cases "server = None")
    case False
    obtain s2 where 2: "sock E (Connect fd) s1 = (0, s2)" "calm lib [] s1 s2"
      by (rule sock_calm [OF N, of "Connect fd" s1]) simp
    show thesis by (rule that [OF _ 1(2) calm_trans_Nil [OF 1(3) 2(2)]]) (use a 1 2 False in simp)
  next
    case True
    obtain r2 s2 where 2: "sock E (SetReuse fd) s1 = (r2, s2)" "0 \<le> r2" "calm lib [] s1 s2"
      by (rule sock_calm [OF N, of "SetReuse fd" s1]) simp
    obtain s3 where 3: "sock E (Bind fd) s2 = (0, s3)" "calm lib [] s2 s3"
      by (rule sock_calm [OF N, of "Bind fd" s2]) simp
    obtain r4 s4 where 4: "sock E (Listen fd) s3 = (r4, s4)" "0 \<le> r4" "calm lib [] s3 s4"
      by (rule sock_calm [OF N, of "Listen fd" s3]) simp
    obtain c s5 where 5: "sock E (Accept fd) s4 = (c, s5)" "0 \<le> c" "calm lib [] s4 s5"
      by (rule sock_calm [OF N, of "Accept fd" s4]) simp
    obtain r6 s6 where 6: "sock E (CloseFd fd) s5 = (r6, s6)" "calm lib [] s5 s6"
      by (rule sock_calm [OF N, of "CloseFd fd" s5]) simp
    have "calm lib [] s s6" using 1(3) 2(3) 3(2) 4(3) 5(3) 6(2) by (blast intro: calm_trans_Nil)
    then show thesis by (intro that [OF _ 5(2)]) (use a 1 2 3 4 5 6 True in simp_all)
  qed
qed

lemma connect_common_calm:
  fixes s :: "'w hw"
  assumes N: "connects E lib"
  obtains fd t where "connect_common E server port af s = (fd, t)" "0 \<le> fd" "calm lib [] s t"
proof -
  let ?sv = "snprintf_dec 8 (unat port)"
  obtain res w where g: "n_addrinfo E server ?sv af (world s) = ((0, res), w)" "res \<noteq> []" "still (lib (world s)) (lib w)"
    using connects_addrinfo [OF N, where server = server and service = ?sv and af = af and w = "world s"] by (cases "n_addrinfo E server ?sv af (world s)") auto
  let ?s1 = "emit (EvSock (GetAddrInfo server ?sv af) 0) (s\<lparr>world := w\<rparr>)"
  have 1: "getaddrinfo E server ?sv af s = ((0, res), ?s1)" "calm lib [] s ?s1"
    using g calm_call [of lib "EvSock (GetAddrInfo server ?sv af) 0" s w] by (simp_all add: getaddrinfo_def)
  obtain fd s2 where 2: "connect_loop E server res (-1) ?s1 = (fd, s2)" "0 \<le> fd" "calm lib [] ?s1 s2"
    by (rule connect_loop_calm [OF N g(2)])
  obtain r3 s3 where 3: "sock E FreeAddrInfo s2 = (r3, s3)" "calm lib [] s2 s3"
    by (rule sock_calm [OF N, of FreeAddrInfo s2]) simp
  have "calm lib [] s s3" using 1(2) 2(3) 3(2) by (blast intro: calm_trans_Nil)
  then show thesis by (intro that [OF _ 2(2)]) (use 1 2 3 in \<open>simp_all add: connect_common_def\<close>)
qed

text \<open>The wait for an event: it returns, and nothing has happened.\<close>

lemma epoll_loop_calm:
  fixes s :: "'w hw"
  assumes N: "connects E lib"
  shows "\<exists>r t. while_option (\<lambda>(err, s). err = -1 \<and> errno_eintr E (world s)) (epoll_again E fd) (sock E (EpollWait fd) s) =
    Some (r, t) \<and> calm lib [] s t"
proof -
  let ?b = "\<lambda>(err, s). err = -1 \<and> errno_eintr E (world s)" and ?c = "epoll_again E fd"
  let ?P = "\<lambda>(err, u). calm lib [] s u"
  have step: "calm lib [] u (snd (sock E (EpollWait fd) u)) \<and>
      (?b (sock E (EpollWait fd) u) \<longrightarrow> patience (lib (world (snd (sock E (EpollWait fd) u)))) < patience (lib (world u)))" for u :: "'w hw"
    by (rule sock_calm [OF N, of "EpollWait fd" u]) simp
  have P: "?P (sock E (EpollWait fd) u)" if "calm lib [] s u" for u
    using calm_trans_Nil [OF that, of "[]"] step [of u] by (simp add: split_beta)
  obtain v where v: "while_option ?b ?c (sock E (EpollWait fd) s) = Some v"
  proof -
    let ?m = "\<lambda>(r, u). if ?b (r, u) then Suc (patience (lib (world u))) else 0"
    have "\<exists>v. while_option ?b ?c (sock E (EpollWait fd) s) = Some v"
    proof (rule measure_while_option_Some [where P = "\<lambda>_. True" and f = ?m])
      fix x :: "int \<times> 'w hw" assume "?b x"
      then show "True \<and> ?m (?c x) < ?m x" using step [of "snd x"] by (auto simp: epoll_again_def split_beta)
    qed simp
    then show thesis using that by blast
  qed
  have "?P v"
    by (rule while_option_rule [where P = ?P, OF _ v]) (use P in \<open>auto simp: epoll_again_def split_beta\<close>)
  with v show ?thesis by (cases v) simp
qed

lemma test_poll_wait_calm:
  fixes s :: "'w hw"
  assumes E: "relays E lib" and N: "connects E lib"
  shows "\<exists>t. test_poll_wait E wk s = Some (UCS_OK, t) \<and> calm lib [] s t"
proof -
  obtain efd s1 where 1: "call_create E (WorkerGetEfd wk) s = ((UCS_OK, efd), s1)" "calm lib [] s s1"
    by (rule call_create_calm [OF E, of "WorkerGetEfd wk" s]) simp
  obtain fd s2 where 2: "sock E EpollCreate s1 = (fd, s2)" "calm lib [] s1 s2"
    by (rule sock_calm [OF N, of EpollCreate s1]) simp
  obtain r3 s3 where 3: "sock E (EpollAdd fd (int efd)) s2 = (r3, s3)" "0 \<le> r3" "calm lib [] s2 s3"
    by (rule sock_calm [OF N, of "EpollAdd fd (int efd)" s2]) simp
  obtain st s4 where 4: "call_status E (WorkerArm wk) s3 = (st, s4)" "calm lib [] s3 s4" "st = UCS_OK \<or> st = UCS_ERR_BUSY"
    by (rule call_status_calm [OF E, of "WorkerArm wk" s3]) blast
  have c4: "calm lib [] s s4" using 1(2) 2(2) 3(3) 4(2) by (blast intro: calm_trans_Nil)
  have close: "calm lib [] s (snd (sock E (CloseFd fd) u))" if "calm lib [] s u" for u
    using that by (rule calm_trans_Nil) (rule sock_calm [OF N, of "CloseFd fd" u], simp)
  obtain r5 s5 where 5: "while_option (\<lambda>(err, s). err = -1 \<and> errno_eintr E (world s)) (epoll_again E fd) (sock E (EpollWait fd) s4) =
      Some (r5, s5)" "calm lib [] s4 s5"
    using epoll_loop_calm [OF N] by blast
  have c5: "calm lib [] s s5" using c4 5(2) by (rule calm_trans_Nil)
  show ?thesis
    using 1(1) 2(1) 3(1,2) 4(1,3) 5(1) close [OF c4] close [OF c5] by (auto simp: test_poll_wait_def)
qed

section \<open>Progress and waits\<close>

text \<open>
  \<open>passes lib xs s t\<close>: from \<open>s\<close> to \<open>t\<close> the process shows \<open>xs\<close>, its options and the message to be received
  are the same, and no access was wrong; \<open>hush lib xs s t\<close>: its memory is the same too.
\<close>

definition passes :: "('w \<Rightarrow> link) \<Rightarrow> shown list \<Rightarrow> 'w hw \<Rightarrow> 'w hw \<Rightarrow> bool" where
  "passes lib xs s t \<longleftrightarrow> visible (trace t) = visible (trace s) @ xs \<and> faults t = faults s \<and>
     ep_status t = ep_status s \<and> hw_options t = hw_options s \<and> (\<forall>r. completed r t = completed r s) \<and>
     stream (lib (world t)) = stream (lib (world s)) \<and>
     map_option fst (inbound (lib (world t))) = map_option fst (inbound (lib (world s)))"

definition hush :: "('w \<Rightarrow> link) \<Rightarrow> shown list \<Rightarrow> 'w hw \<Rightarrow> 'w hw \<Rightarrow> bool" where
  "hush lib xs s t \<longleftrightarrow> passes lib xs s t \<and> heap t = heap s \<and> brk t = brk s"

text \<open>No operation is under way, and no request is marked as completed.\<close>

definition at_rest :: "('w \<Rightarrow> link) \<Rightarrow> 'w hw \<Rightarrow> bool" where
  "at_rest lib s \<longleftrightarrow> under_way (lib (world s)) = None \<and> (\<forall>r. completed r s = 0)"

lemma passes_refl [simp]: "passes lib [] s s"
  by (simp add: passes_def)

lemma passes_trans: "passes lib xs s t \<Longrightarrow> passes lib ys t u \<Longrightarrow> passes lib (xs @ ys) s u"
  by (simp add: passes_def)

lemma passes_trans_Nil [trans]: "passes lib [] s t \<Longrightarrow> passes lib xs t u \<Longrightarrow> passes lib xs s u"
  using passes_trans [of lib "[]" s t xs u] by simp

lemma hush_refl [simp]: "hush lib [] s s"
  by (simp add: hush_def)

lemma hush_trans: "hush lib xs s t \<Longrightarrow> hush lib ys t u \<Longrightarrow> hush lib (xs @ ys) s u"
  by (auto simp: hush_def intro: passes_trans)

lemma hush_trans_Nil [trans]: "hush lib [] s t \<Longrightarrow> hush lib xs t u \<Longrightarrow> hush lib xs s u"
  using hush_trans [of lib "[]" s t xs u] by simp

lemma hush_passes: "hush lib xs s t \<Longrightarrow> passes lib xs s t"
  by (simp add: hush_def)

lemma calm_hush: "calm lib xs s t \<Longrightarrow> hush lib xs s t"
  by (simp add: calm_def hush_def passes_def still_def completed_def)

lemma calm_rest: "calm lib xs s t \<Longrightarrow> at_rest lib s \<Longrightarrow> at_rest lib t"
  by (simp add: calm_def at_rest_def still_def completed_def)

lemma passes_rest: "passes lib xs s t \<Longrightarrow> at_rest lib s \<Longrightarrow> under_way (lib (world t)) = None \<Longrightarrow> at_rest lib t"
  by (simp add: passes_def at_rest_def)

text \<open>A progress call.\<close>

lemma progress_advances:
  fixes s :: "'w hw"
  assumes E: "relays E lib"
  obtains us w where "advances (lib (world s)) us (lib w)"
    "hw_progress E wk s = fold hw_dispatch us (emit (EvVoid (WorkerProgress wk)) (s\<lparr>world := w\<rparr>))"
proof -
  obtain n us w where p: "u_progress E wk (world s) = ((n, us), w)" by (metis surj_pair)
  show thesis
    by (rule that [of us w]) (use relays_progress [OF E, of "world s" wk] p in \<open>simp_all add: ucp_worker_progress_def\<close>)
qed

text \<open>As long as no callback is due, a progress call only makes progress.\<close>

definition no_callback :: "link \<Rightarrow> bool" where
  "no_callback d \<longleftrightarrow> (\<forall>q us. under_way d = Some (q, us) \<longrightarrow> us = [])"

lemma progress_hush:
  fixes s :: "'w hw"
  assumes E: "relays E lib" and no: "no_callback (lib (world s))"
  shows "hush lib [] s (hw_progress E wk s)"
    "under_way (lib (world (hw_progress E wk s))) \<in> {None, under_way (lib (world s))}"
    "no_callback (lib (world (hw_progress E wk s)))"
    "patience (lib (world (hw_progress E wk s))) \<le> patience (lib (world s))"
    "due (lib (world s)) \<Longrightarrow> patience (lib (world (hw_progress E wk s))) < patience (lib (world s))"
    "inbound (lib (world s)) = Some (data, True) \<Longrightarrow> inbound (lib (world (hw_progress E wk s))) = Some (data, True)"
proof -
  obtain us w where a: "advances (lib (world s)) us (lib w)"
      and t: "hw_progress E wk s = fold hw_dispatch us (emit (EvVoid (WorkerProgress wk)) (s\<lparr>world := w\<rparr>))"
    by (rule progress_advances [OF E])
  have "us = []" using a no by (auto simp: advances_def no_callback_def)
  with t have t: "hw_progress E wk s = emit (EvVoid (WorkerProgress wk)) (s\<lparr>world := w\<rparr>)" by simp
  show "hush lib [] s (hw_progress E wk s)"
    using a by (auto simp: t hush_def passes_def advances_def hw_options_def completed_def)
  show "under_way (lib (world (hw_progress E wk s))) \<in> {None, under_way (lib (world s))}"
    "no_callback (lib (world (hw_progress E wk s)))"
    "patience (lib (world (hw_progress E wk s))) \<le> patience (lib (world s))"
    "due (lib (world s)) \<Longrightarrow> patience (lib (world (hw_progress E wk s))) < patience (lib (world s))"
    "inbound (lib (world s)) = Some (data, True) \<Longrightarrow> inbound (lib (world (hw_progress E wk s))) = Some (data, True)"
    using a no by (auto simp: t advances_def no_callback_def)
qed

text \<open>The wait for a request without a callback: a flush or a close.\<close>

lemma progress_request_carries:
  fixes s :: "'w hw"
  assumes E: "relays E lib" and pend: "under_way (lib (world s)) = Some (q, [])"
  shows "\<exists>t. progress_request E hw_dispatch wk q s = Some (UCS_OK, t) \<and> hush lib [] s t \<and> under_way (lib (world t)) = None"
proof -
  let ?b = "\<lambda>u. ucp_request_check_status E q u = UCS_INPROGRESS" and ?c = "hw_progress E wk"
  let ?P = "\<lambda>u :: 'w hw. hush lib [] s u \<and> under_way (lib (world u)) \<in> {None, Some (q, [])}"
  have check: "ucp_request_check_status E q u = (if under_way (lib (world u)) = None then UCS_OK else UCS_INPROGRESS)" if "?P u" for u
    using that relays_check [OF E] by (auto simp: ucp_request_check_status_def)
  have step: "?P (?c u) \<and> (?b u \<longrightarrow> patience (lib (world (?c u))) < patience (lib (world u)))" if u: "?P u" for u
  proof -
    have no: "no_callback (lib (world u))" using u by (auto simp: no_callback_def)
    note p = progress_hush [OF E no, where wk = wk]
    have "hush lib [] s (?c u)" using u p(1) by (blast intro: hush_trans_Nil)
    moreover have "?b u \<Longrightarrow> due (lib (world u))" using check [OF u] by (auto simp: due_def split: if_splits)
    ultimately show ?thesis using u p(2,5) by auto
  qed
  have start: "?P (?c s)" using step [of s] pend by simp
  obtain t where t: "while_option ?b ?c (?c s) = Some t"
    using measure_while_option_Some [where P = ?P and b = ?b and c = ?c and f = "\<lambda>u. patience (lib (world u))", OF _ start] step
    by blast
  have "?P t" by (rule while_option_rule [where P = ?P, OF _ t start]) (use step in blast)
  moreover have "\<not> ?b t" by (rule while_option_stop [OF t])
  ultimately show ?thesis using t check [of t] by (auto simp: progress_request_def split: if_splits)
qed

text \<open>What is received over the blocks of \<open>s\<close> gives the blocks \<open>h\<close>, and no byte falls outside them.\<close>

definition lands :: "dma list \<Rightarrow> 'w hw \<Rightarrow> (nat \<Rightarrow> byte option list option) \<Rightarrow> bool" where
  "lands ds s h \<longleftrightarrow> (\<forall>u :: 'w hw. heap u = heap s \<longrightarrow> fold apply_dma ds u = u\<lparr>heap := h\<rparr>)"

lemma landsD: "lands ds (s :: 'w hw) h \<Longrightarrow> heap (u :: 'w hw) = heap s \<Longrightarrow> fold apply_dma ds u = u\<lparr>heap := h\<rparr>"
  by (simp add: lands_def)

lemma lands_Nil [simp]: "h = heap s \<Longrightarrow> lands [] s h"
  by (simp add: lands_def)

text \<open>The wait for a request with a callback: what it receives is written, and then it is free again.\<close>

lemma hw_dispatch_writes: "fold hw_dispatch (map HwWrite ds) s = fold apply_dma ds s"
  by (induction ds arbitrary: s) simp_all

lemma dispatch_end:
  "ended_by c q = [u] \<Longrightarrow> req_completed s q \<noteq> None \<Longrightarrow> hw_dispatch u s = s\<lparr>req_completed := (req_completed s)(q \<mapsto> 1)\<rparr>"
  by (cases "(c, q)" rule: ended_by.cases) (auto simp: send_handler_def recv_handler_def set_completed_def)

text \<open>
  The states of such a wait that began in \<open>s\<close>: the request \<open>q\<close> is still under way, or its callback
  has run over the blocks \<open>h\<close>.
\<close>

definition waiting_since :: "('w \<Rightarrow> link) \<Rightarrow> 'w hw \<Rightarrow> 'w hw \<Rightarrow> bool" where
  "waiting_since lib s u \<longleftrightarrow>
     hush lib [] s u \<and> under_way (lib (world u)) = under_way (lib (world s)) \<and> req_completed u = req_completed s"

definition called_back :: "('w \<Rightarrow> link) \<Rightarrow> nat \<Rightarrow> (nat \<Rightarrow> byte option list option) \<Rightarrow> 'w hw \<Rightarrow> 'w hw \<Rightarrow> bool" where
  "called_back lib q h s u \<longleftrightarrow>
     passes lib [] s (u\<lparr>req_completed := req_completed s\<rparr>) \<and> under_way (lib (world u)) = None \<and>
     heap u = h \<and> brk u = brk s \<and> req_completed u = (req_completed s)(q \<mapsto> 1)"

lemma waiting_progress:
  fixes s :: "'w hw"
  assumes E: "relays E lib" and pend: "under_way (lib (world s)) = Some (q, map HwWrite ds @ ended_by c q)"
    and c: "ended_by c q = [cb]" and q: "req_completed s q = Some 0" and wr: "lands ds s h" and u: "waiting_since lib s u"
  shows "waiting_since lib s (hw_progress E wk u) \<and> patience (lib (world (hw_progress E wk u))) < patience (lib (world u)) \<or>
    called_back lib q h s (hw_progress E wk u)"
proof -
  obtain us w where a: "advances (lib (world u)) us (lib w)"
      and t: "hw_progress E wk u = fold hw_dispatch us (emit (EvVoid (WorkerProgress wk)) (u\<lparr>world := w\<rparr>))"
    by (rule progress_advances [OF E])
  let ?v = "emit (EvVoid (WorkerProgress wk)) (u\<lparr>world := w\<rparr>)"
  have v: "heap ?v = heap s" "brk ?v = brk s" "req_completed ?v = req_completed s" "passes lib [] s ?v"
    using u a by (auto simp: waiting_since_def hush_def passes_def advances_def hw_options_def completed_def)
  show ?thesis
  proof (cases "us = []")
    case True
    have "waiting_since lib s ?v" using v a u pend c True by (auto simp: waiting_since_def hush_def advances_def)
    moreover have "patience (lib w) < patience (lib (world u))"
      using a u pend by (simp add: advances_def due_def waiting_since_def)
    ultimately show ?thesis using t True by simp
  next
    case False
    then have us: "us = map HwWrite ds @ [cb]" "under_way (lib w) = None"
      using a u pend c by (auto simp: advances_def waiting_since_def)
    have "hw_progress E wk u = ?v\<lparr>heap := h, req_completed := (req_completed s)(q \<mapsto> 1)\<rparr>"
      using v(1,3) q by (simp add: t us(1) hw_dispatch_writes landsD [OF wr] dispatch_end [OF c])
    with v us(2) show ?thesis by (auto simp: called_back_def passes_def hw_options_def completed_def)
  qed
qed

lemma ucx_wait_called_back:
  fixes s :: "'w hw"
  assumes E: "relays E lib" and D: "called_back lib q h s u" and q: "req_completed s q = Some 0"
    and u: "while_option (\<lambda>u. completed q u = 0) (hw_progress E wk) v = Some u"
  shows "\<exists>t. ucx_wait E wk (ReqPtr q) v = Some (UCS_OK, t) \<and> passes lib [] s t \<and> under_way (lib (world t)) = None \<and>
    heap t = h \<and> brk t = brk s"
proof -
  let ?u = "u\<lparr>req_completed := req_completed s\<rparr>" let ?t = "call_void E (ReqFree q) ?u"
  have "set_completed q 0 u = ?u" using D q by (simp add: called_back_def set_completed_def fun_upd_idem)
  moreover have "ucp_request_check_status E q ?u = UCS_OK"
    using D relays_check [OF E, of q "world u"] by (simp add: called_back_def ucp_request_check_status_def)
  ultimately have run: "ucx_wait E wk (ReqPtr q) v = Some (UCS_OK, ?t)"
    using u by (simp add: ucx_wait_def)
  have t: "calm lib [] ?u ?t" by (rule call_void_calm [OF E])
  have "passes lib [] s ?t"
    using D unfolding called_back_def by (blast intro: passes_trans_Nil hush_passes [OF calm_hush [OF t]])
  with run t D show ?thesis by (simp add: called_back_def calm_def still_def)
qed

lemma ucx_wait_carries:
  fixes s :: "'w hw"
  assumes E: "relays E lib" and pend: "under_way (lib (world s)) = Some (q, map HwWrite ds @ ended_by c q)"
    and c: "ended_by c q = [cb]" and q: "req_completed s q = Some 0" and wr: "lands ds s h"
  shows "\<exists>t. ucx_wait E wk (ReqPtr q) s = Some (UCS_OK, t) \<and> passes lib [] s t \<and> under_way (lib (world t)) = None \<and>
    heap t = h \<and> brk t = brk s"
proof -
  let ?b = "\<lambda>u. completed q u = 0" and ?c = "hw_progress E wk"
  let ?P = "\<lambda>u. waiting_since lib s u \<or> called_back lib q h s u"
  let ?m = "\<lambda>u. if ?b u then Suc (patience (lib (world u))) else 0"
  have b: "called_back lib q h s u \<Longrightarrow> \<not> ?b u" for u by (simp add: called_back_def completed_def)
  have step: "?P (?c u) \<and> ?m (?c u) < ?m u" if "?P u" "?b u" for u
    using waiting_progress [OF E pend c q wr, of u wk] b [of u] b [of "?c u"] that by auto
  have start: "?P s" by (simp add: waiting_since_def)
  obtain u where u: "while_option ?b ?c s = Some u"
    using measure_while_option_Some [where P = ?P and b = ?b and c = ?c and f = ?m, OF _ start] step by blast
  have "?P u" by (rule while_option_rule [where P = ?P, OF _ u start]) (use step in blast)
  moreover have "\<not> waiting_since lib s u" using while_option_stop [OF u] q by (auto simp: waiting_since_def completed_def)
  ultimately have D: "called_back lib q h s u" by blast
  show ?thesis by (rule ucx_wait_called_back [OF E D q u])
qed

text \<open>A message is sent, or received: posted and waited for.\<close>

lemma hw_post_posts:
  fixes s :: "'w hw"
  assumes E: "relays E lib" and rest: "at_rest lib s" and c: "flags_of c = [] \<or> (\<forall>q. \<exists>u. ended_by c q = [u])"
    and wr: "lands (written (lib (world s)) c) s h"
  obtains (now) t where "hw_post E c bs s = (ReqNull, t)" "passes lib (shown_of (EvPost c bs ReqNull)) s t"
      "under_way (lib (world t)) = None" "heap t = h" "brk t = brk s"
  | (posted) q t where "hw_post E c bs s = (ReqPtr q, t)" "hush lib (shown_of (EvPost c bs (ReqPtr q))) s t"
      "under_way (lib (world t)) = Some (q, map HwWrite (written (lib (world s)) c) @ ended_by c q)"
      "req_completed t q = Some 0"
  | (early) q u t where "hw_post E c bs s = (ReqPtr q, t)" "hush lib (shown_of (EvPost c bs (ReqPtr q))) s u"
      "called_back lib q h u t" "req_completed u q = Some 0" "flags_of c \<noteq> []"
proof -
  obtain r ds w where u: "u_post E c bs (world s) = ((r, ds), w)" by (metis surj_pair)
  let ?es = "map HwWrite (written (lib (world s)) c)"
  have "posts (lib (world s)) c (r, ds) (\<lambda>q. u_early E c q w) (lib w)"
    using relays_post [OF E, of "world s" c bs] rest by (simp add: u at_rest_def)
  then have w: "inbound (lib w) = inbound (lib (world s))" "stream (lib w) = stream (lib (world s))"
    and r: "r = ReqNull \<and> ds = written (lib (world s)) c \<and> under_way (lib w) = None \<or>
      (\<exists>q. r = ReqPtr q \<and> ds = [] \<and>
        (Ucx_Calls.early E c q w = [] \<and> under_way (lib w) = Some (q, ?es @ ended_by c q) \<or>
         flags_of c \<noteq> [] \<and> Ucx_Calls.early E c q w = ?es @ ended_by c q \<and> under_way (lib w) = None))"
    by (auto simp: posts_def early_def split: if_splits)
  from r show thesis
  proof (elim disjE exE conjE)
    assume r: "r = ReqNull" "ds = written (lib (world s)) c" "under_way (lib w) = None"
    show thesis
      by (rule now [of "emit (EvPost c bs ReqNull) (s\<lparr>world := w, heap := h\<rparr>)"])
        (use u r w landsD [OF wr, of "s\<lparr>world := w\<rparr>"] in \<open>simp_all add: hw_post_def call_post_def passes_def hw_options_def completed_def\<close>)
  next
    fix q assume r: "r = ReqPtr q" "ds = []"
    let ?s = "emit (EvPost c bs (ReqPtr q)) (s\<lparr>world := w\<rparr>)"
    let ?u = "if req_completed s q = None then request_init q ?s else ?s"
    have zero: "req_completed s q = None \<or> req_completed s q = Some 0"
      using rest by (auto simp: at_rest_def completed_def split: option.splits) (metis option.exhaust)
    have t: "hw_post E c bs s = (ReqPtr q, fold hw_dispatch (Ucx_Calls.early E c q w) ?u)"
      using u r by (simp add: hw_post_def call_post_def request_init_def Let_def)
    have h: "hush lib (shown_of (EvPost c bs (ReqPtr q))) s ?u"
      using w by (simp add: hush_def passes_def hw_options_def completed_def request_init_def)
    have q: "req_completed ?u q = Some 0" using zero by (auto simp: request_init_def)
    have k: "world ?u = w" "heap ?u = heap s" by (simp_all add: request_init_def)
    {
      assume "Ucx_Calls.early E c q w = []" "under_way (lib w) = Some (q, ?es @ ended_by c q)"
      with t h q k show thesis by (intro posted) simp_all
    next
      assume e: "flags_of c \<noteq> []" "Ucx_Calls.early E c q w = ?es @ ended_by c q" "under_way (lib w) = None"
      with c obtain cb where cb: "ended_by c q = [cb]" by blast
      have d: "fold hw_dispatch (Ucx_Calls.early E c q w) ?u = ?u\<lparr>heap := h, req_completed := (req_completed ?u)(q \<mapsto> 1)\<rparr>"
        using q by (simp add: e(2) cb hw_dispatch_writes landsD [OF wr k(2)] dispatch_end [OF cb])
      have "called_back lib q h ?u (fold hw_dispatch (Ucx_Calls.early E c q w) ?u)"
        unfolding d called_back_def using e(3) k(1) by (simp add: passes_def hw_options_def completed_def)
      with t h q e(1) show thesis by (intro early)
    }
  qed
qed

lemma post_wait_relays:
  fixes s :: "'w hw"
  assumes E: "relays E lib" and rest: "at_rest lib s" and c: "\<forall>q. \<exists>u. ended_by c q = [u]"
    and wr: "lands (written (lib (world s)) c) s h"
  shows "\<exists>r s1 t. hw_post E c bs s = (r, s1) \<and> ucx_wait E wk r s1 = Some (UCS_OK, t) \<and>
    passes lib (shown_of (EvPost c bs ReqNull)) s t \<and> at_rest lib t \<and> heap t = h \<and> brk t = brk s"
proof -
  have c': "flags_of c = [] \<or> (\<forall>q. \<exists>u. ended_by c q = [u])" using c by blast
  have fin: ?thesis
    if post: "hw_post E c bs s = (ReqPtr q, s1)" and u: "hush lib (shown_of (EvPost c bs (ReqPtr q))) s u"
      and t: "ucx_wait E wk (ReqPtr q) s1 = Some (UCS_OK, t)" "passes lib [] u t" "under_way (lib (world t)) = None"
        "heap t = h" "brk t = brk u" for q s1 u t
  proof -
    have "shown_of (EvPost c bs (ReqPtr q)) = shown_of (EvPost c bs ReqNull)" by (cases c) simp_all
    then have p: "passes lib (shown_of (EvPost c bs ReqNull)) s t"
      using passes_trans [OF hush_passes [OF u] t(2)] by simp
    have "brk t = brk s" using t(5) u by (simp add: hush_def)
    with post t(1,4) p passes_rest [OF p rest t(3)] show ?thesis by blast
  qed
  show ?thesis
    using E rest c' wr
  proof (cases rule: hw_post_posts [where bs = bs])
    case (now t)
    then show ?thesis using passes_rest [OF now(2) rest now(3)] by (simp add: ucx_wait_def)
  next
    case (posted q s1)
    obtain u where u: "ended_by c q = [u]" using c by blast
    have "lands (written (lib (world s)) c) s1 h" using wr posted(2) by (simp add: hush_def lands_def)
    with ucx_wait_carries [OF E posted(3) u posted(4), of h wk] fin [OF posted(1,2)] show ?thesis by blast
  next
    case (early q u s1)
    have "completed q s1 = 1" using early(3) by (simp add: called_back_def completed_def)
    then have w: "while_option (\<lambda>u. completed q u = 0) (hw_progress E wk) s1 = Some s1"
      by (subst while_option_unfold) simp
    from ucx_wait_called_back [OF E early(3,4) w] fin [OF early(1,2)] show ?thesis by blast
  qed
qed

text \<open>A flush and a close.\<close>

lemma flush_ep_carries:
  fixes s :: "'w hw"
  assumes E: "relays E lib" and rest: "at_rest lib s"
  shows "\<exists>t. flush_ep E wk ep s = Some (UCS_OK, t) \<and> hush lib [] s t \<and> at_rest lib t"
proof -
  have wr: "lands (written (lib (world s)) (EpFlush ep)) s (heap s)"
    by simp
  have none: "flags_of (EpFlush ep) = [] \<or> (\<forall>q. \<exists>u. ended_by (EpFlush ep) q = [u])" by simp
  show ?thesis
    using E rest none wr
  proof (cases rule: hw_post_posts [where bs = "[]"])
    case (now t)
    then show ?thesis using passes_rest [OF now(2) rest now(3)] by (simp add: flush_ep_def hush_def)
  next
    case (posted q s1)
    from progress_request_carries [OF E, of s1 q wk] posted(3) obtain s2 where
        w: "progress_request E hw_dispatch wk q s1 = Some (UCS_OK, s2)" "hush lib [] s1 s2" "under_way (lib (world s2)) = None"
      by auto
    let ?t = "call_void E (ReqFree q) s2"
    have c: "calm lib [] s2 ?t" by (rule call_void_calm [OF E])
    have h: "hush lib [] s ?t"
      using hush_trans_Nil [OF hush_trans_Nil [OF _ w(2)] calm_hush [OF c]] posted(2) by simp
    have "at_rest lib ?t"
      using c w(3) by (intro passes_rest [OF hush_passes [OF h] rest]) (simp add: calm_def still_def)
    with posted(1) w(1) h show ?thesis by (simp add: flush_ep_def)
  qed simp_all
qed

lemma ep_close_relays:
  fixes s :: "'w hw"
  assumes E: "relays E lib" and rest: "at_rest lib s"
  shows "\<exists>t. ep_close_err_mode E wk ep s = Some t \<and> hush lib [] s t \<and> at_rest lib t"
proof -
  let ?c = "EpClose ep (ucp_err_mode s = ERR_MODE_PEER)"
  obtain r ds w where u: "u_post E ?c [] (world s) = ((r, ds), w)" by (metis surj_pair)
  let ?s = "emit (EvPost ?c [] r) (s\<lparr>world := w\<rparr>)"
  have p: "posts (lib (world s)) ?c (r, ds) (\<lambda>q. u_early E ?c q w) (lib w)"
    using relays_post [OF E, of "world s" ?c "[]"] rest by (simp add: u at_rest_def)
  then have post: "call_post E ?c [] s = (r, ?s)" and s1: "hush lib [] s ?s"
    using u by (auto simp: posts_def call_post_def hush_def passes_def hw_options_def completed_def split: if_splits)
  show ?thesis
  proof (cases r)
    case (ReqPtr q)
    with p have "under_way (lib (world ?s)) = Some (q, [])" by (simp add: posts_def)
    from progress_request_carries [OF E this, of wk] obtain s2 where
        w: "progress_request E hw_dispatch wk q ?s = Some (UCS_OK, s2)" "hush lib [] ?s s2" "under_way (lib (world s2)) = None"
      by blast
    let ?t = "call_void E (ReqFree q) s2"
    have c: "calm lib [] s2 ?t" by (rule call_void_calm [OF E])
    have h: "hush lib [] s ?t" by (rule hush_trans_Nil [OF hush_trans_Nil [OF s1 w(2)] calm_hush [OF c]])
    have "at_rest lib ?t"
      using c w(3) by (intro passes_rest [OF hush_passes [OF h] rest]) (simp add: calm_def still_def)
    with post w(1) h ReqPtr show ?thesis by (simp add: ep_close_err_mode_def ep_close_def)
  next
    case ReqNull
    with p have "at_rest lib ?s" by (intro passes_rest [OF hush_passes [OF s1] rest]) (simp add: posts_def)
    with post s1 ReqNull show ?thesis by (simp add: ep_close_err_mode_def ep_close_def)
  next
    case (ReqErr st)
    with p show ?thesis by (simp add: posts_def)
  qed
qed

end
