(* ===== verification/Hw_Greet.thy ===== *)
theory Hw_Greet
  imports Hw_Exchange
begin

text \<open>
  Whole runs of \<open>ucp_hello_world\<close> over a library and a network that carry the messages: the client and
  the server, each from its command line to its end.
\<close>

section \<open>Memory\<close>

lemma memory_passes:
  "still (lib (world s)) (lib w) \<Longrightarrow> passes lib [] s (s\<lparr>world := w, heap := h, brk := b\<rparr>)"
  "still (lib (world s)) (lib w) \<Longrightarrow> at_rest lib s \<Longrightarrow> at_rest lib (s\<lparr>world := w, heap := h, brk := b\<rparr>)"
  "passes lib [] s (s\<lparr>heap := h\<rparr>)" "at_rest lib s \<Longrightarrow> at_rest lib (s\<lparr>heap := h\<rparr>)"
  by (simp_all add: passes_def still_def hw_options_def completed_def at_rest_def)

lemma malloc_carries:
  fixes s :: "'w hw"
  assumes E: "relays E lib"
  obtains w where "still (lib (world s)) (lib w)" "malloc E n s = (brk s, s\<lparr>world := w,
    heap := (heap s)(brk s \<mapsto> replicate (unat n) None), brk := Suc (brk s)\<rparr>)"
  by (rule that [OF relays_alloc(2) [OF E] malloc_ok [OF relays_alloc(1) [OF E]]])

text \<open>The state after a step: \<open>xs\<close> has been shown, nothing is under way, and the heap is \<open>h\<close>.\<close>

definition reaches :: "('w \<Rightarrow> link) \<Rightarrow> shown list \<Rightarrow> (nat \<Rightarrow> byte option list option) \<Rightarrow> 'w hw \<Rightarrow> 'w hw \<Rightarrow> bool" where
  "reaches lib xs h s t \<longleftrightarrow> passes lib xs s t \<and> at_rest lib t \<and> heap t = h \<and> brk s \<le> brk t"

lemma reaches_trans: "reaches lib xs h s t \<Longrightarrow> reaches lib ys h' t u \<Longrightarrow> reaches lib (xs @ ys) h' s u"
  by (auto simp: reaches_def intro: passes_trans)

lemma hush_reaches: "hush lib xs s t \<Longrightarrow> at_rest lib t \<Longrightarrow> reaches lib xs (heap s) s t"
  by (simp add: reaches_def hush_def)

lemma calm_reaches: "calm lib xs s t \<Longrightarrow> at_rest lib s \<Longrightarrow> reaches lib xs (heap s) s t"
  using calm_rest by (blast intro: hush_reaches calm_hush)

lemma reaches_wf: "reaches lib xs (heap s) s t \<Longrightarrow> wf_heap s \<Longrightarrow> wf_heap t"
  by (auto simp: reaches_def wf_heap_def)

section \<open>The address message\<close>

lemma address_length: "length addr < 2 ^ 32 \<Longrightarrow> unat (of_nat (length addr) :: u64) = length addr"
    "length addr < 2 ^ 32 \<Longrightarrow> unat (8 + of_nat (length addr) :: u64) = 8 + length addr"
  using unat_of_nat_u64 [of "length addr"] unat_of_nat_u64 [of "8 + length addr"] by simp_all

lemma send_address_carries:
  fixes s :: "'w hw"
  assumes E: "relays E lib" and rest: "at_rest lib s" and wf: "wf_heap s" and len: "length addr < 2 ^ 32"
  shows "\<exists>t. send_address E wk ep addr s = Some (Some UCS_OK, t) \<and>
    reaches lib [Sent (map Some (address_message addr))] (heap s) s t"
proof -
  let ?n = "length addr" and ?p = "brk s"
  note n = address_length [OF len]
  have p: "?p \<noteq> 0" "heap s ?p = None" using wf wf_heap_fresh [OF wf] by (simp_all add: wf_heap_def)
  obtain w where w: "still (lib (world s)) (lib w)" "malloc E (8 + of_nat ?n) s =
      (?p, s\<lparr>world := w, heap := (heap s)(?p \<mapsto> replicate (8 + ?n) None), brk := Suc ?p\<rparr>)"
    using malloc_carries [OF E, of s "8 + of_nat ?n"] n by metis
  let ?s2 = "s\<lparr>world := w, heap := (heap s)(?p \<mapsto> map Some (address_message addr)), brk := Suc ?p\<rparr>"
  have fill: "store ?p 8 (map Some addr) (store ?p 0 (map Some (le_bytes 8 ?n)) (memset ?p 0 (8 + ?n)
      (s\<lparr>world := w, heap := (heap s)(?p \<mapsto> replicate (8 + ?n) None), brk := Suc ?p\<rparr>))) = ?s2"
    by (simp add: memset_def memory_simps address_message_def)
  have bytes: "buffer_bytes ?p (8 + of_nat ?n) ?s2 = map Some (address_message addr)"
    by (simp add: buffer_bytes_def memory_simps n)
  let ?c = "TagSend ep (Contig ?p (8 + of_nat ?n)) tag None"
  have rest2: "at_rest lib ?s2" using w(1) rest by (rule memory_passes(2))
  obtain r s3 s4 where post: "hw_post E ?c (map Some (address_message addr)) ?s2 = (r, s3)"
      "ucx_wait E wk r s3 = Some (UCS_OK, s4)"
    and s4: "passes lib [Sent (map Some (address_message addr))] ?s2 s4" "at_rest lib s4" "heap s4 = heap ?s2" "brk s4 = brk ?s2"
    using post_wait_relays [OF E rest2, where c = ?c and h = "heap ?s2" and
        bs = "map Some (address_message addr)" and wk = wk] by auto
  have "send_address E wk ep addr s = Some (Some UCS_OK, s4\<lparr>heap := heap s\<rparr>)"
    using p w(2) post n s4(3) by (simp add: send_address_def sizeof_msg_def fill bytes c_free_def fun_upd_idem)
  moreover have "passes lib [Sent (map Some (address_message addr))] s s4"
    by (rule passes_trans_Nil [OF memory_passes(1) [OF w(1)] s4(1)])
  then have "passes lib [Sent (map Some (address_message addr))] s (s4\<lparr>heap := heap s\<rparr>)"
    using passes_trans [OF _ memory_passes(3)] by fastforce
  ultimately show ?thesis using s4(2,4) memory_passes(4) by (auto simp: reaches_def)
qed

text \<open>The receive of what a probe has handed out.\<close>

lemma lands_matched:
  assumes "matched (lib (world s)) = Some (h, data)" "heap s p = Some bs" "length bs = length data" "unat k = length data"
  shows "lands (written (lib (world s)) (TagMsgRecv wk (Contig p k) h [NO_IMM_CMPL])) s ((heap s)(p \<mapsto> map Some data))"
  using assms by (simp add: lands_def apply_dma_def store_def)

lemma receive_matched:
  fixes s :: "'w hw"
  assumes E: "relays E lib" and rest: "at_rest lib s" and wf: "wf_heap s"
    and m: "matched (lib (world s)) = Some (h, data)" and k: "unat k = length data"
  obtains w r s2 t where "malloc E k s = (brk s, s\<lparr>world := w, heap := (heap s)(brk s \<mapsto> replicate (length data) None), brk := Suc (brk s)\<rparr>)"
    "hw_post E (TagMsgRecv wk (Contig (brk s) k) h [NO_IMM_CMPL]) [] (s\<lparr>world := w, heap := (heap s)(brk s \<mapsto> replicate (length data) None), brk := Suc (brk s)\<rparr>) = (r, s2)"
    "ucx_wait E wk r s2 = Some (UCS_OK, t)" "reaches lib [] ((heap s)(brk s \<mapsto> map Some data)) s t" "brk t = Suc (brk s)"
proof -
  obtain w where w: "still (lib (world s)) (lib w)" "malloc E k s =
      (brk s, s\<lparr>world := w, heap := (heap s)(brk s \<mapsto> replicate (length data) None), brk := Suc (brk s)\<rparr>)"
    using malloc_carries [OF E, of s k] k by metis
  let ?s1 = "s\<lparr>world := w, heap := (heap s)(brk s \<mapsto> replicate (length data) None), brk := Suc (brk s)\<rparr>"
  let ?h = "(heap s)(brk s \<mapsto> map Some data)"
  have rest1: "at_rest lib ?s1" using w(1) rest by (rule memory_passes(2))
  have "matched (lib (world ?s1)) = Some (h, data)" using m w(1) by (simp add: still_def)
  then have l: "lands (written (lib (world ?s1)) (TagMsgRecv wk (Contig (brk s) k) h [NO_IMM_CMPL])) ?s1 ?h"
    using lands_matched [of lib ?s1 h data "brk s" "replicate (length data) None" k wk] k by simp
  obtain r s2 t where t: "hw_post E (TagMsgRecv wk (Contig (brk s) k) h [NO_IMM_CMPL]) [] ?s1 = (r, s2)" "ucx_wait E wk r s2 = Some (UCS_OK, t)"
      "passes lib [] ?s1 t" "at_rest lib t" "heap t = ?h" "brk t = brk ?s1"
    using post_wait_relays [OF E rest1 _ l, where bs = "[]" and wk = wk] unfolding ended_by.simps shown_of.simps by blast
  have "passes lib [] s t" by (rule passes_trans_Nil [OF memory_passes(1) [OF w(1)] t(3)])
  then show thesis by (intro that [OF w(2) t(1,2)]) (use t in \<open>simp_all add: reaches_def\<close>)
qed

lemma receive_address_carries:
  fixes s :: "'w hw"
  assumes E: "relays E lib" and rest: "at_rest lib s" and wf: "wf_heap s" and len: "length addr < 2 ^ 32"
    and m: "matched (lib (world s)) = Some (h, address_message addr)" and mode: "fail_mode s \<noteq> FAILURE_MODE_SEND"
  shows "\<exists>p t. receive_address E wk h (of_nat (length (address_message addr))) s = Some (Address p, t) \<and>
    reaches lib [] ((heap s)(p \<mapsto> map Some addr)) s t \<and> wf_heap t \<and> heap s p = None"
proof -
  let ?n = "length addr" and ?p = "brk s" and ?data = "address_message addr"
  note n = address_length [OF len]
  have k: "unat (of_nat (length ?data) :: u64) = length ?data" using n by simp
  have p: "?p \<noteq> 0" "heap s (Suc ?p) = None" "heap s ?p = None"
    using wf wf_heap_none [OF wf] by (simp_all add: wf_heap_def)
  obtain w r s2 s3 where 1: "malloc E (of_nat (length ?data)) s =
        (?p, s\<lparr>world := w, heap := (heap s)(?p \<mapsto> replicate (length ?data) None), brk := Suc ?p\<rparr>)"
      "hw_post E (TagMsgRecv wk (Contig ?p (of_nat (length ?data))) h [NO_IMM_CMPL]) []
        (s\<lparr>world := w, heap := (heap s)(?p \<mapsto> replicate (length ?data) None), brk := Suc ?p\<rparr>) = (r, s2)"
      "ucx_wait E wk r s2 = Some (UCS_OK, s3)"
    and s3: "reaches lib [] ((heap s)(?p \<mapsto> map Some ?data)) s s3" "brk s3 = Suc ?p"
    by (rule receive_matched [OF E rest wf m k, of wk])
  have h3: "heap s3 ?p = Some (map Some ?data)" "fail_mode s3 \<noteq> FAILURE_MODE_SEND"
    using s3(1) mode by (simp_all add: reaches_def passes_def hw_options_def)
  have l: "msg_data_len ?p s3 = (of_nat ?n, s3)"
  proof -
    have "map the (map Some (le_bytes 8 ?n)) = le_bytes 8 ?n" by (simp add: comp_def)
    moreover have "?n mod 256 ^ 8 = ?n" using len by simp
    ultimately show ?thesis
      using h3(1) by (simp add: msg_data_len_def load_def address_message_def le_value_le_bytes image_iff del: map_map)
  qed
  obtain w4 where 4: "still (lib (world s3)) (lib w4)" "malloc E (of_nat ?n) s3 =
      (Suc ?p, s3\<lparr>world := w4, heap := (heap s3)(Suc ?p \<mapsto> replicate ?n None), brk := Suc (Suc ?p)\<rparr>)"
    using malloc_carries [OF E, of s3 "of_nat ?n"] n s3(2) by metis
  let ?t = "s3\<lparr>world := w4, heap := (heap s)(Suc ?p \<mapsto> map Some addr), brk := Suc (Suc ?p)\<rparr>"
  have "receive_address E wk h (of_nat (length ?data)) s = Some (Address (Suc ?p), ?t)"
    using p 1 4(2) h3 n s3(1)
    by (simp add: receive_address_def l memcpy_def load_def store_def c_free_def address_message_def reaches_def
        fun_upd_twist [of ?p "Suc ?p"] fun_upd_idem)
  moreover have "passes lib [] s ?t"
    using passes_trans_Nil [OF _ memory_passes(1) [OF 4(1)]] s3(1) by (simp add: reaches_def)
  moreover have "at_rest lib ?t" using memory_passes(2) [OF 4(1)] s3(1) by (simp add: reaches_def)
  moreover have "wf_heap ?t" using wf by (auto simp: wf_heap_def)
  ultimately show ?thesis using p(2) by (auto simp: reaches_def)
qed

section \<open>The string message\<close>

lemma string_length:
  assumes "unat (len :: u64) = n" "n < 2 ^ 31"
  shows "unat (8 + len) = 8 + n" "unat (of_nat (8 + n) :: u64) = 8 + n"
  using word_of_unat [OF assms(1)] assms(2) unat_of_nat_u64 [of "8 + n"] by simp_all

lemma calloc_carries:
  fixes s :: "'w hw"
  assumes E: "relays E lib" and n: "unat len = n"
  obtains w where "still (lib (world s)) (lib w)" "calloc E 1 len s =
    (brk s, s\<lparr>world := w, heap := (heap s)(brk s \<mapsto> replicate n (Some 0)), brk := Suc (brk s)\<rparr>)"
proof (rule that)
  have "n < 2 ^ 64" unfolding n [symmetric] by (rule order_less_le_trans [OF unsigned_less]) simp
  then show "calloc E 1 len s = (brk s, s\<lparr>world := snd (alloc_ok E n (world s)),
      heap := (heap s)(brk s \<mapsto> replicate n (Some 0)), brk := Suc (brk s)\<rparr>)"
    using relays_alloc(1) [OF E, where n = n and w = "world s"] n by (simp add: calloc_def new_block_def split_beta)
qed (rule relays_alloc(2) [OF E])

lemma reaches_options:
  assumes "reaches lib xs h s t"
  shows "test_mem_type t = test_mem_type s" "fail_mode t = fail_mode s" "hw_string_length t = hw_string_length s"
    "ucp_err_mode t = ucp_err_mode s" "hw_server_port t = hw_server_port s" "hw_ai_family t = hw_ai_family s"
  using assms by (simp_all add: reaches_def passes_def hw_options_def)

lemma receive_string_carries:
  fixes s :: "'w hw"
  assumes E: "relays E lib" and rest: "at_rest lib s" and wf: "wf_heap s" and host: "test_mem_type s = MEM_HOST"
    and n: "unat (hw_string_length s) = n" "0 < n" "n < 2 ^ 31"
    and m: "matched (lib (world s)) = Some (h, string_message n)"
  shows "\<exists>t. receive_string E wk h (of_nat (length (string_message n))) s = Some (0, t) \<and>
    reaches lib [Printed (map letter [0..<n - 1])] (heap s) s t"
proof -
  let ?p = "brk s" and ?data = "string_message n"
  have k: "unat (of_nat (length ?data) :: u64) = length ?data" using string_length(2) [OF n(1,3)] by simp
  have p: "?p \<noteq> 0" "heap s (Suc ?p) = None" "heap s ?p = None"
    using wf wf_heap_none [OF wf] by (simp_all add: wf_heap_def)
  obtain w r s2 s3 where 1: "malloc E (of_nat (length ?data)) s =
        (?p, s\<lparr>world := w, heap := (heap s)(?p \<mapsto> replicate (length ?data) None), brk := Suc ?p\<rparr>)"
      "hw_post E (TagMsgRecv wk (Contig ?p (of_nat (length ?data))) h [NO_IMM_CMPL]) []
        (s\<lparr>world := w, heap := (heap s)(?p \<mapsto> replicate (length ?data) None), brk := Suc ?p\<rparr>) = (r, s2)"
      "ucx_wait E wk r s2 = Some (UCS_OK, s3)"
    and s3: "reaches lib [] ((heap s)(?p \<mapsto> map Some ?data)) s s3" "brk s3 = Suc ?p"
    by (rule receive_matched [OF E rest wf m k, of wk])
  have h3: "heap s3 = (heap s)(?p \<mapsto> map Some ?data)" "test_mem_type s3 = MEM_HOST" "hw_string_length s3 = hw_string_length s"
    using s3(1) reaches_options [OF s3(1)] host by (simp_all add: reaches_def)
  have mm: "mem_type_malloc E (of_nat (length ?data)) s = malloc E (of_nat (length ?data)) s"
    using host by (simp add: mem_type_malloc_def)
  obtain w4 where 4: "still (lib (world s3)) (lib w4)" "calloc E 1 (hw_string_length s) s3 =
      (Suc ?p, s3\<lparr>world := w4, heap := (heap s3)(Suc ?p \<mapsto> replicate n (Some 0)), brk := Suc (Suc ?p)\<rparr>)"
    using calloc_carries [OF E n(1), of s3] s3(2) by metis
  let ?x = "map letter [0..<n - 1]"
  let ?s4 = "s3\<lparr>world := w4, heap := heap s, brk := Suc (Suc ?p)\<rparr>"
  have "receive_string E wk h (of_nat (length ?data)) s = Some (0, emit (EvPrint ?x) ?s4)"
    using p 1 h3 n mm 4(2)
    by (simp add: receive_string_def mem_type_memcpy_def memcpy_def load_def store_def print_block_def
        string_message_def c_string_test_string mem_type_free_def c_free_def emit_def
        fun_upd_twist [of ?p "Suc ?p"] fun_upd_idem)
  moreover have "passes lib [] s ?s4"
    using passes_trans_Nil [OF _ memory_passes(1) [OF 4(1)]] s3(1) by (simp add: reaches_def)
  then have "passes lib [Printed ?x] s (emit (EvPrint ?x) ?s4)"
    by (simp add: passes_def hw_options_def completed_def)
  moreover have "at_rest lib ?s4" using memory_passes(2) [OF 4(1)] s3(1) by (simp add: reaches_def)
  then have "at_rest lib (emit (EvPrint ?x) ?s4)" by (simp add: at_rest_def completed_def)
  ultimately show ?thesis by (auto simp: reaches_def)
qed

lemma send_string_carries:
  fixes s :: "'w hw"
  assumes E: "relays E lib" and rest: "at_rest lib s" and wf: "wf_heap s" and host: "test_mem_type s = MEM_HOST"
    and n: "unat (hw_string_length s) = n" "0 < n" "n < 2 ^ 31" and mode: "fail_mode s = FAILURE_MODE_NONE"
  shows "\<exists>t. send_string E wk ep s = Some (0, t) \<and> reaches lib [Sent (map Some (string_message n))] (heap s) s t"
proof -
  let ?p = "brk s" and ?len = "8 + hw_string_length s" and ?msg = "map Some (string_message n)"
  note len = string_length(1) [OF n(1,3)]
  have p: "?p \<noteq> 0" "heap s ?p = None" using wf wf_heap_fresh [OF wf] by (simp_all add: wf_heap_def)
  obtain w1 w2 s1 s3 where w: "w1 = snd (alloc_ok E (8 + n) (world s))" "w2 = snd (alloc_ok E n w1)"
    and mm: "mem_type_malloc E ?len s = (?p, s1)"
    and set_len: "set_msg_data_len ?p (hw_string_length s) (mem_type_memset ?p 0 (8 + n) s1) = s3"
    and len3: "hw_string_length s3 = hw_string_length s"
    and g: "generate_test_string E ?p 8 (ucast (hw_string_length s)) s3 =
      (0, s\<lparr>world := w2, heap := (heap s)(?p \<mapsto> ?msg), brk := Suc (Suc ?p)\<rparr>)"
    using string_message_built [OF relays_alloc(1) [OF E] wf host n] unfolding string_message_def by blast
  let ?s4 = "s\<lparr>world := w2, heap := (heap s)(?p \<mapsto> ?msg), brk := Suc (Suc ?p)\<rparr>"
  have "still (lib (world s)) (lib w2)" unfolding w using relays_alloc(2) [OF E] still_trans by blast
  note s4 = memory_passes(1) [OF this] memory_passes(2) [OF this rest]
  have "no_callback (lib (world ?s4))" using s4(2) by (simp add: at_rest_def no_callback_def)
  note pr = progress_hush [OF E this, where wk = wk]
  define s5 where "s5 = hw_progress E wk ?s4"
  have s5: "hush lib [] ?s4 s5" "at_rest lib s5"
    using pr(1,2) s4(2) passes_rest [OF hush_passes [OF pr(1)]] by (auto simp: s5_def at_rest_def)
  have h5: "heap s5 = (heap s)(?p \<mapsto> ?msg)" "brk s5 = Suc (Suc ?p)" using s5(1) by (simp_all add: hush_def)
  let ?c = "TagSend ep (Contig ?p ?len) tag None"
  obtain r s6 s7 where post: "hw_post E ?c ?msg s5 = (r, s6)" "ucx_wait E wk r s6 = Some (UCS_OK, s7)"
    and s7: "passes lib [Sent ?msg] s5 s7" "at_rest lib s7" "heap s7 = heap s5" "brk s7 = brk s5"
    using post_wait_relays [OF E s5(2), where c = ?c and h = "heap s5" and bs = ?msg and wk = wk] by auto
  obtain s8 where s8: "flush_ep E wk ep s7 = Some (UCS_OK, s8)" "hush lib [] s7 s8" "at_rest lib s8"
    using flush_ep_carries [OF E s7(2)] by blast
  have all: "passes lib [Sent ?msg] s s8"
    using passes_trans [OF passes_trans_Nil [OF passes_trans_Nil [OF s4(1) hush_passes [OF s5(1)]] s7(1)] hush_passes [OF s8(2)]]
    by simp
  then have o: "test_mem_type s8 = MEM_HOST" using host by (simp add: passes_def hw_options_def)
  have o7: "fail_mode s7 = FAILURE_MODE_NONE"
    using mode all s8(2) by (simp add: hush_def passes_def hw_options_def)
  have h8: "heap s8 = (heap s)(?p \<mapsto> ?msg)" "brk s8 = Suc (Suc ?p)" using s8(2) s7(3,4) h5 by (simp_all add: hush_def)
  have bytes: "buffer_bytes ?p ?len s5 = ?msg" by (simp add: buffer_bytes_def load_def h5 len)
  have free: "mem_type_free ?p s8 = s8\<lparr>heap := heap s\<rparr>"
    using o p h8 by (simp add: mem_type_free_def c_free_def fun_upd_idem)
  have "send_string E wk ep s = Some (0, s8\<lparr>heap := heap s\<rparr>)"
    using p(1) post s8(1) o7
    by (simp add: send_string_def sizeof_msg_def mm len set_len len3 g s5_def [symmetric] bytes free)
  moreover have "passes lib [Sent ?msg] s (s8\<lparr>heap := heap s\<rparr>)"
    using passes_trans [OF all memory_passes(3)] by simp
  ultimately show ?thesis using memory_passes(4) [OF s8(3)] h8(2) by (auto simp: reaches_def)
qed

section \<open>The search for the message\<close>

text \<open>What is left for the library to do, the message to be received aside.\<close>

definition past :: "('w \<Rightarrow> link) \<Rightarrow> 'w \<Rightarrow> link" where
  "past lib w = (lib w)\<lparr>inbound := None, matched := None\<rparr>"

lemma past_simps [simp]:
  "under_way (past lib w) = under_way (lib w)" "inbound (past lib w) = None" "matched (past lib w) = None"
  "stream (past lib w) = stream (lib w)" "patience (past lib w) = patience (lib w)"
  "at_rest (past lib) s = at_rest lib s"
  by (simp_all add: past_def at_rest_def)

lemma passes_past: "passes lib xs s t \<Longrightarrow> passes (past lib) xs s t"
  by (simp add: passes_def)

lemma hush_past: "hush lib xs s t \<Longrightarrow> hush (past lib) xs s t"
  by (simp add: hush_def passes_past)

lemma reaches_past: "reaches lib xs h s t \<Longrightarrow> reaches (past lib) xs h s t"
  by (simp add: reaches_def passes_past)

lemma tag_probe_carries:
  fixes s :: "'w hw"
  assumes E: "relays E lib"
  obtains (none) t where "tag_probe E wk s = (None, t)" "calm lib [] s t" "\<And>data. inbound (lib (world s)) \<noteq> Some (data, True)"
  | (found) h data t where "tag_probe E wk s = (Some (h, of_nat (length data)), t)" "inbound (lib (world s)) = Some (data, True)"
      "calm (past lib) [] s t" "matched (lib (world t)) = Some (h, data)"
proof -
  obtain m w where u: "u_probe E wk (world s) = (m, w)" by fastforce
  show thesis
  proof (cases m)
    case None
    with relays_probe [OF E, where wk = wk and w = "world s"] u have w: "\<And>data. inbound (lib (world s)) \<noteq> Some (data, True)"
      "still (lib (world s)) (lib w)" by auto
    show thesis
      by (rule none [of "emit (EvCreate (TagProbe wk tag tag_mask) UCS_ERR_NO_MESSAGE 0) (s\<lparr>world := w\<rparr>)", OF _ _ w(1)])
        (use u None w(2) in \<open>simp_all add: tag_probe_def calm_def hw_options_def\<close>)
  next
    case (Some p)
    obtain h len where p: "p = (h, len)" by fastforce
    with relays_probe [OF E, where wk = wk and w = "world s"] u Some obtain data where w: "inbound (lib (world s)) = Some (data, True)"
      "len = of_nat (length data)" "lib w = (lib (world s))\<lparr>inbound := None, matched := Some (h, data)\<rparr>" by auto
    show thesis
      by (rule found [of h data "emit (EvCreate (TagProbe wk tag tag_mask) UCS_OK h) (s\<lparr>world := w\<rparr>)"])
        (use u Some p w in \<open>simp_all add: tag_probe_def calm_def hw_options_def still_def\<close>)
  qed
qed

text \<open>A state of a search that began in \<open>s\<close>, and the state it ends with.\<close>

definition searching :: "('w \<Rightarrow> link) \<Rightarrow> byte list \<Rightarrow> 'w hw \<Rightarrow> 'w hw \<Rightarrow> bool" where
  "searching lib data s u \<longleftrightarrow> hush lib [] s u \<and> at_rest lib u \<and> (\<exists>b. inbound (lib (world u)) = Some (data, b))"

definition found_in :: "('w \<Rightarrow> link) \<Rightarrow> byte list \<Rightarrow> 'w hw \<Rightarrow> nat \<times> u64 \<Rightarrow> 'w hw \<Rightarrow> bool" where
  "found_in lib data s m t \<longleftrightarrow> reaches (past lib) [] (heap s) s t \<and> snd m = of_nat (length data) \<and>
     matched (lib (world t)) = Some (fst m, data)"

lemma searching_hush:
  assumes "searching lib data s u" "hush lib [] u v" "under_way (lib (world v)) = None"
  shows "searching lib data s v"
proof -
  have "hush lib [] s v" using assms(1,2) unfolding searching_def by (blast intro: hush_trans_Nil)
  moreover have "at_rest lib v" using assms unfolding searching_def by (blast intro: passes_rest hush_passes)
  moreover have "map_option fst (inbound (lib (world v))) = Some data"
    using assms(1,2) unfolding searching_def hush_def passes_def by (elim conjE exE) (metis fst_conv option.simps(9))
  then have "\<exists>b. inbound (lib (world v)) = Some (data, b)" by auto
  ultimately show ?thesis by (simp add: searching_def)
qed

lemma searching_calm: "searching lib data s u \<Longrightarrow> calm lib [] u v \<Longrightarrow> searching lib data s v"
  by (rule searching_hush [OF _ calm_hush]) (auto simp: searching_def at_rest_def calm_def still_def)

lemma searching_progress:
  assumes E: "relays E lib" and u: "searching lib data s u"
  shows "searching lib data s (hw_progress E wk u)"
proof -
  have "no_callback (lib (world u))" using u by (simp add: searching_def at_rest_def no_callback_def)
  note p = progress_hush(1,2) [OF E this, where wk = wk]
  show ?thesis by (rule searching_hush [OF u p(1)]) (use p(2) u in \<open>auto simp: searching_def at_rest_def\<close>)
qed

lemma searching_found:
  assumes u: "searching lib data s u" and t: "calm (past lib) [] u t" "matched (lib (world t)) = Some (h, data)"
  shows "found_in lib data s (h, of_nat (length data)) t"
proof -
  have "hush (past lib) [] s t"
    using u t(1) unfolding searching_def by (blast intro: hush_trans_Nil hush_past calm_hush)
  moreover have "at_rest (past lib) t" by (rule calm_rest [OF t(1)]) (use u in \<open>simp add: searching_def\<close>)
  ultimately have "reaches (past lib) [] (heap s) s t" by (rule hush_reaches)
  with t(2) show ?thesis by (simp add: found_in_def)
qed

lemma progress_patience:
  assumes E: "relays E lib" and u: "searching lib data s u" and not_yet: "inbound (lib (world u)) \<noteq> Some (data, True)"
  shows "patience (lib (world (hw_progress E wk u))) < patience (lib (world u))"
proof -
  have no: "no_callback (lib (world u))" using u by (simp add: searching_def at_rest_def no_callback_def)
  have "due (lib (world u))" using u not_yet by (auto simp: searching_def due_def)
  then show ?thesis by (rule progress_hush(5) [OF E no])
qed

text \<open>The client, in any of the three modes.\<close>

lemma client_loop_carries:
  fixes s :: "'w hw"
  assumes E: "relays E lib" and N: "connects E lib" and rest: "at_rest lib s" and ok: "ep_status s = UCS_OK"
    and inb: "inbound (lib (world s)) = Some (data, b)"
  shows "\<exists>m t. loop (client_probe E wk) s = Some (Some m, t) \<and> found_in lib data s m t"
proof -
  let ?P = "searching lib data s"
  let ?Q = "\<lambda>(m, t). \<exists>m'. m = Some m' \<and> found_in lib data s m' t"
  have start: "?P s" using rest inb by (simp add: searching_def)
  have "\<exists>r. loop (client_probe E wk) s = Some r \<and> ?Q r"
  proof (rule loop_ends [where P = ?P and m = "\<lambda>u. patience (lib (world u))", OF start])
    fix u assume u: "?P u"
    then have st: "ep_status u = UCS_OK" using ok by (simp add: searching_def hush_def passes_def)
    show "(\<exists>q. client_probe E wk u = Some (Inr q) \<and> ?Q q) \<or>
      (\<exists>v. client_probe E wk u = Some (Inl v) \<and> ?P v \<and> patience (lib (world v)) < patience (lib (world u)))"
      using E
    proof (cases rule: tag_probe_carries [where wk = wk and s = u])
      case (found h data' t)
      have "data' = data" using found(2) u by (auto simp: searching_def)
      with found searching_found [OF u] st show ?thesis by (auto simp: client_probe_def)
    next
      case (none u1)
      have u1: "?P u1" using u none(2) by (rule searching_calm)
      have "inbound (lib (world u1)) \<noteq> Some (data, True)" using none by (auto simp: calm_def still_def)
      note less = progress_patience [OF E u1 this, of wk]
      obtain n u2 where p: "ucp_worker_progress E hw_dispatch wk u1 = (n, u2)" by fastforce
      have u2: "?P u2" "patience (lib (world u2)) < patience (lib (world u))"
        using searching_progress [OF E u1, of wk] less none(2) by (simp_all add: p calm_def still_def)
      have next_round: "?P v \<and> patience (lib (world v)) < patience (lib (world u))" if "calm lib [] u2 v" for v
        using searching_calm [OF u2(1) that] that u2(2) by (simp add: calm_def still_def)
      obtain st3 u3 where c: "call_status E (WorkerWait wk) u2 = (st3, u3)" "calm lib [] u2 u3" "st3 = UCS_OK"
        by (rule call_status_calm [OF E, of "WorkerWait wk" u2]) simp
      obtain u4 where w: "test_poll_wait E wk u2 = Some (UCS_OK, u4)" "calm lib [] u2 u4"
        using test_poll_wait_calm [OF E N] by blast
      show ?thesis
        using st none(1) p c(1,3) w(1) next_round [OF calm_refl] next_round [OF c(2)] next_round [OF w(2)]
        by (auto simp: client_probe_def)
    qed
  qed
  then show ?thesis by auto
qed

text \<open>The server.\<close>

lemma server_loop_carries:
  fixes s :: "'w hw"
  assumes E: "relays E lib" and rest: "at_rest lib s" and inb: "inbound (lib (world s)) = Some (data, b)"
  shows "\<exists>m t. loop (server_probe E wk) s = Some (m, t) \<and> found_in lib data s m t"
proof -
  let ?P = "searching lib data s" and ?Q = "\<lambda>(m, t). found_in lib data s m t"
  have start: "?P s" using rest inb by (simp add: searching_def)
  have "\<exists>r. loop (server_probe E wk) s = Some r \<and> ?Q r"
  proof (rule loop_ends [where P = ?P and m = "\<lambda>u. patience (lib (world u))", OF start])
    fix u assume u: "?P u"
    let ?v = "hw_progress E wk u"
    have v: "?P ?v" by (rule searching_progress [OF E u])
    show "(\<exists>q. server_probe E wk u = Some (Inr q) \<and> ?Q q) \<or>
      (\<exists>v. server_probe E wk u = Some (Inl v) \<and> ?P v \<and> patience (lib (world v)) < patience (lib (world u)))"
      using E
    proof (cases rule: tag_probe_carries [where wk = wk and s = ?v])
      case (found h data' t)
      have "data' = data" using found(2) v by (auto simp: searching_def)
      with found searching_found [OF v] show ?thesis by (auto simp: server_probe_def)
    next
      case (none t)
      have no: "no_callback (lib (world u))" using u by (simp add: searching_def at_rest_def no_callback_def)
      have "inbound (lib (world u)) \<noteq> Some (data, True)"
        using none(3) progress_hush(6) [OF E no, where data = data and wk = wk] by blast
      note less = progress_patience [OF E u this, of wk]
      have "patience (lib (world t)) < patience (lib (world u))" using none(2) less by (simp add: calm_def still_def)
      with none(1) searching_calm [OF v none(2)] show ?thesis by (simp add: server_probe_def)
    qed
  qed
  then show ?thesis by auto
qed

section \<open>The client and the server\<close>

lemma found_in_reaches: "found_in lib data s m t \<Longrightarrow> reaches (past lib) [] (heap s) s t"
  by (simp add: found_in_def)

lemma inbound_reaches:
  "reaches lib xs h s t \<Longrightarrow> inbound (lib (world s)) = Some (data, b) \<Longrightarrow> \<exists>b. inbound (lib (world t)) = Some (data, b)"
  by (auto simp: reaches_def passes_def)

lemma run_ucx_client_carries:
  fixes s :: "'w hw"
  assumes E: "relays E lib" and N: "connects E lib" and rest: "at_rest lib s" and wf: "wf_heap s" and host: "test_mem_type s = MEM_HOST"
    and ok: "ep_status s = UCS_OK" and mode: "fail_mode s = FAILURE_MODE_NONE"
    and n: "unat (hw_string_length s) = n" "0 < n" "n < 2 ^ 31" and len: "length addr < 2 ^ 32"
    and inb: "inbound (lib (world s)) = Some (string_message n, b)"
  shows "\<exists>t. run_ucx_client E wk addr p s = Some (Some 0, t) \<and>
    reaches (past lib) [Dialled (block_bytes p s), Sent (map Some (address_message addr)), Printed (map letter [0..<n - 1])]
      (heap s) s t"
proof -
  obtain ep s1 where 1: "call_create E (EpCreateAddr wk (block_bytes p s) (ucp_err_mode s)) s = ((UCS_OK, ep), s1)"
    "calm lib [Dialled (block_bytes p s)] s s1"
    by (rule call_create_calm [OF E, of "EpCreateAddr wk (block_bytes p s) (ucp_err_mode s)" s]) simp
  note r1 = calm_reaches [OF 1(2) rest]
  have s1: "heap s1 = heap s" "at_rest lib s1" using r1 by (simp_all add: reaches_def)
  obtain s2 where 2: "send_address E wk ep addr s1 = Some (Some UCS_OK, s2)"
    "reaches lib [Sent (map Some (address_message addr))] (heap s1) s1 s2"
    using send_address_carries [OF E s1(2) reaches_wf [OF r1 wf] len] by blast
  note r2 = reaches_trans [OF r1 2(2) [unfolded s1(1)]]
  have s2: "ep_status s2 = UCS_OK" "at_rest lib s2" "heap s2 = heap s" using r2 ok by (simp_all add: reaches_def passes_def)
  obtain b2 where "inbound (lib (world s2)) = Some (string_message n, b2)" using inbound_reaches [OF r2 inb] by blast
  from client_loop_carries [OF E N s2(2,1) this, of wk] obtain m s3 where
      3: "loop (client_probe E wk) s2 = Some (Some m, s3)" "found_in lib (string_message n) s2 m s3" by blast
  note r3 = reaches_trans [OF reaches_past [OF r2] found_in_reaches [OF 3(2), unfolded s2(3)]]
  note o3 = reaches_options [OF r3]
  have m: "m = (fst m, of_nat (length (string_message n)))" "matched (lib (world s3)) = Some (fst m, string_message n)"
    using 3(2) by (auto simp: found_in_def prod_eq_iff)
  have s3: "heap s3 = heap s" "at_rest lib s3" using r3 by (simp_all add: reaches_def)
  have wf3: "wf_heap s3" using wf r3 by (auto simp: wf_heap_def reaches_def)
  obtain s4 where 4: "receive_string E wk (fst m) (of_nat (length (string_message n))) s3 = Some (0, s4)"
    "reaches lib [Printed (map letter [0..<n - 1])] (heap s3) s3 s4"
    using receive_string_carries [OF E s3(2) wf3 _ _ n(2,3) m(2), of wk] o3 host n(1) by auto
  note r4 = reaches_trans [OF r3 reaches_past [OF 4(2) [unfolded s3(1)]]]
  have s4: "at_rest lib s4" "heap s4 = heap s" using r4 by (simp_all add: reaches_def)
  obtain s5 where 5: "ep_close_err_mode E wk ep s4 = Some s5" "hush lib [] s4 s5" "at_rest lib s5"
    using ep_close_relays [OF E s4(1)] by blast
  note r5 = reaches_trans [OF r4 reaches_past [OF hush_reaches [OF 5(2,3), unfolded s4(2)]]]
  have "fail_mode s2 = FAILURE_MODE_NONE" "fail_mode s3 = FAILURE_MODE_NONE"
    using reaches_options(2) [OF r2] o3(2) mode by simp_all
  then have "run_ucx_client E wk addr p s = Some (Some 0, s5)"
    using 1(1) 2(1) 3(1) 4(1) 5(1) by (subst (asm) m(1)) (simp add: run_ucx_client_def)
  with r5 show ?thesis by auto
qed

lemma run_ucx_server_carries:
  fixes s :: "'w hw"
  assumes E: "relays E lib" and rest: "at_rest lib s" and wf: "wf_heap s" and host: "test_mem_type s = MEM_HOST"
    and mode: "fail_mode s = FAILURE_MODE_NONE"
    and n: "unat (hw_string_length s) = n" "0 < n" "n < 2 ^ 31" and len: "length addr < 2 ^ 32"
    and inb: "inbound (lib (world s)) = Some (address_message addr, b)"
  shows "\<exists>h t. run_ucx_server E wk s = Some (Some 0, t) \<and>
    reaches (past lib) [Dialled (map Some addr), Sent (map Some (string_message n))] h s t"
proof -
  from server_loop_carries [OF E rest inb, of wk] obtain m s1 where
      1: "loop (server_probe E wk) s = Some (m, s1)" "found_in lib (address_message addr) s m s1" by blast
  note r1 = found_in_reaches [OF 1(2)]
  note o1 = reaches_options [OF r1]
  have m: "m = (fst m, of_nat (length (address_message addr)))" "matched (lib (world s1)) = Some (fst m, address_message addr)"
    using 1(2) by (auto simp: found_in_def prod_eq_iff)
  have s1: "heap s1 = heap s" "at_rest lib s1" using r1 by (simp_all add: reaches_def)
  have mode1: "fail_mode s1 \<noteq> FAILURE_MODE_SEND" using o1(2) mode by simp
  obtain q s2 where 2: "receive_address E wk (fst m) (of_nat (length (address_message addr))) s1 = Some (Address q, s2)"
    "reaches lib [] ((heap s1)(q \<mapsto> map Some addr)) s1 s2" "wf_heap s2"
    using receive_address_carries [OF E s1(2) reaches_wf [OF r1 wf] len m(2) mode1] by blast
  note r2 = reaches_trans [OF r1 reaches_past [OF 2(2) [unfolded s1(1)]]]
  have s2: "block_bytes q s2 = map Some addr" "at_rest lib s2" using r2 by (simp_all add: reaches_def block_bytes_def)
  obtain ep s3 where 3: "call_create E (EpCreateAddr wk (map Some addr) (ucp_err_mode s2)) s2 = ((UCS_OK, ep), s3)"
    "calm lib [Dialled (map Some addr)] s2 s3"
    by (rule call_create_calm [OF E, of "EpCreateAddr wk (map Some addr) (ucp_err_mode s2)" s2]) simp
  note r3' = calm_reaches [OF 3(2) s2(2)]
  note r3 = reaches_trans [OF r2 reaches_past [OF r3']]
  note o3 = reaches_options [OF r3]
  have s3: "at_rest lib s3" using r3 by (simp add: reaches_def)
  obtain s4 where 4: "send_string E wk ep s3 = Some (0, s4)"
    "reaches lib [Sent (map Some (string_message n))] (heap s3) s3 s4"
    using send_string_carries [OF E s3 reaches_wf [OF r3' 2(3)] _ _ n(2,3)] o3 host n(1) mode by metis
  note r4 = reaches_trans [OF r3 reaches_past [OF 4(2)]]
  have s4: "at_rest lib s4" using r4 by (simp add: reaches_def)
  obtain s5 where 5: "ep_close_err_mode E wk ep s4 = Some s5" "hush lib [] s4 s5" "at_rest lib s5"
    using ep_close_relays [OF E s4] by blast
  note r5 = reaches_trans [OF r4 reaches_past [OF hush_reaches [OF 5(2,3)]]]
  have "run_ucx_server E wk s = Some (Some 0, s5)"
    using 1(1) 2(1) 3(1) 4(1) 5(1) s2(1) by (subst (asm) m(1)) (simp add: run_ucx_server_def)
  with r5 show ?thesis by auto
qed

section \<open>The exchange of addresses and the barrier\<close>

lemma deaf_hush: "hush lib xs s t \<Longrightarrow> hush (deaf lib) xs s t" "passes lib xs s t \<Longrightarrow> passes (deaf lib) xs s t"
    "at_rest (deaf lib) s = at_rest lib s"
  by (simp_all add: hush_def passes_def at_rest_def)

lemma int_length: "n < 2 ^ 31 \<Longrightarrow> as_int (of_nat n) = int n" "n < 2 ^ 31 \<Longrightarrow> uint (of_nat n :: u64) = int n"
    "n < 2 ^ 31 \<Longrightarrow> ssize_as_int (int n) = int n"
  using unat_of_nat_u64 [of n] sint_ucast_size [of "of_nat n" n]
  by (simp_all add: as_int_def ssize_as_int_def uint_nat signed_of_nat signed_take_bit_int_eq_self)

lemma oob_server_carries:
  fixes s :: "'w hw"
  assumes N: "connects E lib" and len: "length addr < 2 ^ 31"
  shows "\<exists>fd t. oob_server E addr s = (Connected fd 0, t) \<and> calm lib [Wired (le_bytes 8 (length addr)), Wired addr] s t"
proof -
  note l = int_length [OF len]
  have u: "unat (of_nat (length addr) :: u64) = length addr" using len unat_of_nat_u64 [of "length addr"] by simp
  obtain fd s1 where 1: "connect_common E None (hw_server_port s) (hw_ai_family s) s = (fd, s1)" "0 \<le> fd" "calm lib [] s s1"
    by (rule connect_common_calm [OF N])
  obtain s2 where 2: "sock E (SendBytes fd (le_bytes 8 (length addr))) s1 = (8, s2)" "calm lib [Wired (le_bytes 8 (length addr))] s1 s2"
    by (rule sock_calm [OF N, of "SendBytes fd (le_bytes 8 (length addr))" s1]) simp
  obtain s3 where 3: "sock E (SendBytes fd addr) s2 = (int (length addr), s3)" "calm lib [Wired addr] s2 s3"
    by (rule sock_calm [OF N, of "SendBytes fd addr" s2]) simp
  have "oob_server E addr s = (Connected fd 0, s3)"
    using 1(1,2) 2(1) 3(1) by (simp add: oob_server_def u l)
  moreover have "calm lib ([Wired (le_bytes 8 (length addr))] @ [Wired addr]) s s3"
    by (rule calm_trans_Nil [OF 1(3) calm_trans [OF 2(2) 3(2)]])
  ultimately show ?thesis by auto
qed

lemma oob_client_carries:
  fixes s :: "'w hw"
  assumes E: "relays E lib" and N: "connects E lib" and rest: "at_rest lib s" and wf: "wf_heap s" and len: "length addr < 2 ^ 31"
    and str: "stream (lib (world s)) = le_bytes 8 (length addr) @ addr @ tail"
  shows "\<exists>fd p t. oob_client E server s = (Connected fd p, t) \<and>
    reaches (deaf lib) [] ((heap s)(p \<mapsto> map Some addr)) s t \<and> stream (lib (world t)) = tail \<and> wf_heap t \<and> p \<noteq> 0"
proof -
  let ?n = "length addr" and ?p = "brk s"
  note l = int_length [OF len]
  have u: "unat (of_nat ?n :: u64) = ?n" using len unat_of_nat_u64 [of ?n] by simp
  have v: "le_value (le_bytes 8 ?n) = ?n" using len by (simp add: le_value_le_bytes)
  obtain fd s1 where 1: "connect_common E (Some server) (hw_server_port s) (hw_ai_family s) s = (fd, s1)" "0 \<le> fd" "calm lib [] s s1"
    by (rule connect_common_calm [OF N])
  have "stream (lib (world s1)) = le_bytes 8 ?n @ addr @ tail" using 1(3) str by (simp add: calm_def still_def)
  from sock_recv_carries [OF N this, of 8] obtain s2 where 2: "sock_recv E fd 8 s1 = ((8, le_bytes 8 ?n), s2)"
    "stream (lib (world s2)) = addr @ tail" "calm (deaf lib) [] s1 s2" by auto
  have b2: "brk s2 = ?p" "heap s2 = heap s" using 1(3) 2(3) by (simp_all add: calm_def)
  obtain w where 3: "still (lib (world s2)) (lib w)" "malloc E (of_nat ?n) s2 =
      (?p, s2\<lparr>world := w, heap := (heap s)(?p \<mapsto> replicate ?n None), brk := Suc ?p\<rparr>)"
    using malloc_carries [OF E, of s2 "of_nat ?n"] u b2 by metis
  let ?s3 = "s2\<lparr>world := w, heap := (heap s)(?p \<mapsto> replicate ?n None), brk := Suc ?p\<rparr>"
  have "stream (lib (world ?s3)) = addr @ tail" using 2(2) 3(1) by (simp add: still_def)
  from sock_recv_carries [OF N this, of "of_nat ?n" fd] u obtain s4 where
      4: "sock_recv E fd (of_nat ?n) ?s3 = ((int ?n, addr), s4)" "stream (lib (world s4)) = tail" "calm (deaf lib) [] ?s3 s4"
    by (auto simp: l)
  have h4: "heap s4 = (heap s)(?p \<mapsto> replicate ?n None)" "brk s4 = Suc ?p" using 4(3) by (simp_all add: calm_def)
  let ?t = "s4\<lparr>heap := (heap s)(?p \<mapsto> map Some addr)\<rparr>"
  have p: "?p \<noteq> 0" using wf by (simp add: wf_heap_def)
  have "oob_client E server s = (Connected fd ?p, ?t)"
    using 1(1,2) 2(1) 3(2) 4(1) p h4(1) by (simp add: oob_client_def v l memory_simps)
  moreover have "reaches (deaf lib) [] ((heap s)(?p \<mapsto> map Some addr)) s ?t"
  proof -
    have "hush (deaf lib) [] s s2" by (rule hush_trans_Nil [OF deaf_hush(1) [OF calm_hush [OF 1(3)]] calm_hush [OF 2(3)]])
    moreover have "passes (deaf lib) [] s2 ?s3"
      by (rule memory_passes(1)) (use 3(1) in \<open>simp add: still_def\<close>)
    ultimately have "passes (deaf lib) [] s s4"
      using hush_passes [OF calm_hush [OF 4(3)]] by (blast intro: passes_trans_Nil hush_passes)
    then have "passes (deaf lib) [] s ?t" using memory_passes(3) passes_trans_Nil by blast
    moreover have "at_rest lib ?t"
      using calm_rest [OF 4(3)] calm_rest [OF 2(3)] calm_rest [OF 1(3) rest] memory_passes(2) [OF 3(1)] memory_passes(4)
      by (simp add: deaf_hush(3))
    ultimately show ?thesis using h4(2) by (simp add: reaches_def deaf_hush(3))
  qed
  moreover have "wf_heap ?t" using wf h4(2) by (auto simp: wf_heap_def)
  ultimately show ?thesis using 4(2) p by auto
qed

text \<open>The poll for the bytes of the peer, with a progress call after each.\<close>

lemma poll_loop_carries:
  fixes s :: "'w hw"
  assumes E: "relays E lib" and N: "connects E lib" and rest: "at_rest lib s"
  shows "\<exists>r t. while_option (\<lambda>(res, s). res \<noteq> 1) (\<lambda>(_, s). let (res, s) = sock E (PollIn fd) s in (res, hw_progress E wk s))
      (let (res, s) = sock E (PollIn fd) s in (res, hw_progress E wk s)) = Some (r, t) \<and> hush lib [] s t \<and> at_rest lib t"
proof -
  let ?b = "\<lambda>(res, s). res \<noteq> 1" and ?c = "\<lambda>(_ :: int, s). let (res, s) = sock E (PollIn fd) s in (res, hw_progress E wk s)"
  let ?P = "\<lambda>(res :: int, u). hush lib [] s u \<and> at_rest lib u"
  let ?m = "\<lambda>(r, u). if ?b (r, u) then Suc (patience (lib (world u))) else 0"
  have step: "?P (?c x) \<and> (?b x \<longrightarrow> ?m (?c x) < ?m x)" if "?P x" for x
  proof -
    obtain r u where x: "x = (r, u)" by fastforce
    with that have u: "hush lib [] s u" "at_rest lib u" by simp_all
    obtain q v where v: "sock E (PollIn fd) u = (q, v)" "calm lib [] u v"
      "q \<noteq> 1 \<Longrightarrow> patience (lib (world v)) < patience (lib (world u))"
      by (rule sock_calm [OF N, of "PollIn fd" u]) simp
    have rv: "at_rest lib v" by (rule calm_rest [OF v(2) u(2)])
    then have "no_callback (lib (world v))" by (simp add: at_rest_def no_callback_def)
    note p = progress_hush(1,2,4) [OF E this, where wk = wk]
    have "hush lib [] s (hw_progress E wk v)" by (rule hush_trans_Nil [OF hush_trans_Nil [OF u(1) calm_hush [OF v(2)]] p(1)])
    moreover have "at_rest lib (hw_progress E wk v)"
      by (rule passes_rest [OF hush_passes [OF p(1)] rv]) (use p(2) rv in \<open>auto simp: at_rest_def\<close>)
    ultimately show ?thesis using v p(3) by (auto simp: x)
  qed
  have start: "?P (?c (0, s))" using step [of "(0, s)"] rest by simp
  have "\<exists>x. while_option ?b ?c (?c (0, s)) = Some x"
    by (rule measure_while_option_Some [where P = ?P and f = ?m, OF _ start], drule step, elim conjE, rule conjI, assumption)
      (erule (1) mp)
  then obtain x where x: "while_option ?b ?c (?c (0, s)) = Some x" ..
  have "?P x" by (rule while_option_rule [where P = ?P, OF _ x start], drule step) (erule conjunct1)
  with x show ?thesis by (cases x) simp
qed

lemma barrier_carries:
  fixes s :: "'w hw"
  assumes E: "relays E lib" and N: "connects E lib" and rest: "at_rest lib s"
    and str: "stream (lib (world s)) = bs @ tail" "length bs = 4"
  shows "\<exists>t. barrier E fd (hw_progress E wk) s = Some (0, t) \<and> hush (deaf lib) [Wired [0, 0, 0, 0]] s t"
proof -
  obtain s1 where 1: "sock E (SendBytes fd [0, 0, 0, 0]) s = (4, s1)" "calm lib [Wired [0, 0, 0, 0]] s s1"
    by (rule sock_calm [OF N, of "SendBytes fd [0, 0, 0, 0]" s]) simp
  obtain r s2 where 2: "while_option (\<lambda>(res, s). res \<noteq> 1) (\<lambda>(_, s). let (res, s) = sock E (PollIn fd) s in (res, hw_progress E wk s))
      (let (res, s) = sock E (PollIn fd) s1 in (res, hw_progress E wk s)) = Some (r, s2)" "hush lib [] s1 s2"
    using poll_loop_carries [OF E N calm_rest [OF 1(2) rest]] by blast
  have "stream (lib (world s2)) = bs @ tail" using 2(2) 1(2) str(1) by (simp add: hush_def passes_def calm_def still_def)
  from sock_recv_carries [OF N this, of 4] str(2) obtain t where
      t: "sock_recv E fd 4 s2 = ((4, bs), t)" "calm (deaf lib) [] s2 t" by auto
  have "barrier E fd (hw_progress E wk) s = Some (0, t)"
    using 1(1) 2(1) t(1) by (simp add: barrier_def)
  moreover have "hush (deaf lib) ([Wired [0, 0, 0, 0]] @ []) s t"
    by (rule hush_trans [OF deaf_hush(1) [OF calm_hush [OF 1(2)]] hush_trans_Nil [OF deaf_hush(1) [OF 2(2)] calm_hush [OF t(2)]]])
  ultimately show ?thesis by auto
qed

section \<open>The programs\<close>

text \<open>What is seen of a part of a run that touches no memory it does not own.\<close>

definition sees :: "shown list \<Rightarrow> 'w hw \<Rightarrow> 'w hw \<Rightarrow> bool" where
  "sees xs s t \<longleftrightarrow> visible (trace t) = visible (trace s) @ xs \<and> faults t = faults s"

lemma sees_trans: "sees xs s t \<Longrightarrow> sees ys t u \<Longrightarrow> sees (xs @ ys) s u"
  by (simp add: sees_def)

lemma sees_trans_Nil: "sees [] s t \<Longrightarrow> sees xs t u \<Longrightarrow> sees xs s u" "sees xs s t \<Longrightarrow> sees [] t u \<Longrightarrow> sees xs s u"
  by (simp_all add: sees_def)

lemma passes_sees: "passes lib xs s t \<Longrightarrow> sees xs s t"
  by (simp add: passes_def sees_def)

lemma reaches_sees: "reaches lib xs h s t \<Longrightarrow> sees xs s t"
  unfolding reaches_def by (elim conjE) (rule passes_sees)

lemma calm_sees: "calm lib xs s t \<Longrightarrow> sees xs s t"
  by (simp add: calm_def sees_def)

text \<open>A program that is ready for the exchange of its messages, with the options that concern it.\<close>

definition plain :: "nat \<Rightarrow> 'w hw \<Rightarrow> bool" where
  "plain n s \<longleftrightarrow> test_mem_type s = MEM_HOST \<and> fail_mode s = FAILURE_MODE_NONE \<and> unat (hw_string_length s) = n"

definition ready :: "('w \<Rightarrow> link) \<Rightarrow> byte list \<Rightarrow> byte list \<Rightarrow> nat \<Rightarrow> 'w hw \<Rightarrow> bool" where
  "ready lib data bytes n s \<longleftrightarrow> plain n s \<and> wf_heap s \<and> ep_status s = UCS_OK \<and> at_rest lib s \<and>
     (\<exists>b. inbound (lib (world s)) = Some (data, b)) \<and> stream (lib (world s)) = bytes"

lemma plain_options: "hw_options t = hw_options s \<Longrightarrow> plain n s \<Longrightarrow> plain n t"
  by (simp add: plain_def hw_options_def)

lemma ready_calm: "calm lib xs s t \<Longrightarrow> ready lib data bytes n s \<Longrightarrow> ready lib data bytes n t"
  using calm_rest [of lib xs s t] plain_options [of t s n]
  by (auto simp: ready_def calm_def still_def wf_heap_def)

lemma ready_reaches:
  assumes "reaches (deaf lib) xs h s t" "stream (lib (world t)) = bytes'" "wf_heap t" "ready lib data bytes n s"
  shows "ready lib data bytes' n t"
proof -
  have "map_option fst (inbound (lib (world t))) = Some data" using assms(1,4) by (auto simp: ready_def reaches_def passes_def)
  then have "\<exists>b. inbound (lib (world t)) = Some (data, b)" by auto
  with assms plain_options [of t s n] show ?thesis by (simp add: ready_def reaches_def passes_def deaf_hush(3))
qed

text \<open>The end of a run over a connected socket: the barrier, and the socket is closed.\<close>

lemma run_connected_end:
  fixes s :: "'w hw"
  assumes E: "relays E lib" and N: "connects E lib"
    and run: "(if server_name \<noteq> None then run_ucx_client E wk addr p s else run_ucx_server E wk s) = Some (Some 0, s1)"
    and s1: "reaches (past lib) xs h s s1" and str: "stream (lib (world s)) = bytes" "length bytes = 4"
    and mode: "fail_mode s = FAILURE_MODE_NONE"
  shows "\<exists>t. run_connected E wk addr server_name fd p s = Some (Some 0, t) \<and> sees (xs @ [Wired [0, 0, 0, 0]]) s t \<and> heap t = h"
proof -
  have s1': "at_rest lib s1" "stream (lib (world s1)) = bytes @ []" "fail_mode s1 = FAILURE_MODE_NONE" "heap s1 = h"
    using s1 str mode by (simp_all add: reaches_def passes_def hw_options_def)
  obtain s2 where 2: "barrier E fd (hw_progress E wk) s1 = Some (0, s2)" "hush (deaf lib) [Wired [0, 0, 0, 0]] s1 s2"
    using barrier_carries [OF E N s1'(1,2) str(2)] by blast
  obtain r t where 3: "sock E (CloseFd fd) s2 = (r, t)" "calm lib [] s2 t"
    by (rule sock_calm [OF N, of "CloseFd fd" s2]) simp
  have "run_connected E wk addr server_name fd p s = Some (Some 0, t)"
    using run 2(1) 3(1) s1'(3) by (simp add: run_connected_def)
  moreover have "sees (xs @ [Wired [0, 0, 0, 0]]) s t"
    using sees_trans_Nil(2) [OF sees_trans [OF reaches_sees [OF s1] passes_sees [OF hush_passes [OF 2(2)]]] calm_sees [OF 3(2)]] .
  moreover have "heap t = h" using 2(2) 3(2) s1'(4) by (simp add: hush_def calm_def)
  ultimately show ?thesis by blast
qed

lemma run_worker_client_carries:
  fixes s :: "'w hw"
  assumes E: "relays E lib" and N: "connects E lib" and addr: "\<And>w. u_address E wk w = addr" "length addr < 2 ^ 31"
    and n: "0 < n" "n < 2 ^ 31" and peer: "length peer < 2 ^ 31" and bytes: "length bytes = 4"
    and s: "ready lib (string_message n) (le_bytes 8 (length peer) @ peer @ bytes) n s"
  shows "\<exists>t. run_worker E wk (Some server) s = Some (Some 0, t) \<and>
    sees [Dialled (map Some peer), Sent (map Some (address_message addr)), Printed (map letter [0..<n - 1]), Wired [0, 0, 0, 0]] s t"
proof -
  obtain s1 where 1: "call_status E (WorkerQuery wk) s = (UCS_OK, s1)" "calm lib [] s s1"
    by (rule call_status_calm [OF E, of "WorkerQuery wk" s]) simp
  note q1 = ready_calm [OF 1(2) s]
  then obtain fd p s2 where 2: "oob_client E server s1 = (Connected fd p, s2)"
    "reaches (deaf lib) [] ((heap s1)(p \<mapsto> map Some peer)) s1 s2" "stream (lib (world s2)) = bytes" "wf_heap s2" "p \<noteq> 0"
    using oob_client_carries [OF E N _ _ peer, of s1 bytes server] by (auto simp: ready_def)
  note q2 = ready_reaches [OF 2(2,3,4) q1]
  have h2: "block_bytes p s2 = map Some peer" "heap s2 p = Some (map Some peer)" using 2(2) by (simp_all add: reaches_def block_bytes_def)
  obtain s3 where 3: "run_ucx_client E wk addr p s2 = Some (Some 0, s3)"
    "reaches (past lib) [Dialled (map Some peer), Sent (map Some (address_message addr)), Printed (map letter [0..<n - 1])]
      (heap s2) s2 s3"
    using run_ucx_client_carries [OF E N, of s2 n addr _ wk p] q2 n addr(2) unfolding h2(1) ready_def plain_def by auto
  obtain s4 where 4: "run_connected E wk addr (Some server) fd p s2 = Some (Some 0, s4)"
    "sees ([Dialled (map Some peer), Sent (map Some (address_message addr)), Printed (map letter [0..<n - 1])] @ [Wired [0, 0, 0, 0]]) s2 s4"
    "heap s4 = heap s2"
    using run_connected_end [OF E N _ 3(2) 2(3) bytes, of "Some server" wk addr p] 3(1) q2 by (auto simp: ready_def plain_def)
  have "c_free p s4 = s4\<lparr>heap := (heap s4)(p := None)\<rparr>" using 2(5) 4(3) h2(2) by (simp add: c_free_def)
  then have "sees [] s4 (call_void E (ReleaseAddress wk) (c_free p s4))"
    using calm_sees [OF call_void_calm [OF E, of "c_free p s4"]] by (simp add: sees_def)
  with 4(2) have "sees ([Dialled (map Some peer), Sent (map Some (address_message addr)), Printed (map letter [0..<n - 1])] @ [Wired [0, 0, 0, 0]])
      s (call_void E (ReleaseAddress wk) (c_free p s4))"
    using calm_sees [OF 1(2)] reaches_sees [OF 2(2)] by (blast intro: sees_trans_Nil)
  with 1(1) 2(1) 4(1) addr(1) show ?thesis by (simp add: run_worker_def)
qed

lemma run_worker_server_carries:
  fixes s :: "'w hw"
  assumes E: "relays E lib" and N: "connects E lib" and addr: "\<And>w. u_address E wk w = addr" "length addr < 2 ^ 31"
    and n: "0 < n" "n < 2 ^ 31" and peer: "length peer < 2 ^ 31" and bytes: "length bytes = 4"
    and s: "ready lib (address_message peer) bytes n s"
  shows "\<exists>t. run_worker E wk None s = Some (Some 0, t) \<and>
    sees [Wired (le_bytes 8 (length addr)), Wired addr, Dialled (map Some peer), Sent (map Some (string_message n)), Wired [0, 0, 0, 0]] s t"
proof -
  obtain s1 where 1: "call_status E (WorkerQuery wk) s = (UCS_OK, s1)" "calm lib [] s s1"
    by (rule call_status_calm [OF E, of "WorkerQuery wk" s]) simp
  obtain fd s2 where 2: "oob_server E addr s1 = (Connected fd 0, s2)"
    "calm lib [Wired (le_bytes 8 (length addr)), Wired addr] s1 s2"
    using oob_server_carries [OF N addr(2)] by blast
  note c2 = calm_trans_Nil [OF 1(2) 2(2)]
  note q2 = ready_calm [OF c2 s]
  obtain h s3 where 3: "run_ucx_server E wk s2 = Some (Some 0, s3)"
    "reaches (past lib) [Dialled (map Some peer), Sent (map Some (string_message n))] h s2 s3"
    using run_ucx_server_carries [OF E, of s2 n peer _ wk] q2 n peer by (auto simp: ready_def plain_def)
  obtain s4 where 4: "run_connected E wk addr None fd 0 s2 = Some (Some 0, s4)"
    "sees ([Dialled (map Some peer), Sent (map Some (string_message n))] @ [Wired [0, 0, 0, 0]]) s2 s4"
    using run_connected_end [OF E N _ 3(2) _ bytes, of None wk addr 0] 3(1) q2 by (auto simp: ready_def plain_def)
  have "sees [] s4 (call_void E (ReleaseAddress wk) (c_free 0 s4))"
    using calm_sees [OF call_void_calm [OF E, of s4]] by (simp add: c_free_def)
  then have "sees ([Wired (le_bytes 8 (length addr)), Wired addr] @
      ([Dialled (map Some peer), Sent (map Some (string_message n))] @ [Wired [0, 0, 0, 0]]))
      s (call_void E (ReleaseAddress wk) (c_free 0 s4))"
    by (rule sees_trans_Nil(2) [OF sees_trans [OF calm_sees [OF c2] 4(2)]])
  with 1(1) 2(1) 4(1) addr(1) show ?thesis by (simp add: run_worker_def)
qed

lemma hw_main_carries:
  fixes s :: "'w hw"
  assumes E: "relays E lib" and parsed: "hw_parse_cmd E argv None s0 = (UCS_OK, server_name, s)"
    and run: "\<And>wk u. calm lib [] s u \<Longrightarrow> \<exists>t. run_worker E wk server_name u = Some (Some 0, t) \<and> sees xs u t"
  shows "\<exists>t. hw_main E argv s0 = Some (Some 0, t) \<and> sees xs s t"
proof -
  obtain s1 where 1: "call_status E ConfigRead s = (UCS_OK, s1)" "calm lib [] s s1"
    by (rule call_status_calm [OF E, of ConfigRead s]) simp
  let ?f = "FEATURE_TAG # (if ucp_test_mode s1 = TEST_MODE_WAIT \<or> ucp_test_mode s1 = TEST_MODE_EVENTFD then [FEATURE_WAKEUP] else [])"
  obtain ctx s2 where 2: "call_create E (UcpInit ?f) s1 = ((UCS_OK, ctx), s2)" "calm lib [] s1 s2"
    by (rule call_create_calm [OF E, of "UcpInit ?f" s1]) simp
  obtain wk s3 where 3: "call_create E (WorkerCreate ctx) (call_void E ConfigRelease s2) = ((UCS_OK, wk), s3)"
    "calm lib [] (call_void E ConfigRelease s2) s3"
    by (rule call_create_calm [OF E, of "WorkerCreate ctx" "call_void E ConfigRelease s2"]) simp
  have c3: "calm lib [] s s3"
    by (rule calm_trans_Nil [OF calm_trans_Nil [OF 1(2) 2(2)] calm_trans_Nil [OF call_void_calm [OF E] 3(2)]])
  obtain s4 where 4: "run_worker E wk server_name s3 = Some (Some 0, s4)" "sees xs s3 s4" using run [OF c3] by blast
  let ?t = "call_void E (UcpCleanup ctx) (call_void E (WorkerDestroy wk) s4)"
  have "calm lib [] s4 ?t" by (rule calm_trans_Nil [OF call_void_calm [OF E] call_void_calm [OF E]])
  with 4(2) have "sees xs s3 ?t" by (rule sees_trans_Nil(2) [OF _ calm_sees])
  with calm_sees [OF c3] have "sees xs s ?t" by (rule sees_trans_Nil(1))
  moreover have "hw_main E argv s0 = Some (Some 0, ?t)"
    using parsed 1(1) 2(1) 3(1) 4(1) by (auto simp: hw_main_def Let_def)
  ultimately show ?thesis by blast
qed

section \<open>Properties\<close>

text \<open>
  What the world holds for a program when it starts: no operation is under way, \<open>data\<close> is the message
  it is going to receive, and \<open>bytes\<close> are those its peer sends on the socket.
\<close>

definition expects :: "('w \<Rightarrow> link) \<Rightarrow> 'w \<Rightarrow> byte list \<Rightarrow> byte list \<Rightarrow> bool" where
  "expects lib w data bytes \<longleftrightarrow>
     under_way (lib w) = None \<and> (\<exists>b. inbound (lib w) = Some (data, b)) \<and> stream (lib w) = bytes"

lemma parsed_ready:
  assumes "hw_parse_cmd E argv None (hw_init w) = (st, sn, s)" "plain n s" "expects lib w data bytes"
  shows "ready lib data bytes n s" "trace s = []" "faults s = []"
  using hw_parse_cmd_process [OF assms(1)] assms(2,3) hw_init_state(1) [of w]
  by (auto simp: ready_def expects_def at_rest_def completed_def wf_heap_def hw_init_def)

text \<open>
  C6: The two programs from their command lines to their ends. Let the library of each side have memory,
  complete every operation at once or after some progress calls, and deliver the message of the
  peer at any time; let the network connect, carry the bytes of the peer in order, and answer polls
  sooner or later. Then a client and a server that are started with the same length of the test
  string, in any of the three ways of waiting and with no failure asked for, both return 0; each
  side sends, on the socket and to its endpoint, exactly what the other side was going to receive:
  the server the length of its address, its address, the test string and the barrier's bytes, the
  client its address and the barrier's bytes; each creates its endpoint for the address of the
  other, and before it sends to it; the client prints the test string without its NUL; and neither
  touches memory it does not own.
\<close>

theorem hello_world_programs_meet:
  fixes Ec :: "('w, hw_upcall, 'e) hw_env_scheme" and Es :: "('v, hw_upcall, 'f) hw_env_scheme"
  assumes client: "relays Ec lc" "connects Ec lc" "\<And>wk w. u_address Ec wk w = client_addr" "length client_addr < 2 ^ 31"
    and server: "relays Es ls" "connects Es ls" "\<And>wk w. u_address Es wk w = server_addr" "length server_addr < 2 ^ 31"
    and parsed: "hw_parse_cmd Ec argvc None (hw_init wc) = (UCS_OK, Some host, c)"
      "hw_parse_cmd Es argvs None (hw_init ws) = (UCS_OK, None, s)"
    and options: "plain n c" "plain n s" "0 < n" "n < 2 ^ 31"
    and inputs: "expects lc wc (string_message n) (le_bytes 8 (length server_addr) @ server_addr @ [0, 0, 0, 0])"
      "expects ls ws (address_message client_addr) [0, 0, 0, 0]"
  shows "\<exists>c' s'. hw_main Ec argvc (hw_init wc) = Some (Some 0, c') \<and> hw_main Es argvs (hw_init ws) = Some (Some 0, s') \<and>
    visible (trace c') = [Dialled (map Some server_addr), Sent (map Some (address_message client_addr)),
      Printed (map letter [0..<n - 1]), Wired [0, 0, 0, 0]] \<and>
    visible (trace s') = [Wired (le_bytes 8 (length server_addr)), Wired server_addr, Dialled (map Some client_addr),
      Sent (map Some (string_message n)), Wired [0, 0, 0, 0]] \<and>
    faults c' = [] \<and> faults s' = []"
proof -
  note c = parsed_ready [OF parsed(1) options(1) inputs(1)] and s = parsed_ready [OF parsed(2) options(2) inputs(2)]
  let ?cs = "[Dialled (map Some server_addr), Sent (map Some (address_message client_addr)), Printed (map letter [0..<n - 1]),
    Wired [0, 0, 0, 0]]"
  let ?ss = "[Wired (le_bytes 8 (length server_addr)), Wired server_addr, Dialled (map Some client_addr),
    Sent (map Some (string_message n)), Wired [0, 0, 0, 0]]"
  have "\<exists>t. run_worker Ec wk (Some host) u = Some (Some 0, t) \<and> sees ?cs u t" if "calm lc [] c u" for wk u
    by (rule run_worker_client_carries [OF client options(3,4) server(4) _ ready_calm [OF that c(1)]]) simp
  then obtain c' where c': "hw_main Ec argvc (hw_init wc) = Some (Some 0, c')" "sees ?cs c c'"
    using hw_main_carries [OF client(1) parsed(1)] by blast
  have "\<exists>t. run_worker Es wk None u = Some (Some 0, t) \<and> sees ?ss u t" if "calm ls [] s u" for wk u
    by (rule run_worker_server_carries [OF server options(3,4) client(4) _ ready_calm [OF that s(1)]]) simp
  then obtain s' where s': "hw_main Es argvs (hw_init ws) = Some (Some 0, s')" "sees ?ss s s'"
    using hw_main_carries [OF server(1) parsed(2)] by blast
  from c' s' c(2,3) s(2,3) show ?thesis by (simp add: sees_def)
qed

text \<open>
  A library that finishes a receive with \<open>NO_IMM_CMPL\<close> before it returns, and every other operation in
  the next progress call, in which the message arrives too; and a network that answers at once. Its
  world is what it has to do.
\<close>

definition calls_early :: "ucx_call \<Rightarrow> bool" where
  "calls_early c \<longleftrightarrow> NO_IMM_CMPL \<in> set (flags_of c) \<and> ended_by c 5 \<noteq> []"

definition meeting_env :: "byte list \<Rightarrow> (link, hw_upcall) hw_env" where
  "meeting_env addr = net_env.extend
     (env.extend
        (obliging_env
           \<lparr>u_post := (\<lambda>c bs w. ((ReqPtr 5, []), w\<lparr>under_way :=
              if calls_early c then None else Some (5, map HwWrite (written w c) @ ended_by c 5)\<rparr>)),
            u_early := (\<lambda>c q w. if calls_early c then map HwWrite (written w c) @ ended_by c q else []),
            u_progress := (\<lambda>wk w. ((1, case under_way w of None \<Rightarrow> [] | Some (q, us) \<Rightarrow> us),
              w\<lparr>under_way := None, inbound := map_option (\<lambda>(data, _). (data, True)) (inbound w)\<rparr>)),
            u_check := (\<lambda>q w. case under_way w of
                          None \<Rightarrow> UCS_OK | Some (q', _) \<Rightarrow> if q' = q then UCS_INPROGRESS else UCS_OK)\<rparr>)
        \<lparr>n_addrinfo = (\<lambda>server service af w. ((0, [AF_INET]), w)),
         n_call = (\<lambda>c w. (case c of SendBytes fd bs \<Rightarrow> int (length bs) | PollIn fd \<Rightarrow> 1 | Socket af \<Rightarrow> 3 | _ \<Rightarrow> 0, w)),
         n_recv = (\<lambda>fd k w. ((uint k, take (unat k) (stream w)), w\<lparr>stream := drop (unat k) (stream w)\<rparr>))\<rparr>)
     \<lparr>u_address = (\<lambda>wk w. addr),
      u_probe = (\<lambda>wk w. case inbound w of
                   Some (data, True) \<Rightarrow> (Some (6, of_nat (length data)), w\<lparr>inbound := None, matched := Some (6, data)\<rparr>)
                 | _ \<Rightarrow> (None, w)),
      errno_eintr = (\<lambda>w. False)\<rparr>"

lemma meeting_env_simps:
  "alloc_ok (meeting_env addr) n w = (True, w)" "u_void (meeting_env addr) c w = w"
  "u_status (meeting_env addr) c w = (UCS_OK, w)" "u_create (meeting_env addr) c w = ((UCS_OK, 1), w)"
  "u_post (meeting_env addr) c bs w = ((ReqPtr 5, []), w\<lparr>under_way :=
     if calls_early c then None else Some (5, map HwWrite (written w c) @ ended_by c 5)\<rparr>)"
  "u_early (meeting_env addr) c q w = (if calls_early c then map HwWrite (written w c) @ ended_by c q else [])"
  "u_progress (meeting_env addr) wk w = ((1, case under_way w of None \<Rightarrow> [] | Some (q, us) \<Rightarrow> us),
     w\<lparr>under_way := None, inbound := map_option (\<lambda>(data, _). (data, True)) (inbound w)\<rparr>)"
  "u_check (meeting_env addr) q w = (case under_way w of
     None \<Rightarrow> UCS_OK | Some (q', _) \<Rightarrow> if q' = q then UCS_INPROGRESS else UCS_OK)"
  "n_addrinfo (meeting_env addr) server service af w = ((0, [AF_INET]), w)"
  "n_call (meeting_env addr) d w = (case d of SendBytes fd bs \<Rightarrow> int (length bs) | PollIn fd \<Rightarrow> 1 | Socket af \<Rightarrow> 3 | _ \<Rightarrow> 0, w)"
  "n_recv (meeting_env addr) fd k w = ((uint k, take (unat k) (stream w)), w\<lparr>stream := drop (unat k) (stream w)\<rparr>)"
  "u_address (meeting_env addr) wk w = addr" "errno_eintr (meeting_env addr) w = False"
  "u_probe (meeting_env addr) wk w = (case inbound w of
     Some (data, True) \<Rightarrow> (Some (6, of_nat (length data)), w\<lparr>inbound := None, matched := Some (6, data)\<rparr>)
   | _ \<Rightarrow> (None, w))"
  by (simp_all add: meeting_env_def env.defs net_env.defs obliging_env_def)

text \<open>The progress calls it still needs.\<close>

definition counted :: "link \<Rightarrow> link" where
  "counted w = w\<lparr>patience := (case under_way w of None \<Rightarrow> 0 | Some _ \<Rightarrow> 1) +
     (case inbound w of Some (data, False) \<Rightarrow> 1 | _ \<Rightarrow> 0)\<rparr>"

lemma counted_simps [simp]:
  "under_way (counted w) = under_way w" "inbound (counted w) = inbound w" "matched (counted w) = matched w"
  "stream (counted w) = stream w"
  "patience (counted w) = (case under_way w of None \<Rightarrow> 0 | Some _ \<Rightarrow> 1) +
     (case inbound w of Some (data, False) \<Rightarrow> 1 | _ \<Rightarrow> 0)"
  "written (counted w) c = written w c" "written (w\<lparr>under_way := u\<rparr>) c = written w c"
proof -
  show "written (counted w) c = written w c" "written (w\<lparr>under_way := u\<rparr>) c = written w c"
    by (cases "(w, c)" rule: written.cases, simp_all add: counted_def)+
qed (simp_all add: counted_def)

lemma meeting_env_contracts:
  "relays (meeting_env addr) counted" "connects (meeting_env addr) counted"
proof -
  let ?E = "meeting_env addr"
  have prog: "advances (counted w) (snd (fst (u_progress ?E wk w))) (counted (snd (u_progress ?E wk w)))" for wk w
    by (auto simp: meeting_env_simps advances_def due_def split: option.split bool.split)
  have probe: "case u_probe ?E wk w of
        (None, w') \<Rightarrow> (\<forall>data. inbound (counted w) \<noteq> Some (data, True)) \<and> still (counted w) (counted w')
      | (Some (h, len), w') \<Rightarrow> (\<exists>data. inbound (counted w) = Some (data, True) \<and> len = of_nat (length data) \<and>
           counted w' = (counted w)\<lparr>inbound := None, matched := Some (h, data)\<rparr>)" for wk w
    by (auto simp: meeting_env_simps counted_def still_def split: option.split bool.split)
  have check: "u_check ?E q w = (if \<exists>us. under_way (counted w) = Some (q, us) then UCS_INPROGRESS else UCS_OK)" for q w
    by (auto simp: meeting_env_simps split: option.split)
  have post: "case u_post ?E c bs w of (r, w') \<Rightarrow> posts (counted w) c r (\<lambda>q. u_early ?E c q w') (counted w')" for c bs w
    by (auto simp: meeting_env_simps posts_def calls_early_def)
  show "relays ?E counted"
    unfolding relays_def using prog probe check post by (simp add: meeting_env_simps(1-4))
  have call: "case n_call ?E c w of (r, w') \<Rightarrow> succeeds c r \<and> still (counted w) (counted w') \<and>
      (keeps_waiting ?E c r w' \<longrightarrow> patience (counted w') < patience (counted w))" for c w
    by (cases c) (simp_all add: meeting_env_simps)
  show "connects ?E counted"
    unfolding connects_def using call by (simp add: meeting_env_simps(9,11) still_def)
qed

definition meeting_world :: "byte list \<Rightarrow> byte list \<Rightarrow> link" where
  "meeting_world data bytes = \<lparr>under_way = None, inbound = Some (data, False), matched = None, stream = bytes, patience = 0\<rparr>"

lemma meeting_expects: "expects counted (meeting_world data bytes) data bytes"
  by (auto simp: expects_def meeting_world_def intro: exI [of _ False])

text \<open>The client waits on the event descriptor, the server polls.\<close>

theorem hello_world_programs_meet_witness:
  "\<exists>c s. hw_main (meeting_env [7]) [''-n'', ''host'', ''-f'', ''-s'', ''3'']
           (hw_init (meeting_world (string_message 3) (le_bytes 8 2 @ [8, 9] @ [0, 0, 0, 0]))) = Some (Some 0, c) \<and>
         hw_main (meeting_env [8, 9]) [''-s3''] (hw_init (meeting_world (address_message [7]) [0, 0, 0, 0])) = Some (Some 0, s) \<and>
         visible (trace c) = [Dialled [Some 8, Some 9], Sent (map Some (le_bytes 8 1 @ [7])), Printed [65, 66], Wired [0, 0, 0, 0]] \<and>
         visible (trace s) = [Wired (le_bytes 8 2), Wired [8, 9], Dialled [Some 7], Sent (map Some (le_bytes 8 3 @ [65, 66, 0])),
           Wired [0, 0, 0, 0]] \<and> faults c = [] \<and> faults s = []"
proof -
  let ?wc = "meeting_world (string_message 3) (le_bytes 8 (length [8, 9 :: byte]) @ [8, 9] @ [0, 0, 0, 0])"
  let ?ws = "meeting_world (address_message [7]) [0, 0, 0, 0]"
  let ?c = "hw_init ?wc\<lparr>ucp_test_mode := TEST_MODE_EVENTFD, hw_string_length := 3\<rparr>" and ?s = "hw_init ?ws\<lparr>hw_string_length := 3\<rparr>"
  have pc: "hw_parse_cmd (meeting_env [7]) [''-n'', ''host'', ''-f'', ''-s'', ''3''] None (hw_init ?wc) = (UCS_OK, Some ''host'', ?c)"
    by (simp add: run_simps cong: run_congs)
  have ps: "hw_parse_cmd (meeting_env [8, 9]) [''-s3''] None (hw_init ?ws) = (UCS_OK, None, ?s)"
    by (simp add: run_simps cong: run_congs)
  have m: "address_message [7] = le_bytes 8 1 @ [7]" "string_message 3 = le_bytes 8 3 @ [65, 66, 0]"
    by (simp_all add: address_message_def string_message_def test_string_def letter_def upt_rec)
  have l: "map letter [0..<3 - 1] = [65, 66]" "map Some [7 :: byte] = [Some 7]" "map Some [8, 9 :: byte] = [Some 8, Some 9]"
    "length [8, 9 :: byte] = 2"
    by (simp_all add: letter_def upt_rec)
  have "\<exists>c' s'. hw_main (meeting_env [7]) [''-n'', ''host'', ''-f'', ''-s'', ''3''] (hw_init ?wc) = Some (Some 0, c') \<and>
    hw_main (meeting_env [8, 9]) [''-s3''] (hw_init ?ws) = Some (Some 0, s') \<and>
    visible (trace c') = [Dialled (map Some [8, 9]), Sent (map Some (address_message [7])),
      Printed (map letter [0..<3 - 1]), Wired [0, 0, 0, 0]] \<and>
    visible (trace s') = [Wired (le_bytes 8 (length [8, 9 :: byte])), Wired [8, 9], Dialled (map Some [7]),
      Sent (map Some (string_message 3)), Wired [0, 0, 0, 0]] \<and> faults c' = [] \<and> faults s' = []"
    by (rule hello_world_programs_meet [OF meeting_env_contracts(1,2) _ _ meeting_env_contracts(1,2) _ _ pc ps])
      (simp_all add: meeting_env_simps(12) plain_def hw_init_def meeting_expects)
  then show ?thesis unfolding m l .
qed

section \<open>The two messages\<close>

text \<open>What a trace shows of the message that is sent first.\<close>

lemma posted_bytes:
  assumes "prefix (tr @ [EvPost c bs r]) us" "prefix (tr @ [EvPost c' (map Some data) r']) us" "bs = map Some xs"
  shows "data = xs"
proof -
  from assms(1,2) have "map Some data = bs" by (auto simp: prefix_def simp del: map_append)
  with assms(3) show ?thesis by (metis map_injective inj_Some)
qed

text \<open>
  C23: The client's address reaches the server: from the bytes of the message that a client of
  \<open>ucp_hello_world\<close> sends first, whatever its library answers, a server to which the library has
  matched these bytes stores exactly the client's address, in a block of its own, and reads and
  writes no byte outside the message and that block, whether its receive is complete before the call
  returns or in a later progress call.
\<close>

theorem hello_world_address_round_trip:
  fixes c :: "'w hw" and s :: "'v hw"
  assumes client: "\<And>k w. fst (alloc_ok Ec k w)" "wf_heap c"
    and sent: "send_address Ec wkc ep addr c = Some (st, c')"
      "prefix (trace c @ [EvPost (TagSend ep msg tag None) (map Some data) r]) (trace c')"
    and server: "relays Es lib" "at_rest lib s" "wf_heap s" "fail_mode s \<noteq> FAILURE_MODE_SEND"
    and delivered: "matched (lib (world s)) = Some (m, data)"
    and short: "length addr < 2 ^ 32"
  shows "\<exists>p s'. receive_address Es wks m (of_nat (length data)) s = Some (Address p, s') \<and>
    heap s p = None \<and> heap s' = (heap s)(p \<mapsto> map Some addr) \<and> faults s' = faults s"
proof -
  from send_address_posts [OF client short sent(1)] obtain r' where
    "prefix (trace c @ [EvPost (TagSend ep (Contig (brk c) (of_nat (8 + length addr))) tag None)
      (map Some (address_message addr)) r']) (trace c')" by (auto simp: address_message_def)
  from posted_bytes [OF this sent(2) refl] have d: "data = address_message addr" .
  from receive_address_carries [OF server(1-3) short delivered [unfolded d] server(4), of wks] show ?thesis
    unfolding d by (auto simp: reaches_def passes_def)
qed

theorem hello_world_address_round_trip_witness:
  "\<exists>p s'. receive_address (meeting_env []) 1 6 10
       (hw_init \<lparr>under_way = None, inbound = None, matched = Some (6, le_bytes 8 2 @ [7, 9]), stream = [], patience = 0\<rparr>) =
       Some (Address p, s') \<and> heap s' p = Some [Some 7, Some 9]"
proof -
  let ?E = "hw_obliging [] 0 []" and ?c = "hw_init (0 :: nat)"
  let ?s = "hw_init \<lparr>under_way = None, inbound = None, matched = Some (6, le_bytes 8 2 @ [7, 9]), stream = [], patience = 0\<rparr>"
  have "map_option fst (send_address ?E 1 2 [7, 9] ?c) = Some (Some UCS_OK)"
    by (simp add: run_simps cong: run_congs)
  from map_fst_Some [OF this] obtain c' where c: "send_address ?E 1 2 [7, 9] ?c = Some (Some UCS_OK, c')" ..
  obtain r where "prefix (trace ?c @ [EvPost (TagSend 2 (Contig (brk ?c) (of_nat (8 + length [7, 9 :: byte]))) tag None)
      (map Some (le_bytes 8 (length [7, 9 :: byte]) @ [7, 9])) r]) (trace c')"
    using send_address_posts [OF _ _ _ c] by auto
  then have p: "prefix (trace ?c @ [EvPost (TagSend 2 (Contig (brk ?c) (of_nat (8 + length [7, 9 :: byte]))) tag None)
      (map Some (le_bytes 8 2 @ [7, 9])) r]) (trace c')" by (simp add: numeral_2_eq_2)
  have "at_rest counted ?s" by (simp add: at_rest_def completed_def hw_init_def)
  from hello_world_address_round_trip [OF _ _ c p meeting_env_contracts(1) [of "[]"] this, where m = 6 and wks = 1]
  show ?thesis by (auto simp: hw_init_def wf_heap_def)
qed



end
