(* ===== verification/Co_Event.thy ===== *)
theory Co_Event
  imports Prelude
begin

text \<open>
  The events of the C++ coroutine layer: \<open>src/async/auto_reset_event.hpp\<close>,
  \<open>src/async/single_use_event.hpp\<close> and \<open>src/async/ucp_task.hpp\<close>.

  A suspended coroutine is a number, its handle; resuming it is a function \<open>resume\<close> of the handle
  on a state of any type, in which the event is one component, read by \<open>get\<close> and changed by \<open>upd\<close>.
  \<open>resume\<close> runs the coroutine until it suspends again or ends, so whatever it does to the event
  happens inside the call, as in the code.
\<close>

section \<open>auto\_reset\_event\<close>

record 't auto_reset_event =
  ev_signaled :: bool
  ev_data :: "'t option"
  ev_waiter :: "nat option"

definition new_event :: "'t auto_reset_event" where
  "new_event = \<lparr>ev_signaled = False, ev_data = None, ev_waiter = None\<rparr>"

definition set_or :: "(nat \<Rightarrow> 's \<Rightarrow> 's) \<Rightarrow> ('s \<Rightarrow> 't auto_reset_event) \<Rightarrow>
    (('t auto_reset_event \<Rightarrow> 't auto_reset_event) \<Rightarrow> 's \<Rightarrow> 's) \<Rightarrow>
    't \<Rightarrow> ('t \<Rightarrow> 's \<Rightarrow> 's) option \<Rightarrow> 's \<Rightarrow> 's" where
  "set_or resume get upd d full_callback s =
     (if ev_signaled (get s)
      then (case full_callback of None \<Rightarrow> s | Some callback \<Rightarrow> callback d s)
      else
        let s = upd (\<lambda>e. e\<lparr>ev_data := Some d, ev_signaled := True\<rparr>) s
        in case ev_waiter (get s) of
             None \<Rightarrow> s
           | Some h \<Rightarrow> upd (\<lambda>e. e\<lparr>ev_waiter := None, ev_signaled := False\<rparr>) (resume h s))"

definition event_reset :: "'t auto_reset_event \<Rightarrow> 't auto_reset_event" where
  "event_reset e = e\<lparr>ev_signaled := False\<rparr>"

definition await_ready :: "'t auto_reset_event \<Rightarrow> bool" where
  "await_ready e = ev_signaled e"

text \<open>The result says whether the coroutine stays suspended.\<close>

definition await_suspend :: "nat \<Rightarrow> 't auto_reset_event \<Rightarrow> bool \<times> 't auto_reset_event" where
  "await_suspend awaiter e =
     (if \<not> ev_signaled e then (True, e\<lparr>ev_waiter := Some awaiter\<rparr>) else (\<not> ev_signaled e, e))"

text \<open>\<open>data.value()\<close>: nothing when there is no value, where the code ends the process.\<close>

definition await_resume :: "'t auto_reset_event \<Rightarrow> 't option" where
  "await_resume e = ev_data e"

text \<open>\<open>co_await\<close> of a coroutine \<open>h\<close>: suspended, or going on at once with the value.\<close>

definition co_await :: "nat \<Rightarrow> 't auto_reset_event \<Rightarrow> bool \<times> 't auto_reset_event" where
  "co_await h e = (if await_ready e then (False, e) else await_suspend h e)"

section \<open>The event and one coroutine that awaits it\<close>

text \<open>
  The smallest system with the event in it: the values the coroutine got and those that were
  refused. A resumed coroutine takes the value and suspends elsewhere; it awaits the event again
  later, as an operation of its own.
\<close>

record 't event_system =
  sys_event :: "'t auto_reset_event"
  sys_got :: "'t list"
  sys_refused :: "'t list"

definition sys_init :: "'t event_system" where
  "sys_init = \<lparr>sys_event = new_event, sys_got = [], sys_refused = []\<rparr>"

definition take_value :: "'t event_system \<Rightarrow> 't event_system" where
  "take_value s = s\<lparr>sys_got := sys_got s @ (case await_resume (sys_event s) of None \<Rightarrow> [] | Some d \<Rightarrow> [d])\<rparr>"

definition sys_set :: "'t \<Rightarrow> 't event_system \<Rightarrow> 't event_system" where
  "sys_set d s = set_or (\<lambda>h. take_value) sys_event (\<lambda>f s. s\<lparr>sys_event := f (sys_event s)\<rparr>) d
     (Some (\<lambda>d s. s\<lparr>sys_refused := sys_refused s @ [d]\<rparr>)) s"

definition sys_await :: "nat \<Rightarrow> 't event_system \<Rightarrow> 't event_system" where
  "sys_await h s =
     (let (suspended, e) = co_await h (sys_event s); s = s\<lparr>sys_event := e\<rparr>
      in if suspended then s else take_value s)"

inductive sys_step :: "'t event_system \<Rightarrow> 't event_system \<Rightarrow> bool" where
  setting: "sys_step s (sys_set d s)"
| awaiting: "ev_waiter (sys_event s) = None \<Longrightarrow> sys_step s (sys_await h s)"

inductive_cases sys_stepE: "sys_step s t"

inductive sys_steps :: "'t event_system \<Rightarrow> 't event_system \<Rightarrow> bool" where
  none: "sys_steps s s"
| more: "sys_steps s t \<Longrightarrow> sys_step t u \<Longrightarrow> sys_steps s u"

lemmas event_defs = set_or_def await_ready_def await_suspend_def await_resume_def co_await_def

lemma sys_set_simps:
  "ev_signaled (sys_event s) \<Longrightarrow> sys_set d s = s\<lparr>sys_refused := sys_refused s @ [d]\<rparr>"
  "\<not> ev_signaled (sys_event s) \<Longrightarrow> ev_waiter (sys_event s) = None \<Longrightarrow>
     sys_set d s = s\<lparr>sys_event := \<lparr>ev_signaled = True, ev_data = Some d, ev_waiter = None\<rparr>\<rparr>"
  "\<not> ev_signaled (sys_event s) \<Longrightarrow> ev_waiter (sys_event s) = Some h \<Longrightarrow>
     sys_set d s = s\<lparr>sys_event := \<lparr>ev_signaled = False, ev_data = Some d, ev_waiter = None\<rparr>,
                     sys_got := sys_got s @ [d]\<rparr>"
  by (simp_all add: sys_set_def event_defs Let_def take_value_def)

lemma sys_await_simps:
  "ev_signaled (sys_event s) \<Longrightarrow> ev_data (sys_event s) = Some d \<Longrightarrow>
     sys_await h s = s\<lparr>sys_got := sys_got s @ [d]\<rparr>"
  "\<not> ev_signaled (sys_event s) \<Longrightarrow> sys_await h s = s\<lparr>sys_event := (sys_event s)\<lparr>ev_waiter := Some h\<rparr>\<rparr>"
  by (simp_all add: sys_await_def event_defs take_value_def)

text \<open>A signaled event has a value, and nobody waits for it.\<close>

definition event_ok :: "'t auto_reset_event \<Rightarrow> bool" where
  "event_ok e \<longleftrightarrow> (ev_signaled e \<longrightarrow> ev_data e \<noteq> None \<and> ev_waiter e = None)"

lemma sys_step_ok: "sys_step s t \<Longrightarrow> event_ok (sys_event s) \<Longrightarrow> event_ok (sys_event t)"
proof (cases rule: sys_step.cases, assumption)
  fix d assume "t = sys_set d s" and ok: "event_ok (sys_event s)"
  then show ?thesis
    by (cases "ev_signaled (sys_event s)"; cases "ev_waiter (sys_event s)")
      (simp_all add: event_ok_def sys_set_simps)
next
  fix h assume "t = sys_await h s" and ok: "event_ok (sys_event s)"
  then show ?thesis
    by (cases "ev_signaled (sys_event s)") (auto simp: event_ok_def sys_await_simps)
qed

lemma sys_steps_ok: "sys_steps s t \<Longrightarrow> event_ok (sys_event s) \<Longrightarrow> event_ok (sys_event t)"
  by (induction rule: sys_steps.induct) (auto intro: sys_step_ok)

text \<open>A coroutine that awaits the event in a loop never gives control back once it is signaled.\<close>

lemma awaiting_in_a_loop_never_suspends:
  assumes "ev_signaled e"
  shows "loop (\<lambda>e. let (suspended, e) = co_await h e in Some (if suspended then Inr e else Inl e)) e = None"
proof (rule ccontr)
  let ?b = "\<lambda>e. let (suspended, e) = co_await h e in Some (if suspended then Inr e else Inl e)"
  assume "loop ?b e \<noteq> None"
  then obtain r where "loop ?b e = Some r" by blast
  then have False
    by (rule loop_rule [where P = ev_signaled and Q = "\<lambda>_. False"])
      (use assms in \<open>auto simp: co_await_def await_ready_def\<close>)
  then show False .
qed

text \<open>With an await before every set, every value arrives, in order, and none is refused.\<close>

lemma delivered_in_turn:
  assumes "\<not> ev_signaled (sys_event s)" "ev_waiter (sys_event s) = None"
  shows "sys_got (fold (\<lambda>d s. sys_set d (sys_await h s)) ds s) = sys_got s @ ds \<and>
    sys_refused (fold (\<lambda>d s. sys_set d (sys_await h s)) ds s) = sys_refused s"
  using assms
proof (induction ds arbitrary: s)
  case (Cons d ds)
  have s: "sys_set d (sys_await h s) = s\<lparr>sys_event := \<lparr>ev_signaled = False, ev_data = Some d, ev_waiter = None\<rparr>,
      sys_got := sys_got s @ [d]\<rparr>"
    using Cons.prems by (simp add: sys_await_simps sys_set_simps)
  show ?case using Cons.IH [of "sys_set d (sys_await h s)"] by (simp add: s)
qed simp

section \<open>What an auto-reset event promises\<close>

text \<open>
  A place for one value. Setting hands the value to a waiting coroutine, or keeps it; awaiting
  takes the value that is kept and so empties the place.
\<close>

datatype 't place = Idle | Waiting | Kept 't

fun place_set :: "'t \<Rightarrow> 't place \<Rightarrow> 't place" where
  "place_set d Idle = Kept d"
| "place_set d Waiting = Idle"
| "place_set d (Kept d') = Kept d'"

fun place_await :: "'t place \<Rightarrow> 't place" where
  "place_await Idle = Waiting"
| "place_await Waiting = Waiting"
| "place_await (Kept d) = Idle"

definition place_of :: "'t auto_reset_event \<Rightarrow> 't place" where
  "place_of e =
     (if ev_signaled e then (case ev_data e of None \<Rightarrow> Idle | Some d \<Rightarrow> Kept d)
      else if ev_waiter e \<noteq> None then Waiting else Idle)"

section \<open>single\_use\_event and ucp\_task\<close>

text \<open>The same fields; \<open>set\<close> has no test and forgets nothing.\<close>

definition single_use_set :: "(nat \<Rightarrow> 's \<Rightarrow> 's) \<Rightarrow> ('s \<Rightarrow> 't auto_reset_event) \<Rightarrow>
    (('t auto_reset_event \<Rightarrow> 't auto_reset_event) \<Rightarrow> 's \<Rightarrow> 's) \<Rightarrow> 't \<Rightarrow> 's \<Rightarrow> 's" where
  "single_use_set resume get upd d s =
     (let s = upd (\<lambda>e. e\<lparr>ev_data := Some d, ev_signaled := True\<rparr>) s
      in case ev_waiter (get s) of None \<Rightarrow> s | Some h \<Rightarrow> resume h s)"

definition single_use_await :: "nat \<Rightarrow> 't auto_reset_event \<Rightarrow> bool \<times> 't auto_reset_event" where
  "single_use_await h e =
     (if ev_signaled e then (False, e)
      else if \<not> ev_signaled e then (True, e\<lparr>ev_waiter := Some h\<rparr>) else (\<not> ev_signaled e, e))"

record 't ucp_task =
  task_handle :: "nat option"
  task_result :: "'t option"

definition register_callback :: "(nat \<Rightarrow> 's \<Rightarrow> 's) \<Rightarrow> ('s \<Rightarrow> 't ucp_task) \<Rightarrow>
    (('t ucp_task \<Rightarrow> 't ucp_task) \<Rightarrow> 's \<Rightarrow> 's) \<Rightarrow> 't \<Rightarrow> 's \<Rightarrow> 's" where
  "register_callback resume get upd user_data s =
     (let s = upd (\<lambda>k. k\<lparr>task_result := Some user_data\<rparr>) s
      in case task_handle (get s) of None \<Rightarrow> s | Some h \<Rightarrow> resume h s)"

definition task_await :: "nat \<Rightarrow> 't ucp_task \<Rightarrow> bool \<times> 't ucp_task" where
  "task_await h k = (if task_result k \<noteq> None then (False, k) else (True, k\<lparr>task_handle := Some h\<rparr>))"

section \<open>Properties\<close>

text \<open>
  C31: The event implements the auto-reset event (a place for one value) in every step but one:
  setting it always does what it should, awaiting it does unless a value is kept. A coroutine that
  awaits a kept value gets it, but the place is not emptied.
\<close>

theorem event_is_auto_reset_unless_value_was_kept:
  assumes "event_ok (sys_event s)"
  shows "place_of (sys_event (sys_set d s)) = place_set d (place_of (sys_event s)) \<and>
    (place_of (sys_event (sys_await h s)) = place_await (place_of (sys_event s)) \<longleftrightarrow>
       \<not> ev_signaled (sys_event s))"
  using assms
  by (cases "ev_signaled (sys_event s)"; cases "ev_waiter (sys_event s)")
    (auto simp: event_ok_def place_of_def sys_set_simps sys_await_simps)

theorem event_is_auto_reset_unless_value_was_kept_witness:
  "place_of (sys_event (sys_await 7 (sys_set (5::nat) sys_init))) \<noteq>
   place_await (place_of (sys_event (sys_set (5::nat) sys_init)))"
proof -
  let ?s = "sys_set (5::nat) sys_init"
  have "event_ok (sys_event ?s)" "ev_signaled (sys_event ?s)"
    by (simp_all add: sys_set_simps sys_init_def new_event_def event_ok_def)
  with event_is_auto_reset_unless_value_was_kept [of ?s 5 7] show ?thesis by simp
qed

text \<open>
  C32: An event that was set while nobody awaited it is stuck: whatever is set and awaited from then
  on, in whatever order, it never changes again. Every await gets the first value once more, and
  every later value is refused.
\<close>

theorem event_set_without_waiter_is_stuck:
  assumes "sys_steps s t" and "ev_signaled (sys_event s)" "ev_data (sys_event s) = Some d"
    and "ev_waiter (sys_event s) = None"
  shows "sys_event t = sys_event s \<and> (\<exists>n. sys_got t = sys_got s @ replicate n d)"
  using assms
proof (induction rule: sys_steps.induct)
  case (none s)
  have "sys_got s = sys_got s @ replicate 0 d" by simp
  then show ?case by blast
next
  case (more s t u)
  then obtain n where t: "sys_event t = sys_event s" "sys_got t = sys_got s @ replicate n d" by blast
  from more.hyps(2) show ?case
  proof cases
    case (setting d')
    with more.prems t show ?thesis by (auto simp: sys_set_simps)
  next
    case (awaiting h)
    with more.prems t show ?thesis
      by (intro conjI exI [of _ "Suc n"]) (simp_all add: sys_await_simps replicate_append_same)
  qed
qed

theorem event_set_without_waiter_is_stuck_witness:
  "let s = sys_set (5::nat) sys_init; t = sys_set 6 (sys_await 7 s)
   in sys_event t = sys_event s \<and> (\<exists>n. sys_got t = replicate n 5)"
proof -
  let ?s = "sys_set (5::nat) sys_init"
  have s: "ev_signaled (sys_event ?s)" "ev_data (sys_event ?s) = Some 5" "ev_waiter (sys_event ?s) = None" "sys_got ?s = []"
    by (simp_all add: sys_set_simps sys_init_def new_event_def)
  have "sys_steps ?s (sys_set 6 (sys_await 7 ?s))"
    by (rule sys_steps.more [OF sys_steps.more [OF sys_steps.none]])
      (rule sys_step.awaiting [OF s(3)], rule sys_step.setting)
  from event_set_without_waiter_is_stuck [OF this s(1-3)] s(4) show ?thesis by (simp add: Let_def)
qed

end
