(* ===== verification/Co_State.thy ===== *)
theory Co_State
  imports Co_Event Ucx_Calls
begin

text \<open>
  The state the C++ programs of \<open>src/\<close> run on, the owners of an event, the coroutine that is
  suspended, and \<open>send_stream\<close> and \<open>recv_stream\<close> of \<open>src/ucp_endpoint.hpp\<close> with their callbacks.

  An \<open>auto_reset_event_handle\<close> is a shared pointer to an event: the event lives as long as a copy
  of the handle does. The handles that are objects of their own (made by \<open>new\<close>, or a member of
  \<open>UcpListener\<close>), whose address UCX gets as \<open>user_data\<close>, are numbers in \<open>co_handles\<close>. A use of an
  object that is gone is a fault.
\<close>

section \<open>State\<close>

text \<open>Where the one coroutine of each program is suspended, with its local variables.\<close>

datatype point = ClientSent | ServerAccept | ServerRecv

record co_frame =
  fr_point :: point
  fr_event :: nat
  fr_data :: nat
  fr_ep :: nat

text \<open>How a process ends: by an exception nobody catches (\<open>std::terminate\<close>), or with a code.\<close>

datatype stop = Uncaught | ExitCode int

record shared_event =
  the_event :: "nat auto_reset_event"
  owners :: nat

record 'w co = "'w machine" +
  co_events :: "nat \<Rightarrow> shared_event option"
  co_handles :: "nat \<Rightarrow> nat option"
  next_obj :: nat
  coroutine :: "co_frame option"
  co_completed :: bool
  co_stop :: "stop option"

definition co_init :: "'w \<Rightarrow> 'w co" where
  "co_init w =
     \<lparr>world = w, heap = (\<lambda>_. None), brk = 1, faults = [], trace = [], test_mem_type = MEM_HOST,
      co_events = (\<lambda>_. None), co_handles = (\<lambda>_. None), next_obj = 1, coroutine = None,
      co_completed = False, co_stop = None\<rparr>"

text \<open>The environment of a process: its variables, and where the machine puts a block.\<close>

record ('w, 'u) co_env = "('w, 'u) env" +
  getenv :: "string \<Rightarrow> string option"
  address_of :: "nat \<Rightarrow> nat"

section \<open>Owners of an event\<close>

definition event_of :: "nat \<Rightarrow> 'w co \<Rightarrow> nat auto_reset_event" where
  "event_of c s = (case co_events s c of None \<Rightarrow> new_event | Some k \<Rightarrow> the_event k)"

definition upd_event :: "nat \<Rightarrow> (nat auto_reset_event \<Rightarrow> nat auto_reset_event) \<Rightarrow> 'w co \<Rightarrow> 'w co" where
  "upd_event c f s =
     (case co_events s c of
        None \<Rightarrow> fault (DeadFrame c) s
      | Some k \<Rightarrow> s\<lparr>co_events := (co_events s)(c \<mapsto> k\<lparr>the_event := f (the_event k)\<rparr>)\<rparr>)"

definition share :: "nat \<Rightarrow> 'w co \<Rightarrow> 'w co" where
  "share c s =
     (case co_events s c of
        None \<Rightarrow> fault (DeadFrame c) s
      | Some k \<Rightarrow> s\<lparr>co_events := (co_events s)(c \<mapsto> k\<lparr>owners := owners k + 1\<rparr>)\<rparr>)"

definition unshare :: "nat \<Rightarrow> 'w co \<Rightarrow> 'w co" where
  "unshare c s =
     (case co_events s c of
        None \<Rightarrow> fault (DeadFrame c) s
      | Some k \<Rightarrow> s\<lparr>co_events := (co_events s)(c := if owners k \<le> 1 then None else Some (k\<lparr>owners := owners k - 1\<rparr>))\<rparr>)"

text \<open>A handle object with an event of its own, and the end of a handle object.\<close>

definition new_handle :: "'w co \<Rightarrow> nat \<times> 'w co" where
  "new_handle s =
     (let h = next_obj s
      in (h, s\<lparr>co_events := (co_events s)(h \<mapsto> \<lparr>the_event = new_event, owners = 1\<rparr>),
               co_handles := (co_handles s)(h \<mapsto> h), next_obj := Suc h\<rparr>))"

definition delete_handle :: "nat \<Rightarrow> 'w co \<Rightarrow> 'w co" where
  "delete_handle h s =
     (case co_handles s h of
        None \<Rightarrow> fault (DeadFrame h) s
      | Some c \<Rightarrow> unshare c (s\<lparr>co_handles := (co_handles s)(h := None)\<rparr>))"

text \<open>\<open>event->set_or(d)\<close> on a handle object, without a callback.\<close>

definition set_handle :: "(nat \<Rightarrow> 'w co \<Rightarrow> 'w co) \<Rightarrow> nat \<Rightarrow> nat \<Rightarrow> 'w co \<Rightarrow> 'w co" where
  "set_handle resume h d s =
     (case co_handles s h of
        None \<Rightarrow> fault (DeadFrame h) s
      | Some c \<Rightarrow> set_or resume (event_of c) (upd_event c) d None s)"

section \<open>UcpEndPoint::send\_stream and recv\_stream\<close>

text \<open>The returned handle is a copy; what the call returns is not looked at.\<close>

definition send_stream :: "('w, 'u, 'e) env_scheme \<Rightarrow> nat \<Rightarrow> nat \<Rightarrow> u64 \<Rightarrow> 'w co \<Rightarrow> nat \<times> 'w co" where
  "send_stream E ep p n s =
     (let (event, s) = new_handle s;
          (_, s) = call_post E (StreamSend ep (Contig p n) (Some event)) (buffer_bytes p n s) s
      in (event, share event s))"

text \<open>
  \<open>send_stream(T data)\<close>: the span covers the parameter, which is a copy of the argument and is gone
  when the function returns. \<open>n\<close> is the size of \<open>T\<close>.
\<close>

definition send_stream_value :: "('w, 'u, 'e) env_scheme \<Rightarrow> nat \<Rightarrow> nat \<Rightarrow> nat \<Rightarrow> 'w co \<Rightarrow> nat \<times> 'w co" where
  "send_stream_value E ep n v s =
     (let (param, s) = new_block (map Some (le_bytes n v)) s;
          (event, s) = send_stream E ep param (of_nat n) s
      in (event, c_free param s))"

definition send_stream_cb :: "('w, 'u, 'e) env_scheme \<Rightarrow> (nat \<Rightarrow> 'w co \<Rightarrow> 'w co) \<Rightarrow>
    nat \<Rightarrow> ucs_status \<Rightarrow> nat \<Rightarrow> 'w co \<Rightarrow> 'w co" where
  "send_stream_cb E resume request status event s =
     (if status \<noteq> UCS_OK then s
      else
        let s = set_handle resume event request s
        in if co_stop s \<noteq> None then s
           else call_void E (ReqFree request) (delete_handle event s))"

definition recv_stream :: "('w, 'u, 'e) env_scheme \<Rightarrow> nat \<Rightarrow> nat \<Rightarrow> u64 \<Rightarrow> 'w co \<Rightarrow> nat \<times> 'w co" where
  "recv_stream E ep p n s =
     (let (event, s) = new_handle s;
          (status, s) = call_post E (StreamRecv ep (Contig p n) False (Some event)) [] s
      in if ucs_ptr_is_err status then (event, s\<lparr>co_stop := Some (ExitCode 1)\<rparr>)
         else (event, share event s))"

text \<open>An exception that leaves a callback passes through C code, and ends the process.\<close>

definition recv_stream_cb :: "('w, 'u, 'e) env_scheme \<Rightarrow> (nat \<Rightarrow> 'w co \<Rightarrow> 'w co) \<Rightarrow>
    nat \<Rightarrow> ucs_status \<Rightarrow> nat \<Rightarrow> nat \<Rightarrow> 'w co \<Rightarrow> 'w co" where
  "recv_stream_cb E resume request status len event s =
     (if status \<noteq> UCS_OK then s\<lparr>co_stop := Some Uncaught\<rparr>
      else
        let s = set_handle resume event len s
        in if co_stop s \<noteq> None then s
           else call_void E (ReqFree request) (delete_handle event s))"

section \<open>Callbacks\<close>

text \<open>
  \<open>listener_callback\<close> of \<open>ucp_listener.cpp\<close> and the error handler of a client endpoint, of
  \<open>ucp_endpoint.cpp\<close>.
\<close>

definition listener_callback :: "(nat \<Rightarrow> 'w co \<Rightarrow> 'w co) \<Rightarrow> nat \<Rightarrow> nat \<Rightarrow> 'w co \<Rightarrow> 'w co" where
  "listener_callback resume conn arg s = set_handle resume arg conn s"

definition ep_err_handler :: "ucs_status \<Rightarrow> 'w co \<Rightarrow> 'w co" where
  "ep_err_handler status s = (if status \<noteq> UCS_OK then s\<lparr>co_stop := Some Uncaught\<rparr> else s)"

datatype co_upcall =
    CoWrite dma
  | CoSend nat ucs_status nat
  | CoRecv nat ucs_status nat nat
  | CoConn nat nat
  | CoErr ucs_status

definition co_dispatch :: "('w, 'u, 'e) env_scheme \<Rightarrow> (nat \<Rightarrow> 'w co \<Rightarrow> 'w co) \<Rightarrow> co_upcall \<Rightarrow> 'w co \<Rightarrow> 'w co" where
  "co_dispatch E resume u s =
     (if co_stop s \<noteq> None then s
      else case u of
        CoWrite d \<Rightarrow> apply_dma d s
      | CoSend request status event \<Rightarrow> send_stream_cb E resume request status event s
      | CoRecv request status len event \<Rightarrow> recv_stream_cb E resume request status len event s
      | CoConn conn arg \<Rightarrow> listener_callback resume conn arg s
      | CoErr status \<Rightarrow> ep_err_handler status s)"

text \<open>\<open>while (!completed) worker.progress();\<close>\<close>

definition run_until_completed :: "('w, co_upcall, 'e) env_scheme \<Rightarrow> (nat \<Rightarrow> 'w co \<Rightarrow> 'w co) \<Rightarrow> nat \<Rightarrow>
    'w co \<Rightarrow> 'w co option" where
  "run_until_completed E resume wk s =
     while_option (\<lambda>s. \<not> co_completed s \<and> co_stop s = None)
       (\<lambda>s. snd (ucp_worker_progress E (co_dispatch E resume) wk s)) s"

text \<open>\<open>co_await\<close> in the body of a coroutine: suspended at \<open>f\<close>, or going on at once.\<close>

definition suspend_at :: "(nat \<Rightarrow> 'w co \<Rightarrow> 'w co) \<Rightarrow> co_frame \<Rightarrow> 'w co \<Rightarrow> 'w co" where
  "suspend_at resume f s =
     (let (suspended, e) = co_await 0 (event_of (fr_event f) s);
          s = upd_event (fr_event f) (\<lambda>_. e) (s\<lparr>coroutine := Some f\<rparr>)
      in if suspended then s else resume 0 s)"

text \<open>\<open>fmt::println\<close> of the number in a variable.\<close>

definition println_number :: "nat \<Rightarrow> u64 \<Rightarrow> 'w co \<Rightarrow> 'w co" where
  "println_number p n s =
     (let bs = buffer_bytes p n s
      in if None \<in> set bs then fault (BadLoad p) s
         else emit (EvPrint (map (of_nat \<circ> of_char) (dec_digits (le_value (map the bs))))) s)"

lemmas co_run [run_simps] =
  event_defs event_of_def upd_event_def share_def unshare_def new_handle_def delete_handle_def
  set_handle_def send_stream_def send_stream_value_def send_stream_cb_def recv_stream_def
  recv_stream_cb_def listener_callback_def ep_err_handler_def co_dispatch_def
  run_until_completed_def suspend_at_def println_number_def buffer_bytes_def new_event_def co_init_def

section \<open>What a set of the event does\<close>

lemma upd_event_fields [simp]:
  "heap (upd_event c f s) = heap s" "trace (upd_event c f s) = trace s" "world (upd_event c f s) = world s"
  "coroutine (upd_event c f s) = coroutine s" "co_completed (upd_event c f s) = co_completed s"
  "co_stop (upd_event c f s) = co_stop s" "co_handles (upd_event c f s) = co_handles s"
  by (simp_all add: upd_event_def fault_def split: option.split)

lemma share_fields [simp]:
  "heap (share c s) = heap s" "trace (share c s) = trace s" "coroutine (share c s) = coroutine s"
  "co_completed (share c s) = co_completed s" "co_stop (share c s) = co_stop s"
  "heap (unshare c s) = heap s" "trace (unshare c s) = trace s" "coroutine (unshare c s) = coroutine s"
  "co_completed (unshare c s) = co_completed s" "co_stop (unshare c s) = co_stop s"
  by (simp_all add: share_def unshare_def fault_def split: option.split)

lemma delete_handle_fields [simp]:
  "heap (delete_handle h s) = heap s" "trace (delete_handle h s) = trace s"
  "coroutine (delete_handle h s) = coroutine s" "co_completed (delete_handle h s) = co_completed s"
  "co_stop (delete_handle h s) = co_stop s"
  by (simp_all add: delete_handle_def fault_def split: option.split)

lemma emit_co [simp]:
  "co_events (emit e s) = co_events s" "co_handles (emit e s) = co_handles s" "next_obj (emit e s) = next_obj s"
  "coroutine (emit e s) = coroutine s" "co_completed (emit e s) = co_completed s" "co_stop (emit e s) = co_stop s"
  by (simp_all add: emit_def)

lemma fault_co [simp]:
  "co_events (fault e s) = co_events s" "co_handles (fault e s) = co_handles s" "next_obj (fault e s) = next_obj s"
  "coroutine (fault e s) = coroutine s" "co_completed (fault e s) = co_completed s" "co_stop (fault e s) = co_stop s"
  by (simp_all add: fault_def)

lemma call_void_co [simp]:
  "coroutine (call_void E c s) = coroutine s" "co_completed (call_void E c s) = co_completed s"
  "co_stop (call_void E c s) = co_stop s"
  by (simp_all add: call_void_def)

lemma heap_only_co:
  assumes "heap_only s (t :: 'w co)"
  shows "coroutine t = coroutine s" "co_completed t = co_completed s" "co_stop t = co_stop s"
    "co_events t = co_events s" "co_handles t = co_handles s" "next_obj t = next_obj s" "trace t = trace s"
  using assms by (auto simp: heap_only_def)

lemma apply_dma_co [simp]:
  fixes s :: "'w co"
  shows "coroutine (apply_dma d s) = coroutine s" "co_completed (apply_dma d s) = co_completed s"
    "co_stop (apply_dma d s) = co_stop s"
  using heap_only_co [of s "apply_dma d s"] by (cases d; simp add: apply_dma_def)+

text \<open>Nobody who is resumed can complete a coroutine that is over.\<close>

locale over =
  fixes resume :: "nat \<Rightarrow> 'w co \<Rightarrow> 'w co"
  assumes resume_over: "coroutine s = None \<Longrightarrow> resume h s = fault (DeadFrame h) s"
begin

lemma set_handle_over:
  assumes "coroutine s = None"
  shows "coroutine (set_handle resume h d s) = None"
    "co_completed (set_handle resume h d s) = co_completed s" "co_stop (set_handle resume h d s) = co_stop s"
  using assms by (simp_all add: set_handle_def set_or_def Let_def resume_over split: option.split)

lemma dispatch_over:
  assumes "coroutine s = None"
  shows "coroutine (co_dispatch E resume u s) = None"
    "co_completed (co_dispatch E resume u s) = co_completed s"
  using assms set_handle_over
  by (cases u; simp add: co_dispatch_def send_stream_cb_def recv_stream_cb_def listener_callback_def
      ep_err_handler_def Let_def)+

lemma fold_dispatch_over:
  assumes "coroutine s = None"
  shows "coroutine (fold (co_dispatch E resume) us s) = None \<and>
    co_completed (fold (co_dispatch E resume) us s) = co_completed s"
  using assms
proof (induction us arbitrary: s)
  case (Cons u us)
  from Cons.IH [OF dispatch_over(1) [OF Cons.prems, of E u]] dispatch_over(2) [OF Cons.prems, of E u]
  show ?case by simp
qed simp

lemma run_over:
  assumes run: "run_until_completed E resume wk s = Some t"
    and s: "coroutine s = None" "\<not> co_completed s"
  shows "co_stop t \<noteq> None"
proof -
  let ?P = "\<lambda>u :: 'w co. coroutine u = None \<and> \<not> co_completed u"
  have "?P t"
  proof (rule while_option_rule [where P = ?P, OF _ run [unfolded run_until_completed_def]])
    fix u assume "?P u"
    then show "?P (snd (ucp_worker_progress E (co_dispatch E resume) wk u))"
      by (simp add: ucp_worker_progress_def fold_dispatch_over split: prod.split)
  qed (use s in simp)
  moreover have "\<not> (\<not> co_completed t \<and> co_stop t = None)"
    using run unfolding run_until_completed_def by (rule while_option_stop)
  ultimately show ?thesis by simp
qed

end

end
