(* ===== verification/Co_Wrappers.thy ===== *)
theory Co_Wrappers
  imports Co_State Cs_Address
begin

text \<open>
  The C++ classes that own a UCX object (\<open>ucp_context.cpp\<close>, \<open>ucp_worker.cpp\<close>, \<open>ucp_endpoint.cpp\<close>,
  \<open>ucp_listener.cpp\<close>), the functions of \<open>ucx_helper.cpp\<close>, \<open>ucx_helper.hpp\<close> and \<open>helper.hpp\<close>.

  A constructor ends with its object or with an exception. The handle a failed create call leaves
  behind is whatever the environment says, as the member is not initialised.
\<close>

section \<open>Constructors and destructors\<close>

datatype 'a outcome = Value 'a | Thrown

definition UcpContext_cleanup :: "('w, 'u, 'e) env_scheme \<Rightarrow> nat \<Rightarrow> ('w, 'b) machine_scheme \<Rightarrow> ('w, 'b) machine_scheme" where
  "UcpContext_cleanup E ucp_context s = call_void E (UcpCleanup ucp_context) s"

definition UcpContext :: "('w, 'u, 'e) env_scheme \<Rightarrow> ('w, 'b) machine_scheme \<Rightarrow>
    nat outcome \<times> ('w, 'b) machine_scheme" where
  "UcpContext E s =
     (let (_, s) = call_status E ConfigRead s;
          ((status, ucp_context), s) = call_create E (UcpInit [FEATURE_STREAM]) s
      in if status \<noteq> UCS_OK then (Thrown, UcpContext_cleanup E ucp_context s)
         else (Value ucp_context, call_void E ConfigRelease s))"

definition UcpWorker_cleanup :: "('w, 'u, 'e) env_scheme \<Rightarrow> nat \<Rightarrow> ('w, 'b) machine_scheme \<Rightarrow> ('w, 'b) machine_scheme" where
  "UcpWorker_cleanup E ucp_worker s = call_void E (WorkerDestroy ucp_worker) s"

definition UcpWorker :: "('w, 'u, 'e) env_scheme \<Rightarrow> nat \<Rightarrow> ('w, 'b) machine_scheme \<Rightarrow>
    nat outcome \<times> ('w, 'b) machine_scheme" where
  "UcpWorker E ucp_context s =
     (let ((status, ucp_worker), s) = call_create E (WorkerCreate ucp_context) s
      in if status \<noteq> UCS_OK then (Thrown, UcpWorker_cleanup E ucp_worker s)
         else (Value ucp_worker, s))"

text \<open>\<open>set_sock_addr\<close> of \<open>ucx_helper.cpp\<close>.\<close>

definition set_sockaddr_in :: "('w, 'u, 'e) env_scheme \<Rightarrow> string option \<Rightarrow> u16 \<Rightarrow> sockaddr" where
  "set_sockaddr_in E address_str port =
     \<lparr>ss_family = AF_INET, ss_port = htons port,
      ss_addr = (case address_str of None \<Rightarrow> replicate 4 0 | Some str \<Rightarrow> pton_or_zero E AF_INET 4 str)\<rparr>"

text \<open>The endpoint of a client; the port is an \<open>int\<close> that is passed on as a \<open>uint16_t\<close>.\<close>

definition UcpEndPoint_connect :: "('w, 'u, 'e) env_scheme \<Rightarrow> nat \<Rightarrow> string \<Rightarrow> i32 \<Rightarrow> ('w, 'b) machine_scheme \<Rightarrow>
    nat outcome \<times> ('w, 'b) machine_scheme" where
  "UcpEndPoint_connect E worker ip port s =
     (let connect_addr = set_sockaddr_in E (Some ip) (ucast port);
          ((status, ep), s) = call_create E (EpCreateSock worker connect_addr) s
      in if status \<noteq> UCS_OK then (Thrown, s) else (Value ep, s))"

definition UcpEndPoint_accept :: "('w, 'u, 'e) env_scheme \<Rightarrow> nat \<Rightarrow> nat \<Rightarrow> ('w, 'b) machine_scheme \<Rightarrow>
    nat outcome \<times> ('w, 'b) machine_scheme" where
  "UcpEndPoint_accept E worker conn s =
     (let ((status, ep), s) = call_create E (EpCreateConn worker conn) s
      in if status \<noteq> UCS_OK then (Thrown, s) else (Value ep, s))"

text \<open>
  \<open>ucp_ep_destroy\<close>, like every call here that returns nothing, runs no callback; callbacks run in
  \<open>ucp_worker_progress\<close>.
\<close>

definition UcpEndPoint_destroy :: "('w, 'u, 'e) env_scheme \<Rightarrow> nat \<Rightarrow> ('w, 'b) machine_scheme \<Rightarrow> ('w, 'b) machine_scheme" where
  "UcpEndPoint_destroy E ep s = call_void E (EpDestroy ep) s"

text \<open>The listener, and the handle object that is its member \<open>task\<close>.\<close>

definition UcpListener :: "('w, 'u, 'e) env_scheme \<Rightarrow> nat \<Rightarrow> string \<Rightarrow> u16 \<Rightarrow> 'w co \<Rightarrow>
    (nat \<times> nat) outcome \<times> 'w co" where
  "UcpListener E worker addr port s =
     (let (task, s) = new_handle s;
          listen_addr = set_sockaddr_in E (Some addr) port;
          ((status, listener), s) = call_create E (ListenerCreate worker listen_addr) s
      in if status \<noteq> UCS_OK then (Thrown, delete_handle task s)
         else
           let (status, s) = call_status E (ListenerQuery listener) s
           in if status \<noteq> UCS_OK
              then (Thrown, delete_handle task (call_void E (ListenerDestroy listener) s))
              else (Value (listener, task), s))"

definition UcpListener_destroy :: "('w, 'u, 'e) env_scheme \<Rightarrow> nat \<times> nat \<Rightarrow> 'w co \<Rightarrow> 'w co" where
  "UcpListener_destroy E l s = (case l of (listener, task) \<Rightarrow>
     delete_handle task (call_void E (ListenerDestroy listener) s))"

text \<open>\<open>accept()\<close> returns a copy of the member.\<close>

definition listener_accept :: "nat \<times> nat \<Rightarrow> 'w co \<Rightarrow> nat \<times> 'w co" where
  "listener_accept l s =
     (case co_handles s (snd l) of
        None \<Rightarrow> (0, fault (DeadFrame (snd l)) s)
      | Some c \<Rightarrow> (c, share c s))"

section \<open>ucx\_helper\<close>

definition cpp_init_worker :: "('w, 'u, 'e) env_scheme \<Rightarrow> nat \<Rightarrow> ('w, 'b) machine_scheme \<Rightarrow>
    nat outcome \<times> ('w, 'b) machine_scheme" where
  "cpp_init_worker E ucp_context s =
     (let ((status, ucp_worker), s) = call_create E (WorkerCreate ucp_context) s
      in if status \<noteq> UCS_OK then (Thrown, s) else (Value ucp_worker, s))"

definition cpp_init_context :: "('w, 'u, 'e) env_scheme \<Rightarrow> ('w, 'b) machine_scheme \<Rightarrow>
    (nat \<times> nat) outcome \<times> ('w, 'b) machine_scheme" where
  "cpp_init_context E s =
     (let ((status, ucp_context), s) = call_create E (UcpInit [FEATURE_STREAM]) s
      in if status \<noteq> UCS_OK then (Thrown, s)
         else
           let (worker, s) = cpp_init_worker E ucp_context s
           in case worker of
                Value ucp_worker \<Rightarrow> (Value (ucp_context, ucp_worker), s)
              | Thrown \<Rightarrow> (Thrown, call_void E (UcpCleanup ucp_context) s))"

text \<open>
  \<open>sockaddr_get_ip_str\<close> and \<open>sockaddr_get_port_str\<close> of \<open>ucx_helper.hpp\<close>. The first writes into a
  \<open>std::string\<close> of 256 NUL characters and returns all of it.
\<close>

definition cpp_sockaddr_get_ip_str :: "(family \<Rightarrow> byte list \<Rightarrow> nat \<Rightarrow> string) \<Rightarrow> sockaddr \<Rightarrow> string" where
  "cpp_sockaddr_get_ip_str inet_ntop sa =
     (let ip_str = replicate 256 (CHR 0x00);
          write = (\<lambda>str. str @ drop (length str) ip_str)
      in case ss_family sa of
           AF_INET \<Rightarrow> write (inet_ntop AF_INET (ss_addr sa) (length ip_str))
         | AF_INET6 \<Rightarrow> write (inet_ntop AF_INET6 (ss_addr sa) (length ip_str))
         | _ \<Rightarrow> ''Invalid address family'')"

definition cpp_sockaddr_get_port_str :: "sockaddr \<Rightarrow> string" where
  "cpp_sockaddr_get_port_str sa =
     (case ss_family sa of
        AF_INET \<Rightarrow> dec_digits (unat (ntohs (ss_port sa)))
      | AF_INET6 \<Rightarrow> dec_digits (unat (ntohs (ss_port sa)))
      | _ \<Rightarrow> ''Invalid address family'')"

section \<open>helper.hpp\<close>

definition getenv_or_throw :: "('w, 'u, 'e) co_env_scheme \<Rightarrow> string \<Rightarrow> string outcome" where
  "getenv_or_throw E key = (case getenv E key of None \<Rightarrow> Thrown | Some val \<Rightarrow> Value val)"

definition assert_equal :: "'a \<Rightarrow> 'a \<Rightarrow> unit outcome" where
  "assert_equal actual expected = (if expected \<noteq> actual then Thrown else Value ())"

text \<open>
  \<open>timestamp\<close>: the nanoseconds of the clock, cut to microseconds, as a \<open>double\<close>. A clock of 64 bits
  gives less than \<open>2 ^ 54\<close> microseconds; from \<open>2 ^ 53\<close> on a \<open>double\<close> holds the even numbers only, and
  an odd one goes to the neighbour that is a multiple of four.
\<close>

definition double_of_count :: "int \<Rightarrow> int" where
  "double_of_count n =
     (if \<bar>n\<bar> \<le> 2 ^ 53 \<or> even n then n else if 4 dvd n + 1 then n + 1 else n - 1)"

definition timestamp :: "int \<Rightarrow> int" where
  "timestamp now = double_of_count (if now < 0 then - (- now div 1000) else now div 1000)"

definition span1 :: "'a \<Rightarrow> 'a list" where
  "span1 element = [element]"

text \<open>A span of numbers; an index outside it, which the code does not check, is \<open>None\<close>.\<close>

definition span_set :: "nat \<Rightarrow> u64 \<Rightarrow> u64 list \<Rightarrow> u64 list option" where
  "span_set i v xs = (if i < length xs then Some (xs[i := v]) else None)"

definition initialize_timespan :: "int \<Rightarrow> u64 list \<Rightarrow> u64 list option" where
  "initialize_timespan now span =
     do { span \<leftarrow> span_set 0 1 span; span_set 1 (word_of_int (timestamp now)) span }"

definition inject_timespan :: "int \<Rightarrow> u64 list \<Rightarrow> u64 list option" where
  "inject_timespan now span =
     (case span of
        [] \<Rightarrow> None
      | n # _ \<Rightarrow> do { span \<leftarrow> span_set 0 (n + 1) span; span_set (unat (n + 1)) (word_of_int (timestamp now)) span })"

text \<open>
  \<open>get_parent_path\<close>: \<open>readlink\<close> gives a path or fails; it writes at most \<open>PATH_MAX\<close> characters and no
  final NUL. \<open>None\<close> when the text in \<open>dest\<close> has no end, so that the constructor of the path reads
  outside the array. \<open>parent_path\<close> is that of \<open>std::filesystem\<close> for a path without doubled slashes.
\<close>

definition PATH_MAX :: nat where "PATH_MAX = 4096"

definition parent_path :: "string \<Rightarrow> string" where
  "parent_path p =
     (case dropWhile (\<lambda>c. c = CHR ''/'') (dropWhile (\<lambda>c. c \<noteq> CHR ''/'') (rev p)) of
        [] \<Rightarrow> takeWhile (\<lambda>c. c = CHR ''/'') p
      | q \<Rightarrow> rev q)"

definition get_parent_path :: "string option \<Rightarrow> string outcome option" where
  "get_parent_path readlink =
     (let dest = replicate PATH_MAX (CHR 0x00)
      in case readlink of
           None \<Rightarrow> Some Thrown
         | Some path \<Rightarrow>
             let n = min (length path) PATH_MAX; dest = take n path @ drop n dest
             in if CHR 0x00 \<in> set dest
                then Some (Value (parent_path (takeWhile (\<lambda>c. c \<noteq> CHR 0x00) dest)))
                else None)"

section \<open>Numbers in the environment\<close>

text \<open>\<open>std::stoi\<close>: an exception when there is no number or it does not fit.\<close>

definition strtol_converts :: "string \<Rightarrow> bool" where
  "strtol_converts str =
     (case dropWhile is_space str of
        [] \<Rightarrow> False
      | c # cs \<Rightarrow> if c = CHR ''-'' \<or> c = CHR ''+'' then cs \<noteq> [] \<and> is_digit (hd cs) else is_digit c)"

definition stoi :: "string \<Rightarrow> i32 outcome" where
  "stoi str =
     (if \<not> strtol_converts str \<or> strtol_value str < - (2 ^ 31) \<or> 2 ^ 31 \<le> strtol_value str then Thrown
      else Value (word_of_int (strtol_value str)))"

definition env_port :: "('w, 'u, 'e) co_env_scheme \<Rightarrow> i32 outcome" where
  "env_port E = (case getenv_or_throw E ''SERVER_PORT'' of Thrown \<Rightarrow> Thrown | Value str \<Rightarrow> stoi str)"

lemmas wrappers_run [run_simps] =
  UcpContext_cleanup_def UcpContext_def UcpWorker_cleanup_def UcpWorker_def set_sockaddr_in_def
  UcpEndPoint_connect_def UcpEndPoint_accept_def UcpEndPoint_destroy_def UcpListener_def
  UcpListener_destroy_def listener_accept_def getenv_or_throw_def strtol_converts_def stoi_def
  env_port_def pton_or_zero_def

section \<open>Properties\<close>

text \<open>
  C40: The address code of the C++ programs and that of \<open>ucp_client_server\<close> for IPv4: the same socket
  address comes out for the same string and port, 0.0.0.0 when \<open>inet_pton\<close> cannot parse the string,
  and the same text for the port of any address, which the buffer of the C program never cuts off.
  The texts of the IP address agree up to their first NUL, but the string of the C++ program does not
  end there: for an IPv4 or IPv6 address it always has 256 characters, and all of them are printed.
  (\<open>inet_ntop\<close> writes a text without a NUL of less than 46 characters, whatever room there is beyond.)
\<close>

theorem cpp_addresses_agree_with_c:
  assumes "ai_family s = AF_INET"
    and ntop: "\<And>af bs n. 46 \<le> n \<Longrightarrow> inet_ntop af bs n = inet_ntop af bs 46"
      "\<And>af bs. length (inet_ntop af bs 46) < 46 \<and> CHR 0x00 \<notin> set (inet_ntop af bs 46)"
  shows "set_sockaddr_in E address_str (server_port s) = set_sock_addr E address_str s \<and>
    cpp_sockaddr_get_port_str sa = sockaddr_get_port_str sa PORT_STRING_LEN \<and>
    takeWhile (\<lambda>c. c \<noteq> CHR 0x00) (cpp_sockaddr_get_ip_str inet_ntop sa) = sockaddr_get_ip_str inet_ntop sa IP_STRING_LEN \<and>
    (ss_family sa \<in> {AF_INET, AF_INET6} \<longrightarrow> length (cpp_sockaddr_get_ip_str inet_ntop sa) = 256)"
proof -
  have "unat (ntohs (ss_port sa)) < 2 ^ LENGTH(16)" by (rule unsigned_less)
  then have "length (dec_digits (unat (ntohs (ss_port sa)))) \<le> Suc 4" by (intro length_dec_digits) simp
  then have port: "dec_digits (unat (ntohs (ss_port sa))) = snprintf_dec 8 (unat (ntohs (ss_port sa)))"
    by (simp add: snprintf_dec_def)
  have all: "inet_ntop af bs 256 = inet_ntop af bs 46" "inet_ntop af bs 50 = inet_ntop af bs 46" for af bs
    using ntop(1) [of 256 af bs] ntop(1) [of 50 af bs] by simp_all
  have cut: "takeWhile (\<lambda>c. c \<noteq> CHR 0x00) (inet_ntop af bs 46 @ replicate (256 - length (inet_ntop af bs 46)) (CHR 0x00)) =
      inet_ntop af bs 46" for af bs
    using ntop(2) [of af bs] by (subst takeWhile_append2) auto
  have "length (inet_ntop af bs 46) + (256 - length (inet_ntop af bs 46)) = 256" for af bs
    using ntop(2) [of af bs] by simp
  with port all cut assms(1) show ?thesis
    by (auto simp: set_sockaddr_in_def set_sock_addr_def cpp_sockaddr_get_port_str_def sockaddr_get_port_str_def
        cpp_sockaddr_get_ip_str_def sockaddr_get_ip_str_def PORT_STRING_LEN_def IP_STRING_LEN_def split: family.split)
qed

text \<open>The loopback address, as \<open>inet_ntop\<close> writes it.\<close>

theorem cpp_addresses_agree_with_c_witness:
  "let sa = \<lparr>ss_family = AF_INET, ss_port = htons 13337, ss_addr = [127, 0, 0, 1]\<rparr>;
       str = cpp_sockaddr_get_ip_str (\<lambda>af bs n. ''127.0.0.1'') sa
   in takeWhile (\<lambda>c. c \<noteq> CHR 0x00) str = ''127.0.0.1'' \<and> length str = 256 \<and> str \<noteq> ''127.0.0.1''"
proof -
  let ?sa = "\<lparr>ss_family = AF_INET, ss_port = htons 13337, ss_addr = [127, 0, 0, 1]\<rparr>"
  from cpp_addresses_agree_with_c [of "cs_init ()" "\<lambda>af bs n. ''127.0.0.1''" "obliging_env :: (unit, cs_upcall) env" None ?sa]
  have "takeWhile (\<lambda>c. c \<noteq> CHR 0x00) (cpp_sockaddr_get_ip_str (\<lambda>af bs n. ''127.0.0.1'') ?sa) = ''127.0.0.1'' \<and>
      length (cpp_sockaddr_get_ip_str (\<lambda>af bs n. ''127.0.0.1'') ?sa) = 256"
    by (simp add: cs_init_def sockaddr_get_ip_str_def)
  then show ?thesis by (auto simp: Let_def)
qed

text \<open>
  C39: A failed construction. When \<open>ucp_init\<close> fails, the class \<open>UcpContext\<close> releases a context the
  process does not have, and when \<open>ucp_worker_create\<close> fails, \<open>UcpWorker\<close> releases a worker it does not
  have, while the context it was to be created on is still held; the function \<open>init_context\<close> of
  \<open>ucx_helper.cpp\<close> gives back exactly what it took.
\<close>

theorem cpp_failed_construction:
  assumes "held s = Some M"
  shows "((\<forall>h. RContext h \<notin># M) \<longrightarrow> UcpContext E s = (Thrown, t) \<longrightarrow> held t = None) \<and>
    ((\<forall>h. RWorker h \<notin># M) \<longrightarrow> UcpWorker E ctx s = (Thrown, t) \<longrightarrow> held t = None) \<and>
    (cpp_init_context E s = (Thrown, t) \<longrightarrow> held t = Some M)"
proof (intro conjI impI)
  assume none: "\<forall>h. RContext h \<notin># M" and run: "UcpContext E s = (Thrown, t)"
  obtain st1 s1 where a: "call_status E ConfigRead s = (st1, s1)" by fastforce
  obtain st2 h s2 where b: "call_create E (UcpInit [FEATURE_STREAM]) s1 = ((st2, h), s2)" by (metis surj_pair)
  from run a b have "st2 \<noteq> UCS_OK" "t = call_void E (UcpCleanup h) s2"
    by (auto simp: UcpContext_def UcpContext_cleanup_def split: if_splits)
  with call_status_trace [OF a] call_create_trace [OF b] assms none show "held t = None"
    by (auto simp: monitor_step_def)
next
  assume none: "\<forall>h. RWorker h \<notin># M" and run: "UcpWorker E ctx s = (Thrown, t)"
  obtain st h s1 where a: "call_create E (WorkerCreate ctx) s = ((st, h), s1)" by (metis surj_pair)
  from run a have "st \<noteq> UCS_OK" "t = call_void E (WorkerDestroy h) s1"
    by (auto simp: UcpWorker_def UcpWorker_cleanup_def split: if_splits)
  with call_create_trace [OF a] assms none show "held t = None" by (auto simp: monitor_step_def)
next
  assume run: "cpp_init_context E s = (Thrown, t)"
  obtain st c s1 where a: "call_create E (UcpInit [FEATURE_STREAM]) s = ((st, c), s1)" by (metis surj_pair)
  obtain st2 h s2 where b: "call_create E (WorkerCreate c) s1 = ((st2, h), s2)" by (metis surj_pair)
  from run a b call_create_trace [OF a] call_create_trace [OF b] assms(1) show "held t = Some M"
    by (auto simp: cpp_init_context_def cpp_init_worker_def monitor_step_def split: if_splits)
qed

text \<open>A library that creates the first object it is asked for if \<open>b\<close>, and no other.\<close>

definition creates_one :: "(bool, co_upcall) env" where
  "creates_one = obliging_env\<lparr>u_create := (\<lambda>c b. (if b then (UCS_OK, 1) else (UCS_ERR 1, 7), False))\<rparr>"

lemma creates_one_simps [simp]:
  "u_create creates_one c b = (if b then (UCS_OK, 1) else (UCS_ERR 1, 7), False)"
  "u_status creates_one c b = (UCS_OK, b)" "u_void creates_one c b = b"
  by (simp_all add: creates_one_def)

theorem cpp_failed_construction_witness:
  "held (snd (UcpContext creates_one (co_init False))) = None \<and>
   held (snd (cpp_init_context creates_one (co_init True))) = Some {#} \<and>
   (\<exists>s t. UcpContext creates_one (co_init True) = (Value 1, s) \<and> held s = Some {#RContext 1#} \<and>
      UcpWorker creates_one 1 s = (Thrown, t) \<and> held t = None)"
proof -
  have init: "held (co_init w) = Some {#}" for w :: bool by (simp add: co_init_def)
  obtain t where t: "UcpContext creates_one (co_init False) = (Thrown, t)" by (simp add: run_simps)
  obtain u where u: "cpp_init_context creates_one (co_init True) = (Thrown, u)"
    by (simp add: cpp_init_context_def cpp_init_worker_def run_simps)
  obtain s where s: "UcpContext creates_one (co_init True) = (Value 1, s)" "held s = Some {#RContext 1#}" "world s = False"
    by (simp add: run_simps monitor_step_def held_after_def)
  then obtain v where v: "UcpWorker creates_one 1 s = (Thrown, v)"
    by (cases "UcpWorker creates_one 1 s") (auto simp: UcpWorker_def call_create_def)
  from cpp_failed_construction [OF init, of creates_one False t] cpp_failed_construction [OF init, of creates_one True u]
    cpp_failed_construction [OF s(2), of creates_one v 1] t u s(1,2) v
  show ?thesis by simp
qed

text \<open>
  Time stamps are exact for the dates of the next two centuries, and never run backwards.
\<close>

lemma timestamp_exact: "0 \<le> now \<Longrightarrow> now div 1000 \<le> 2 ^ 53 \<Longrightarrow> timestamp now = now div 1000"
  by (simp add: timestamp_def double_of_count_def pos_imp_zdiv_nonneg_iff)

lemma double_of_count_mono: "0 \<le> m \<Longrightarrow> m \<le> n \<Longrightarrow> double_of_count m \<le> double_of_count n"
proof (cases "m = n")
  case False
  assume "0 \<le> m" "m \<le> n"
  with False have n: "m + 1 \<le> n" by simp
  have m': "double_of_count m \<le> m + 1" and n': "n - 1 \<le> double_of_count n" by (simp_all add: double_of_count_def)
  show ?thesis
  proof (cases "n = m + 1")
    case True
    with \<open>0 \<le> m\<close> show ?thesis by (auto simp: double_of_count_def)
  qed (use n m' n' in simp)
qed simp

lemma timestamp_mono: "0 \<le> now \<Longrightarrow> now \<le> later \<Longrightarrow> timestamp now \<le> timestamp later"
  by (simp add: timestamp_def double_of_count_mono zdiv_mono1 pos_imp_zdiv_nonneg_iff)

text \<open>
  \<open>inject_timespan\<close> writes past its span as soon as the counter reaches the size.
\<close>

lemma inject_timespan_in_bounds:
  assumes "xs \<noteq> []" "unat (hd xs) < 2 ^ 64 - 1"
  shows "inject_timespan ts xs \<noteq> None \<longleftrightarrow> unat (hd xs) + 1 < length xs"
proof -
  obtain n ys where xs: "xs = n # ys" using assms(1) by (cases xs) auto
  have "unat (n + 1) = unat n + 1"
    using assms(2) xs by (simp add: unat_plus_if')
  with xs show ?thesis by (auto simp: inject_timespan_def span_set_def)
qed

text \<open>
  A path of 4096 characters fills \<open>dest\<close>, and the constructor of the path runs off its end; a shorter
  one gives its parent.
\<close>

lemma get_parent_path_result:
  assumes "CHR 0x00 \<notin> set path"
  shows "get_parent_path (Some path) = (if length path < PATH_MAX then Some (Value (parent_path path)) else None)"
proof (cases "length path < PATH_MAX")
  case True
  then obtain k where "PATH_MAX - length path = Suc k" by (metis Suc_diff_Suc)
  moreover have "takeWhile (\<lambda>c. c \<noteq> CHR 0x00) (path @ CHR 0x00 # cs) = path" for cs
    using assms by (subst takeWhile_append2) auto
  ultimately show ?thesis using True by (simp add: get_parent_path_def Let_def)
next
  case False
  then show ?thesis using assms by (auto simp: get_parent_path_def Let_def dest: in_set_takeD)
qed

lemma parent_path_child:
  assumes "CHR ''/'' \<notin> set c" "d \<noteq> []" "last d \<noteq> CHR ''/''"
  shows "parent_path (d @ CHR ''/'' # c) = d"
proof -
  have "dropWhile (\<lambda>c. c \<noteq> CHR ''/'') (rev (d @ CHR ''/'' # c)) = CHR ''/'' # rev d"
    using assms(1) by (subst rev_append, subst rev.simps, subst append_assoc, subst dropWhile_append2) auto
  moreover obtain x xs where "rev d = x # xs" using assms(2) by (cases "rev d") auto
  moreover have "last d = x" using \<open>rev d = x # xs\<close> assms(2) by (metis hd_rev list.sel(1))
  ultimately show ?thesis using assms(3) by (simp add: parent_path_def)
qed

end
