(* ===== verification/Co_Programs.thy ===== *)
theory Co_Programs
  imports Co_Wrappers
begin

text \<open>
  The two C++ programs: \<open>src/client.cpp\<close> and \<open>src/server.cpp\<close>, each a coroutine and a loop that
  makes progress until the coroutine sets \<open>completed\<close>.

  \<open>task\<close> (\<open>src/async/task.hpp\<close>) starts its coroutine at once, does not suspend at the end, and its
  \<open>unhandled_exception\<close> does nothing: an exception in the body ends the coroutine, as a return does.
\<close>

section \<open>The client\<close>

text \<open>From the \<open>co_await\<close> to the end: the handle and the variable \<open>data\<close> go.\<close>

definition client_resume :: "nat \<Rightarrow> 'w co \<Rightarrow> 'w co" where
  "client_resume h s =
     (case coroutine s of
        None \<Rightarrow> fault (DeadFrame h) s
      | Some f \<Rightarrow>
          (case await_resume (event_of (fr_event f) s) of
             None \<Rightarrow> s\<lparr>co_stop := Some Uncaught\<rparr>
           | Some _ \<Rightarrow>
               let s = println_number (fr_data f) 4 s;
                   s = s\<lparr>co_completed := True\<rparr>;
                   s = c_free (fr_data f) (unshare (fr_event f) s)
               in s\<lparr>coroutine := None\<rparr>))"

text \<open>
  \<open>ep.send_stream(&data)\<close>: the argument is a pointer, so the value that is sent is the address of
  \<open>data\<close>, eight bytes.
\<close>

definition start_client_worker :: "('w, 'u, 'e) co_env_scheme \<Rightarrow> nat \<Rightarrow> 'w co \<Rightarrow> 'w co" where
  "start_client_worker E ep s =
     (let (data, s) = new_block (map Some (le_bytes 4 5)) s;
          (event, s) = send_stream_value E ep 8 (address_of E data) s
      in suspend_at client_resume \<lparr>fr_point = ClientSent, fr_event = event, fr_data = data, fr_ep = 0\<rparr> s)"

definition client_main :: "('w, co_upcall, 'e) co_env_scheme \<Rightarrow> 'w co \<Rightarrow> (stop \<times> 'w co) option" where
  "client_main E s =
     (let (context, s) = UcpContext E s
      in case context of
           Thrown \<Rightarrow> Some (Uncaught, s)
         | Value context \<Rightarrow>
             let (worker, s) = UcpWorker E context s
             in case worker of
                  Thrown \<Rightarrow> Some (Uncaught, s)
                | Value worker \<Rightarrow>
                    (case getenv_or_throw E ''SERVER_IP'' of
                       Thrown \<Rightarrow> Some (Uncaught, s)
                     | Value ip \<Rightarrow>
                         (case env_port E of
                            Thrown \<Rightarrow> Some (Uncaught, s)
                          | Value port \<Rightarrow>
                              let (server_ep, s) = UcpEndPoint_connect E worker ip port s
                              in case server_ep of
                                   Thrown \<Rightarrow> Some (Uncaught, s)
                                 | Value ep \<Rightarrow> do {
                                     s \<leftarrow> run_until_completed E client_resume worker (start_client_worker E ep s);
                                     Some (case co_stop s of
                                             Some st \<Rightarrow> (st, s)
                                           | None \<Rightarrow>
                                               (ExitCode 0,
                                                UcpContext_cleanup E context (UcpWorker_cleanup E worker
                                                  (UcpEndPoint_destroy E ep s)))) })))"

section \<open>The server\<close>

text \<open>
  After the receive: the local variables go in the reverse order, so the endpoint is destroyed
  inside the callback.
\<close>

definition server_received :: "('w, 'u, 'e) env_scheme \<Rightarrow> co_frame \<Rightarrow> 'w co \<Rightarrow> 'w co" where
  "server_received E f s =
     (case await_resume (event_of (fr_event f) s) of
        None \<Rightarrow> s\<lparr>co_stop := Some Uncaught\<rparr>
      | Some _ \<Rightarrow>
          let s = println_number (fr_data f) 8 s;
              s = s\<lparr>co_completed := True\<rparr>;
              s = unshare (fr_event f) s;
              s = c_free (fr_data f) (UcpEndPoint_destroy E (fr_ep f) s)
          in s\<lparr>coroutine := None\<rparr>)"

text \<open>After the accept, up to the second \<open>co_await\<close>.\<close>

definition server_accepted :: "('w, 'u, 'e) env_scheme \<Rightarrow> nat \<Rightarrow> co_frame \<Rightarrow> 'w co \<Rightarrow> 'w co" where
  "server_accepted E worker f s =
     (case await_resume (event_of (fr_event f) s) of
        None \<Rightarrow> s\<lparr>co_stop := Some Uncaught\<rparr>
      | Some conn \<Rightarrow>
          let s = unshare (fr_event f) s;
              (status, s) = call_status E (ConnQuery conn) s
          in if status \<noteq> UCS_OK then s\<lparr>coroutine := None\<rparr>
             else
               let (buf, s) = new_block (replicate 8 (Some 0)) s;
                   (ep, s) = UcpEndPoint_accept E worker conn s
               in case ep of
                    Thrown \<Rightarrow> (c_free buf s)\<lparr>coroutine := None\<rparr>
                  | Value ep \<Rightarrow>
                      let (event, s) = recv_stream E ep buf 8 s
                      in if co_stop s \<noteq> None then s
                         else suspend_at
                                (\<lambda>_. server_received E \<lparr>fr_point = ServerRecv, fr_event = event, fr_data = buf, fr_ep = ep\<rparr>)
                                \<lparr>fr_point = ServerRecv, fr_event = event, fr_data = buf, fr_ep = ep\<rparr> s)"

definition server_resume :: "('w, 'u, 'e) env_scheme \<Rightarrow> nat \<Rightarrow> nat \<Rightarrow> 'w co \<Rightarrow> 'w co" where
  "server_resume E worker h s =
     (case coroutine s of
        None \<Rightarrow> fault (DeadFrame h) s
      | Some f \<Rightarrow>
          (case fr_point f of
             ServerAccept \<Rightarrow> server_accepted E worker f s
           | ServerRecv \<Rightarrow> server_received E f s
           | ClientSent \<Rightarrow> s))"

definition cpp_start_server :: "('w, 'u, 'e) env_scheme \<Rightarrow> nat \<times> nat \<Rightarrow> nat \<Rightarrow> 'w co \<Rightarrow> 'w co" where
  "cpp_start_server E listener worker s =
     (let (event, s) = listener_accept listener s
      in suspend_at (server_resume E worker) \<lparr>fr_point = ServerAccept, fr_event = event, fr_data = 0, fr_ep = 0\<rparr> s)"

definition server_main :: "('w, co_upcall, 'e) co_env_scheme \<Rightarrow> 'w co \<Rightarrow> (stop \<times> 'w co) option" where
  "server_main E s =
     (let (context, s) = UcpContext E s
      in case context of
           Thrown \<Rightarrow> Some (Uncaught, s)
         | Value context \<Rightarrow>
             let (worker, s) = UcpWorker E context s
             in case worker of
                  Thrown \<Rightarrow> Some (Uncaught, s)
                | Value worker \<Rightarrow>
                    (case getenv_or_throw E ''SERVER_IP'' of
                       Thrown \<Rightarrow> Some (Uncaught, s)
                     | Value ip \<Rightarrow>
                         (case env_port E of
                            Thrown \<Rightarrow> Some (Uncaught, s)
                          | Value port \<Rightarrow>
                              let (listener, s) = UcpListener E worker ip (ucast port) s
                              in case listener of
                                   Thrown \<Rightarrow> Some (Uncaught, s)
                                 | Value listener \<Rightarrow> do {
                                     s \<leftarrow> run_until_completed E (server_resume E worker) worker
                                            (cpp_start_server E listener worker s);
                                     Some (case co_stop s of
                                             Some st \<Rightarrow> (st, s)
                                           | None \<Rightarrow>
                                               (ExitCode 0,
                                                UcpContext_cleanup E context (UcpWorker_cleanup E worker
                                                  (UcpListener_destroy E listener s)))) })))"

lemmas programs_run [run_simps] =
  client_resume_def start_client_worker_def client_main_def server_received_def server_accepted_def
  server_resume_def cpp_start_server_def server_main_def

interpretation client: over client_resume
  by unfold_locales (simp add: client_resume_def)

interpretation server: over "server_resume E wk" for E wk
  by unfold_locales (simp add: server_resume_def)

section \<open>Properties\<close>

text \<open>The environment of the runs below: every call succeeds, the variables are set.\<close>

definition cpp_env :: "(unit, co_upcall) co_env" where
  "cpp_env = env.extend obliging_env
     \<lparr>getenv = (\<lambda>key. if key = ''SERVER_IP'' then Some ''10.0.0.1'' else Some ''13337''), address_of = (\<lambda>p. 4096 + 16 * p)\<rparr>"

lemma cpp_env_simps [simp]:
  "u_void cpp_env c w = w" "u_status cpp_env c w = (UCS_OK, w)" "u_create cpp_env c w = ((UCS_OK, 1), w)"
  "u_post cpp_env c bs w = ((ReqNull, []), w)" "u_progress cpp_env wk w = ((0, []), w)"
  "getenv cpp_env ''SERVER_IP'' = Some ''10.0.0.1''" "getenv cpp_env ''SERVER_PORT'' = Some ''13337''"
  "inet_pton cpp_env af str = None" "address_of cpp_env p = 4096 + 16 * p"
  by (simp_all add: cpp_env_def obliging_env_def env.defs)

text \<open>What the start of the client's coroutine does: it posts the send and suspends.\<close>

lemma call_post_co:
  assumes "call_post E c bytes (s :: 'w co) = (r, t)"
  shows "co_events t = co_events s" "co_handles t = co_handles s" "coroutine t = coroutine s"
    "co_completed t = co_completed s" "co_stop t = co_stop s" "next_obj t = next_obj s"
proof -
  have "heap_only x (fold apply_dma ds x)" for ds and x :: "'w co"
    by (induction ds arbitrary: x) (auto simp: apply_dma_def split: prod.splits intro: heap_only_trans)
  note f = heap_only_co [OF this]
  show "co_events t = co_events s" "co_handles t = co_handles s" "coroutine t = coroutine s"
    "co_completed t = co_completed s" "co_stop t = co_stop s" "next_obj t = next_obj s"
    using assms by (auto simp: call_post_def f split: prod.splits)
qed

lemma start_client_worker_cases:
  fixes s :: "'w co" and E :: "('w, 'u, 'e) co_env_scheme" and ep :: nat
  defines "p \<equiv> Suc (brk s)" and "t \<equiv> start_client_worker E ep s"
  shows "\<exists>r. trace t = trace s @ [EvPost (StreamSend ep (Contig p 8) (Some (next_obj s))) (map Some (le_bytes 8 (address_of E (brk s)))) r]"
    "heap t p = None" "co_completed t = co_completed s" "co_stop t = co_stop s"
proof -
  define h where "h = next_obj s"
  define bytes where "bytes = map Some (le_bytes 8 (address_of E (brk s)))"
  define s1 where "s1 = s\<lparr>heap := (heap s)(brk s \<mapsto> map Some (le_bytes 4 5), p \<mapsto> bytes), brk := Suc p,
      co_events := (co_events s)(h \<mapsto> \<lparr>the_event = new_event, owners = 1\<rparr>),
      co_handles := (co_handles s)(h \<mapsto> h), next_obj := Suc h\<rparr>"
  obtain r s2 where post: "call_post E (StreamSend ep (Contig p 8) (Some h)) bytes s1 = (r, s2)" by fastforce
  note k = call_post_co [OF post]
  have "buffer_bytes p 8 s1 = bytes" by (simp add: buffer_bytes_def load_def s1_def bytes_def)
  then have "send_stream_value E ep 8 (address_of E (brk s)) (snd (new_block (map Some (le_bytes 4 5)) s)) =
      (h, c_free p (share h s2))"
    using post by (simp add: send_stream_value_def new_block_def send_stream_def new_handle_def Let_def s1_def h_def
        p_def bytes_def)
  then have t: "t = suspend_at client_resume \<lparr>fr_point = ClientSent, fr_event = h, fr_data = brk s, fr_ep = 0\<rparr> (c_free p (share h s2))"
    by (simp add: t_def start_client_worker_def new_block_def)
  have e: "co_events (c_free p (share h s2)) h = Some \<lparr>the_event = new_event, owners = 2\<rparr>"
    using k(1) by (simp add: heap_only_co(4) [OF heap_only_c_free] share_def s1_def)
  have free: "heap (c_free p (share h s2)) p = None" by (simp add: c_free_def p_def split: option.split)
  have u: "t = upd_event h (\<lambda>_. new_event\<lparr>ev_waiter := Some 0\<rparr>)
      ((c_free p (share h s2))\<lparr>coroutine := Some \<lparr>fr_point = ClientSent, fr_event = h, fr_data = brk s, fr_ep = 0\<rparr>\<rparr>)"
    using e by (simp add: t suspend_at_def event_of_def co_await_def await_ready_def await_suspend_def new_event_def)
  show "heap t p = None" using free by (simp add: u)
  have fields: "co_completed (c_free p (share h s2)) = co_completed s" "co_stop (c_free p (share h s2)) = co_stop s"
    using k by (simp_all add: heap_only_co(2,3) [OF heap_only_c_free] s1_def)
  then show "co_completed t = co_completed s" "co_stop t = co_stop s" by (simp_all add: u)
  have "trace t = trace s @ [EvPost (StreamSend ep (Contig p 8) (Some h)) bytes r]"
    using call_post_trace [OF post] by (simp add: u s1_def)
  then show "\<exists>r. trace t = trace s @ [EvPost (StreamSend ep (Contig p 8) (Some (next_obj s)))
      (map Some (le_bytes 8 (address_of E (brk s)))) r]"
    by (auto simp: h_def bytes_def)
qed

text \<open>
  C36: The message of the C++ client is not the number it means to send: \<open>send_stream(&data)\<close> sends
  the eight bytes of the address of \<open>data\<close>. They lie in the parameter of \<open>send_stream\<close>, which is
  gone when the call returns, whether or not the send is complete.
\<close>

theorem cpp_client_sends_pointer_from_dead_parameter:
  "let t = start_client_worker E ep s in \<exists>r p event.
     trace t = trace s @ [EvPost (StreamSend ep (Contig p 8) (Some event)) (map Some (le_bytes 8 (address_of E (brk s)))) r] \<and>
     heap t p = None"
  using start_client_worker_cases(1,2) [of E ep s] by (auto simp: Let_def)

lemma calls_co:
  fixes s :: "'w co"
  shows "call_status E c s = (st, t) \<Longrightarrow> co_completed t = co_completed s \<and> co_stop t = co_stop s"
    "call_create E c s = ((st, h), t) \<Longrightarrow> co_completed t = co_completed s \<and> co_stop t = co_stop s"
  by (auto simp: call_status_def call_create_def split: prod.splits)

lemma constructors_co:
  fixes s :: "'w co"
  shows "UcpContext E s = (r, t) \<Longrightarrow> co_completed t = co_completed s \<and> co_stop t = co_stop s"
    "UcpWorker E ctx s = (r, t) \<Longrightarrow> co_completed t = co_completed s \<and> co_stop t = co_stop s"
    "UcpEndPoint_connect E wk ip port s = (r, t) \<Longrightarrow> co_completed t = co_completed s \<and> co_stop t = co_stop s"
  by (auto simp: UcpContext_def UcpContext_cleanup_def UcpWorker_def UcpWorker_cleanup_def UcpEndPoint_connect_def
      Let_def split: prod.splits if_splits dest!: calls_co)

lemma client_main_cases:
  assumes "client_main E s = Some (st, t)" and "\<not> co_completed s" "co_stop s = None"
  obtains (uncaught) "st = Uncaught"
  | (ran) wk ep u v where "run_until_completed E client_resume wk (start_client_worker E ep u) = Some v"
      "\<not> co_completed u" "co_stop u = None" "st = (case co_stop v of None \<Rightarrow> ExitCode 0 | Some st \<Rightarrow> st)"
proof -
  obtain c s1 where a: "UcpContext E s = (c, s1)" by fastforce
  obtain k s2 where b: "UcpWorker E (case c of Value x \<Rightarrow> x | Thrown \<Rightarrow> 0) s1 = (k, s2)" by fastforce
  obtain e s3 where d: "UcpEndPoint_connect E (case k of Value x \<Rightarrow> x | Thrown \<Rightarrow> 0)
      (case getenv_or_throw E ''SERVER_IP'' of Value x \<Rightarrow> x | Thrown \<Rightarrow> [])
      (case env_port E of Value x \<Rightarrow> x | Thrown \<Rightarrow> 0) s2 = (e, s3)" by fastforce
  have "\<not> co_completed s3" "co_stop s3 = None"
    using constructors_co(1) [OF a] constructors_co(2) [OF b] constructors_co(3) [OF d] assms(2,3) by simp_all
  with assms(1) a b d uncaught ran show thesis
    by (cases c; cases k; cases "getenv_or_throw E ''SERVER_IP''"; cases "env_port E"; cases e)
      (auto simp: client_main_def bind_eq_Some_conv split: option.splits)
qed

text \<open>
  C35: The C++ client ends well only after the library has reported a successful send: if no such
  report comes, it runs forever or is killed by an exception. UCX reports nothing for a send that
  is complete at once, as a send of eight bytes usually is, nor for one it refused, and the result
  of the call is thrown away.
\<close>

theorem cpp_client_needs_callback:
  assumes quiet: "\<And>wk w u. u \<in> set (snd (fst (u_progress E wk w))) \<Longrightarrow>
      (\<exists>d. u = CoWrite d) \<or> (\<exists>st. u = CoErr st) \<or> (\<exists>r st event. u = CoSend r st event \<and> st \<noteq> UCS_OK)"
    and run: "client_main E (co_init w) = Some (st, t)"
  shows "st = Uncaught"
proof -
  let ?P = "\<lambda>u :: 'a co. \<not> co_completed u \<and> co_stop u \<in> {None, Some Uncaught}"
  have dispatch: "?P (co_dispatch E client_resume u v)"
    if "(\<exists>d. u = CoWrite d) \<or> (\<exists>st. u = CoErr st) \<or> (\<exists>r st event. u = CoSend r st event \<and> st \<noteq> UCS_OK)" "?P v" for u v
    using that by (auto simp: co_dispatch_def ep_err_handler_def send_stream_cb_def split: if_splits)
  have many: "?P (fold (co_dispatch E client_resume) us v)"
    if "\<forall>u \<in> set us. (\<exists>d. u = CoWrite d) \<or> (\<exists>st. u = CoErr st) \<or> (\<exists>r st event. u = CoSend r st event \<and> st \<noteq> UCS_OK)" "?P v" for us v
    using that
  proof (induction us arbitrary: v)
    case (Cons u us)
    then have "?P (co_dispatch E client_resume u v)" by (intro dispatch) auto
    with Cons show ?case by simp
  qed simp
  have progress: "?P (snd (ucp_worker_progress E (co_dispatch E client_resume) wk v))" if "?P v" for wk v
  proof -
    obtain n us w' where p: "u_progress E wk (world v) = ((n, us), w')" by (metis surj_pair)
    have "?P (fold (co_dispatch E client_resume) us (emit (EvVoid (WorkerProgress wk)) (v\<lparr>world := w'\<rparr>)))"
      by (rule many) (use that quiet [of _ wk "world v"] p in auto)
    then show ?thesis by (simp add: ucp_worker_progress_def p)
  qed
  have loop: "co_stop v = Some Uncaught" if "run_until_completed E client_resume wk u = Some v" "?P u" for wk u v
  proof -
    have "?P v"
      by (rule while_option_rule [where P = ?P, OF _ that(1) [unfolded run_until_completed_def] that(2)])
        (rule progress)
    moreover have "\<not> (\<not> co_completed v \<and> co_stop v = None)"
      using that(1) unfolding run_until_completed_def by (rule while_option_stop)
    ultimately show ?thesis by auto
  qed
  have "\<not> co_completed (co_init w)" "co_stop (co_init w) = None" by (simp_all add: co_init_def)
  with run show ?thesis
  proof (cases rule: client_main_cases)
    case (ran wk ep u v)
    have "?P (start_client_worker E ep u)" using start_client_worker_cases(3,4) [of E ep u] ran(2,3) by simp
    with loop [OF ran(1)] ran(4) show ?thesis by simp
  qed
qed

text \<open>
  C37: An exception in the C++ server's coroutine is lost. When the connection request cannot be
  queried, the coroutine ends, nothing is reported and nobody stops the loop: whatever the library
  does from then on, \<open>completed\<close> is never set, and the program ends only by another exception or
  by \<open>exit\<close>.
\<close>

theorem cpp_server_loses_exceptions:
  assumes "coroutine s = Some f" "fr_point f = ServerAccept" and "ev_data (event_of (fr_event f) s) = Some conn"
    and "\<And>w. fst (u_status E (ConnQuery conn) w) \<noteq> UCS_OK" and "\<not> co_completed s"
  shows "let t = server_resume E wk h s in
    coroutine t = None \<and> \<not> co_completed t \<and> co_stop t = co_stop s \<and>
    (\<forall>v. run_until_completed E (server_resume E wk) wk t = Some v \<longrightarrow> co_stop v \<noteq> None)"
proof -
  obtain st s1 where q: "call_status E (ConnQuery conn) (unshare (fr_event f) s) = (st, s1)" by fastforce
  then have "st = fst (u_status E (ConnQuery conn) (world (unshare (fr_event f) s)))"
    by (auto simp: call_status_def split: prod.splits)
  with assms(4) have st: "st \<noteq> UCS_OK" by simp
  have r: "server_resume E wk h s = s1\<lparr>coroutine := None\<rparr>"
    using assms(1-3) q st by (simp add: server_resume_def server_accepted_def await_resume_def)
  have s1: "co_completed s1 = co_completed s" "co_stop s1 = co_stop s"
    using q by (auto simp: call_status_def split: prod.splits)
  have "co_stop v \<noteq> None" if "run_until_completed E (server_resume E wk) wk (s1\<lparr>coroutine := None\<rparr>) = Some v" for v
    by (rule server.run_over [OF that]) (use assms(5) s1 in simp_all)
  with assms(5) s1 show ?thesis by (simp add: r Let_def)
qed

text \<open>
  C38: Once the C++ server's coroutine has left the accept, of any number of further connection
  requests the first is stored in the event, where nobody looks for it, and all others are dropped.
  None of them is rejected, as the C server rejects them, nor answered in any other way.
\<close>

theorem cpp_server_drops_connections:
  assumes "co_handles s task = Some c" "co_events s c = Some k" and "co_stop s = None"
    and "ev_waiter (the_event k) = None" "\<not> ev_signaled (the_event k)"
  shows "let t = fold (co_dispatch E (server_resume E wk)) (map (\<lambda>conn. CoConn conn task) (conn # conns)) s in
    trace t = trace s \<and> co_stop t = None \<and>
    event_of c t = \<lparr>ev_signaled = True, ev_data = Some conn, ev_waiter = None\<rparr>"
proof -
  let ?D = "co_dispatch E (server_resume E wk)"
  define s1 where "s1 = s\<lparr>co_events := (co_events s)(c \<mapsto> k\<lparr>the_event := \<lparr>ev_signaled = True, ev_data = Some conn, ev_waiter = None\<rparr>\<rparr>)\<rparr>"
  have e: "the_event k\<lparr>ev_data := Some conn, ev_signaled := True\<rparr> = \<lparr>ev_signaled = True, ev_data = Some conn, ev_waiter = None\<rparr>"
    using assms(4) by (cases "the_event k") simp
  have first: "?D (CoConn conn task) s = s1"
    using assms by (simp add: s1_def e co_dispatch_def listener_callback_def set_handle_def set_or_def event_of_def
        upd_event_def Let_def)
  have more: "?D (CoConn d task) s1 = s1" for d
    using assms(1,3) by (simp add: s1_def co_dispatch_def listener_callback_def set_handle_def set_or_def event_of_def)
  have "fold ?D (map (\<lambda>conn. CoConn conn task) conns) s1 = s1"
    by (induction conns) (simp_all add: more)
  with first assms(3) show ?thesis by (simp add: Let_def event_of_def s1_def)
qed

text \<open>A process that has made calls but has no object of its own yet.\<close>

definition no_objects :: "'w co \<Rightarrow> bool" where
  "no_objects s \<longleftrightarrow> heap s = (\<lambda>_. None) \<and> brk s = 1 \<and> faults s = [] \<and> co_events s = (\<lambda>_. None) \<and>
     co_handles s = (\<lambda>_. None) \<and> next_obj s = 1 \<and> coroutine s = None \<and> \<not> co_completed s \<and> co_stop s = None"

lemma calls_no_objects:
  "call_status E c s = (st, t) \<Longrightarrow> no_objects s \<Longrightarrow> no_objects t"
  "call_create E c s = ((st, h), t) \<Longrightarrow> no_objects s \<Longrightarrow> no_objects t"
  "no_objects s \<Longrightarrow> no_objects (call_void E c s)"
  by (auto simp: call_status_def call_create_def call_void_def no_objects_def split: prod.splits)

lemma constructed:
  fixes s :: "'w co"
  assumes "no_objects s" "held s = Some M"
  shows "UcpContext E s = (Value c, t) \<Longrightarrow> (\<And>w. fst (u_status E ConfigRead w) = UCS_OK) \<Longrightarrow>
      no_objects t \<and> held t = Some (add_mset (RContext c) M)"
    "UcpWorker E ctx s = (Value k, t) \<Longrightarrow> no_objects t \<and> held t = Some (add_mset (RWorker k) M)"
    "UcpEndPoint_connect E wk ip port s = (Value ep, t) \<Longrightarrow> no_objects t \<and> held t = Some (add_mset (REp ep) M)"
proof -
  assume run: "UcpContext E s = (Value c, t)" and ok: "\<And>w. fst (u_status E ConfigRead w) = UCS_OK"
  obtain st1 s1 where a: "call_status E ConfigRead s = (st1, s1)" by fastforce
  obtain st2 h s2 where b: "call_create E (UcpInit [FEATURE_STREAM]) s1 = ((st2, h), s2)" by (metis surj_pair)
  have "st1 = fst (u_status E ConfigRead (world s))" using a by (auto simp: call_status_def split: prod.splits)
  with ok have "st1 = UCS_OK" by simp
  with run a b assms calls_no_objects(1) [OF a] calls_no_objects(2) [OF b] call_status_trace [OF a] call_create_trace [OF b]
  show "no_objects t \<and> held t = Some (add_mset (RContext c) M)"
    by (auto simp: UcpContext_def monitor_step_def calls_no_objects(3) split: if_splits)
next
  assume run: "UcpWorker E ctx s = (Value k, t)"
  obtain st h s1 where a: "call_create E (WorkerCreate ctx) s = ((st, h), s1)" by (metis surj_pair)
  with run assms calls_no_objects(2) [OF a] call_create_trace [OF a]
  show "no_objects t \<and> held t = Some (add_mset (RWorker k) M)"
    by (auto simp: UcpWorker_def monitor_step_def split: if_splits)
next
  assume run: "UcpEndPoint_connect E wk ip port s = (Value ep, t)"
  obtain st h s1 where a: "call_create E (EpCreateSock wk (set_sockaddr_in E (Some ip) (ucast port))) s = ((st, h), s1)"
    by (metis surj_pair)
  with run assms calls_no_objects(2) [OF a] call_create_trace [OF a]
  show "no_objects t \<and> held t = Some (add_mset (REp ep) M)"
    by (auto simp: UcpEndPoint_connect_def monitor_step_def split: if_splits)
qed

text \<open>A library that takes the send and reports its success some time later.\<close>

definition reports_send_later :: "('w, co_upcall, 'e) env_scheme \<Rightarrow> nat \<Rightarrow> bool" where
  "reports_send_later E r \<longleftrightarrow>
     (\<forall>c bs w. fst (u_post E c bs w) = (ReqPtr r, [])) \<and>
     (\<forall>wk w. snd (fst (u_progress E wk w)) \<in> {[], [CoSend r UCS_OK 1]})"

text \<open>The client while it waits, and when it is done.\<close>

definition client_waits :: "resource multiset \<Rightarrow> nat \<Rightarrow> 'w co \<Rightarrow> bool" where
  "client_waits M r s \<longleftrightarrow>
     heap s = [1 \<mapsto> map Some (le_bytes 4 5)] \<and> faults s = [] \<and>
     co_events s = [1 \<mapsto> \<lparr>the_event = \<lparr>ev_signaled = False, ev_data = None, ev_waiter = Some 0\<rparr>, owners = 2\<rparr>] \<and>
     co_handles s = [1 \<mapsto> 1] \<and>
     coroutine s = Some \<lparr>fr_point = ClientSent, fr_event = 1, fr_data = 1, fr_ep = 0\<rparr> \<and>
     \<not> co_completed s \<and> co_stop s = None \<and> held s = Some (add_mset (RRequest r) M)"

definition client_done :: "resource multiset \<Rightarrow> 'w co \<Rightarrow> bool" where
  "client_done M s \<longleftrightarrow>
     heap s = (\<lambda>_. None) \<and> faults s = [] \<and> co_events s = (\<lambda>_. None) \<and> co_handles s = (\<lambda>_. None) \<and>
     coroutine s = None \<and> co_completed s \<and> co_stop s = None \<and> held s = Some M \<and>
     EvPrint [53] \<in> set (trace s)"

lemma client_starts_waiting:
  fixes s :: "'w co" and E :: "('w, co_upcall, 'e) co_env_scheme"
  assumes "no_objects s" "held s = Some M" and post: "reports_send_later E r"
  shows "client_waits M r (start_client_worker E ep s)"
proof -
  obtain w where w: "u_post E (StreamSend ep (Contig (Suc (Suc 0)) 8) (Some (Suc 0))) (map Some (le_bytes 8 (address_of E (Suc 0)))) (world s) =
      ((ReqPtr r, []), w)"
    using post unfolding reports_send_later_def by (metis prod.collapse)
  have "heap s = (\<lambda>_. None)" "brk s = 1" "faults s = []" "co_events s = (\<lambda>_. None)" "co_handles s = (\<lambda>_. None)"
      "next_obj s = 1" "coroutine s = None" "\<not> co_completed s" "co_stop s = None"
    using assms(1) by (simp_all add: no_objects_def)
  then show ?thesis
    using w assms(2)
    by (simp add: client_waits_def start_client_worker_def send_stream_value_def send_stream_def new_block_def
        new_handle_def buffer_bytes_def load_def call_post_def share_def c_free_def suspend_at_def event_of_def
        co_await_def await_ready_def await_suspend_def new_event_def upd_event_def Let_def monitor_step_def
        fun_eq_iff)
qed

lemma client_reported:
  assumes "client_waits M r (s :: 'w co)"
  shows "client_done M (co_dispatch E client_resume (CoSend r UCS_OK 1) s)"
  using assms
  by (simp add: client_waits_def client_done_def co_dispatch_def send_stream_cb_def set_handle_def set_or_def
      event_of_def upd_event_def client_resume_def await_resume_def println_number_def buffer_bytes_def load_def
      unshare_def c_free_def delete_handle_def call_void_def Let_def monitor_step_def le_bytes_numeral
      dec_digits.simps emit_def fun_eq_iff)

lemma client_progress:
  assumes "client_waits M r (s :: 'w co)" and post: "reports_send_later E r"
  shows "client_waits M r (snd (ucp_worker_progress E (co_dispatch E client_resume) wk s)) \<or>
    client_done M (snd (ucp_worker_progress E (co_dispatch E client_resume) wk s))"
proof -
  obtain n us w where p: "u_progress E wk (world s) = ((n, us), w)" by (metis surj_pair)
  then have us: "us = [] \<or> us = [CoSend r UCS_OK 1]"
    using post [unfolded reports_send_later_def, THEN conjunct2, rule_format, of wk "world s"] by simp
  have "client_waits M r (emit (EvVoid (WorkerProgress wk)) (s\<lparr>world := w\<rparr>))"
    using assms(1) by (simp add: client_waits_def)
  with us client_reported [OF this, where E = E] show ?thesis by (auto simp: ucp_worker_progress_def p)
qed

lemma client_runs:
  assumes run: "run_until_completed E client_resume wk s = Some t"
    and "client_waits M r s" and post: "reports_send_later E r"
  shows "client_done M t"
proof -
  have "client_waits M r t \<or> client_done M t"
  proof (rule while_option_rule [where P = "\<lambda>s. client_waits M r s \<or> client_done M s",
        OF _ run [unfolded run_until_completed_def]])
    fix u :: "'a co" assume "client_waits M r u \<or> client_done M u" "\<not> co_completed u \<and> co_stop u = None"
    then have "client_waits M r u" by (auto simp: client_done_def)
    from client_progress [OF this post]
    show "client_waits M r (snd (ucp_worker_progress E (co_dispatch E client_resume) wk u)) \<or>
        client_done M (snd (ucp_worker_progress E (co_dispatch E client_resume) wk u))" .
  qed (use assms(2) in simp)
  moreover have "\<not> (\<not> co_completed t \<and> co_stop t = None)"
    using run unfolding run_until_completed_def by (rule while_option_stop)
  ultimately show ?thesis by (auto simp: client_waits_def)
qed

text \<open>
  C33: When the library takes the client's send and reports its success later, the C++ client that
  ends with a code ends with 0, has given back every handle, every block, every event and every
  handle object, has touched nothing that was gone, and has printed the number 5 - which is not
  what it sent.
\<close>

theorem cpp_client_cleans_up:
  assumes post: "reports_send_later E r" and config: "\<And>w. fst (u_status E ConfigRead w) = UCS_OK"
    and run: "client_main E (co_init w) = Some (ExitCode code, t)"
  shows "code = 0 \<and> held t = Some {#} \<and> heap t = (\<lambda>_. None) \<and> co_events t = (\<lambda>_. None) \<and>
    co_handles t = (\<lambda>_. None) \<and> faults t = [] \<and> EvPrint [53] \<in> set (trace t)"
proof -
  have s0: "no_objects (co_init w)" "held (co_init w) = Some {#}" by (simp_all add: no_objects_def co_init_def)
  obtain c s1 where a: "UcpContext E (co_init w) = (c, s1)" by fastforce
  then obtain ctx where c: "c = Value ctx" using run by (cases c) (auto simp: client_main_def)
  note k1 = constructed(1) [OF s0 a [unfolded c] config]
  obtain k s2 where b: "UcpWorker E ctx s1 = (k, s2)" by fastforce
  then obtain wk where k: "k = Value wk" using run a c by (cases k) (auto simp: client_main_def)
  note k2 = constructed(2) [OF conjunct1 [OF k1] conjunct2 [OF k1] b [unfolded k]]
  obtain ip port where e: "getenv_or_throw E ''SERVER_IP'' = Value ip" "env_port E = Value port"
    using run a b c k by (cases "getenv_or_throw E ''SERVER_IP''"; cases "env_port E") (auto simp: client_main_def)
  obtain q s3 where d: "UcpEndPoint_connect E wk ip port s2 = (q, s3)" by fastforce
  then obtain ep where q: "q = Value ep" using run a b c k e by (cases q) (auto simp: client_main_def)
  note k3 = constructed(3) [OF conjunct1 [OF k2] conjunct2 [OF k2] d [unfolded q]]
  from run a b c d e k q obtain v where v: "run_until_completed E client_resume wk (start_client_worker E ep s3) = Some v"
      and t: "(ExitCode code, t) = (case co_stop v of Some st \<Rightarrow> (st, v) | None \<Rightarrow> (ExitCode 0,
         UcpContext_cleanup E ctx (UcpWorker_cleanup E wk (UcpEndPoint_destroy E ep v))))"
    by (auto simp: client_main_def bind_eq_Some_conv)
  have "client_done (add_mset (REp ep) (add_mset (RWorker wk) {#RContext ctx#})) v"
    using client_runs [OF v _ post] client_starts_waiting [OF conjunct1 [OF k3] conjunct2 [OF k3] post] by blast
  with t show ?thesis
    by (auto simp: client_done_def UcpContext_cleanup_def UcpWorker_cleanup_def UcpEndPoint_destroy_def call_void_def
        monitor_step_def)
qed

text \<open>A library that reports the send at once.\<close>

definition reporting_env :: "(unit, co_upcall) co_env" where
  "reporting_env = cpp_env\<lparr>u_post := (\<lambda>c bs w. ((ReqPtr 7, []), w)),
                           u_progress := (\<lambda>wk w. ((1, [CoSend 7 UCS_OK 1]), w))\<rparr>"

lemma reporting_env_simps [simp]:
  "u_void reporting_env c w = w" "u_status reporting_env c w = (UCS_OK, w)" "u_create reporting_env c w = ((UCS_OK, 1), w)"
  "u_post reporting_env c bs w = ((ReqPtr 7, []), w)" "u_progress reporting_env wk w = ((1, [CoSend 7 UCS_OK 1]), w)"
  "getenv reporting_env ''SERVER_IP'' = Some ''10.0.0.1''" "getenv reporting_env ''SERVER_PORT'' = Some ''13337''"
  "inet_pton reporting_env af str = None" "address_of reporting_env p = 4096 + 16 * p"
  by (simp_all add: reporting_env_def)

lemma reporting_env_constructors:
  fixes s :: "unit co"
  shows "\<exists>t. UcpContext reporting_env s = (Value 1, t) \<and> co_completed t = co_completed s"
    "\<exists>t. UcpWorker reporting_env c s = (Value 1, t)" "\<exists>t. UcpEndPoint_connect reporting_env k ip port s = (Value 1, t)"
    "getenv_or_throw reporting_env ''SERVER_IP'' = Value ''10.0.0.1''" "env_port reporting_env = Value 13337"
  by (simp_all add: UcpContext_def UcpWorker_def UcpEndPoint_connect_def call_status_def call_create_def call_void_def
      env_port_def getenv_or_throw_def stoi_def strtol_converts_def strings_run Let_def)

lemma client_main_reporting: "\<exists>t. client_main reporting_env (co_init ()) = Some (ExitCode 0, t)"
proof -
  have s0: "no_objects (co_init ())" "held (co_init ()) = Some {#}" by (simp_all add: no_objects_def co_init_def)
  obtain s1 where a: "UcpContext reporting_env (co_init ()) = (Value 1, s1)"
    using reporting_env_constructors(1) by blast
  obtain s2 where b: "UcpWorker reporting_env 1 s1 = (Value 1, s2)" using reporting_env_constructors(2) by blast
  obtain s3 where c: "UcpEndPoint_connect reporting_env 1 ''10.0.0.1'' 13337 s2 = (Value 1, s3)"
    using reporting_env_constructors(3) by blast
  have later: "reports_send_later reporting_env 7" by (simp add: reports_send_later_def)
  have "no_objects s1 \<and> held s1 = Some {#RContext 1#}" using constructed(1) [OF s0 a] by simp
  then have "no_objects s2 \<and> held s2 = Some {#RWorker 1, RContext 1#}" using constructed(2) [OF _ _ b] by simp
  then have k: "no_objects s3" "held s3 = Some {#REp 1, RWorker 1, RContext 1#}" using constructed(3) [OF _ _ c] by simp_all
  let ?s = "start_client_worker reporting_env 1 s3" and ?P = "ucp_worker_progress reporting_env (co_dispatch reporting_env client_resume) 1"
  have w: "client_waits {#REp 1, RWorker 1, RContext 1#} 7 ?s" by (rule client_starts_waiting [OF k later])
  then have "client_waits {#REp 1, RWorker 1, RContext 1#} 7 (emit (EvVoid (WorkerProgress 1)) (?s\<lparr>world := ()\<rparr>))"
    by (simp add: client_waits_def)
  from client_reported [OF this] have d: "client_done {#REp 1, RWorker 1, RContext 1#} (snd (?P ?s))"
    by (simp add: ucp_worker_progress_def)
  have "run_until_completed reporting_env client_resume 1 ?s = Some (snd (?P ?s))"
    using w d unfolding run_until_completed_def
    by (subst while_option_step) (simp_all add: client_waits_def client_done_def while_option_done)
  with a b c d show ?thesis
    by (simp add: client_main_def reporting_env_constructors(4,5) client_done_def)
qed

theorem cpp_client_cleans_up_witness:
  "\<exists>t. client_main reporting_env (co_init ()) = Some (ExitCode 0, t) \<and> held t = Some {#} \<and> co_events t = (\<lambda>_. None)"
proof -
  obtain t where t: "client_main reporting_env (co_init ()) = Some (ExitCode 0, t)" using client_main_reporting ..
  from cpp_client_cleans_up [OF _ _ t, of 7] t show ?thesis by (simp add: reports_send_later_def)
qed

text \<open>A library that completes the send at once, reports nothing for it, and later a broken connection.\<close>

definition silent_env :: "(unit, co_upcall) co_env" where
  "silent_env = cpp_env\<lparr>u_progress := (\<lambda>wk w. ((1, [CoErr (UCS_ERR 1)]), w))\<rparr>"

lemma silent_env_simps [simp]:
  "u_void silent_env c w = w" "u_status silent_env c w = (UCS_OK, w)" "u_create silent_env c w = ((UCS_OK, 1), w)"
  "u_post silent_env c bs w = ((ReqNull, []), w)" "u_progress silent_env wk w = ((1, [CoErr (UCS_ERR 1)]), w)"
  "getenv silent_env ''SERVER_IP'' = Some ''10.0.0.1''" "getenv silent_env ''SERVER_PORT'' = Some ''13337''"
  by (simp_all add: silent_env_def)

lemma silent_env_run:
  assumes "\<not> co_completed u" "co_stop u = None"
  shows "\<exists>v. run_until_completed silent_env client_resume wk u = Some v"
proof -
  let ?b = "\<lambda>s :: unit co. \<not> co_completed s \<and> co_stop s = None"
  let ?P = "\<lambda>s. snd (ucp_worker_progress silent_env (co_dispatch silent_env client_resume) wk s)"
  have "\<not> ?b (?P u)" using assms by (simp add: ucp_worker_progress_def co_dispatch_def ep_err_handler_def)
  then have "while_option ?b ?P (?P u) = Some (?P u)" by (rule while_option_done)
  with assms show ?thesis unfolding run_until_completed_def by (subst while_option_step) auto
qed

theorem cpp_client_needs_callback_witness: "\<exists>t. client_main silent_env (co_init ()) = Some (Uncaught, t)"
proof -
  obtain s1 where a: "UcpContext silent_env (co_init ()) = (Value 1, s1)"
    by (simp add: UcpContext_def call_status_def call_create_def)
  obtain s2 where b: "UcpWorker silent_env 1 s1 = (Value 1, s2)" by (simp add: UcpWorker_def call_create_def)
  obtain s3 where c: "UcpEndPoint_connect silent_env 1 ''10.0.0.1'' 13337 s2 = (Value 1, s3)"
    by (simp add: UcpEndPoint_connect_def call_create_def Let_def)
  have e: "getenv_or_throw silent_env ''SERVER_IP'' = Value ''10.0.0.1''" "env_port silent_env = Value 13337"
    by (simp_all add: env_port_def getenv_or_throw_def stoi_def strtol_converts_def strings_run)
  have "\<not> co_completed s3" "co_stop s3 = None"
    using constructors_co(1) [OF a] constructors_co(2) [OF b] constructors_co(3) [OF c] by (simp_all add: co_init_def)
  then obtain v where "run_until_completed silent_env client_resume 1 (start_client_worker silent_env 1 s3) = Some v"
    using silent_env_run [of "start_client_worker silent_env 1 s3" 1] start_client_worker_cases(3,4) [of silent_env 1 s3] by auto
  with a b c e obtain st t where t: "client_main silent_env (co_init ()) = Some (st, t)"
    by (cases "co_stop v") (auto simp: client_main_def)
  have "st = Uncaught" by (rule cpp_client_needs_callback [OF _ t]) auto
  with t show ?thesis by simp
qed

text \<open>The server's coroutine at the accept, with a connection request in its event.\<close>

definition at_accept :: "unit co" where
  "at_accept = co_init ()
     \<lparr>coroutine := Some \<lparr>fr_point = ServerAccept, fr_event = 1, fr_data = 0, fr_ep = 0\<rparr>,
      co_handles := [1 \<mapsto> 1],
      co_events := [1 \<mapsto> \<lparr>the_event = \<lparr>ev_signaled = True, ev_data = Some 9, ev_waiter = Some 0\<rparr>, owners = 2\<rparr>]\<rparr>"

theorem cpp_server_loses_exceptions_witness:
  "let t = server_resume (cpp_env\<lparr>u_status := (\<lambda>c w. (UCS_ERR 1, w))\<rparr>) 1 0 at_accept
   in coroutine t = None \<and> \<not> co_completed t \<and> co_stop t = None"
  using cpp_server_loses_exceptions [of at_accept "\<lparr>fr_point = ServerAccept, fr_event = 1, fr_data = 0, fr_ep = 0\<rparr>" 9
      "cpp_env\<lparr>u_status := (\<lambda>c w. (UCS_ERR 1, w))\<rparr>" 1 0]
  by (simp add: at_accept_def event_of_def co_init_def Let_def)

theorem cpp_server_drops_connections_witness:
  "let s = co_init ()\<lparr>co_handles := [1 \<mapsto> 1], co_events := [1 \<mapsto> \<lparr>the_event = new_event, owners = 1\<rparr>]\<rparr>;
       t = fold (co_dispatch cpp_env (server_resume cpp_env 1)) [CoConn 7 1, CoConn 8 1, CoConn 9 1] s
   in trace t = [] \<and> ev_data (event_of 1 t) = Some 7"
proof -
  let ?s = "co_init ()\<lparr>co_handles := [1 \<mapsto> 1], co_events := [1 \<mapsto> \<lparr>the_event = new_event, owners = 1\<rparr>]\<rparr>"
  have "co_handles ?s 1 = Some 1" "co_events ?s 1 = Some \<lparr>the_event = new_event, owners = 1\<rparr>" "co_stop ?s = None"
    by (simp_all add: co_init_def)
  from cpp_server_drops_connections [OF this, of cpp_env 1 7 "[8, 9]"] show ?thesis
    by (simp add: new_event_def co_init_def Let_def)
qed

end
