(* ===== verification/Co_Server.thy ===== *)
theory Co_Server
  imports Co_Programs
begin

text \<open>
  A whole run of the C++ server (\<open>src/server.cpp\<close>): accept, receive, print, clean-up.
\<close>

section \<open>A library that brings one message\<close>

text \<open>
  Every receive is taken and completes in a later progress call: the bytes \<open>data\<close> come into the
  buffer of the receive, then its callback runs. Connection requests come at any time; 1 is the
  handle object of the listener, the first object of the process. \<open>posted\<close> is what the library
  knows of a receive: its buffer and its user data.
\<close>

definition brings :: "('w, co_upcall, 'e) env_scheme \<Rightarrow> ('w \<Rightarrow> (nat \<times> nat) option) \<Rightarrow> nat \<Rightarrow> byte list \<Rightarrow> bool" where
  "brings E posted r data \<longleftrightarrow>
     (\<forall>c w. posted (u_void E c w) = posted w \<and> posted (snd (u_status E c w)) = posted w \<and>
        posted (snd (u_create E c w)) = posted w) \<and>
     (\<forall>ep p n event bs w. fst (u_post E (StreamRecv ep (Contig p n) False (Some event)) bs w) = (ReqPtr r, []) \<and>
        posted (snd (u_post E (StreamRecv ep (Contig p n) False (Some event)) bs w)) = Some (p, event)) \<and>
     (\<forall>wk w. posted (snd (u_progress E wk w)) = posted w \<and>
        (snd (fst (u_progress E wk w)) = [] \<or> (\<exists>conn. snd (fst (u_progress E wk w)) = [CoConn conn 1]) \<or>
         (\<exists>p event. posted w = Some (p, event) \<and>
            snd (fst (u_progress E wk w)) = [CoWrite (p, 0, data), CoRecv r UCS_OK (length data) event])))"

lemma brings_calls:
  assumes "brings E posted r data"
  shows "posted (world (call_void E c s)) = posted (world s)"
    "call_status E c s = (st, t) \<Longrightarrow> posted (world t) = posted (world s)"
    "call_create E c s = ((st, h), t) \<Longrightarrow> posted (world t) = posted (world s)"
  using assms unfolding brings_def
  by (auto simp: call_void_def call_status_def call_create_def split: prod.splits dest!: spec [of _ c])
    (metis snd_conv)+

section \<open>The phases of the server\<close>

text \<open>\<open>M\<close>: what \<open>main\<close> holds: the context, the worker and the listener.\<close>

definition server_accepting :: "('w \<Rightarrow> (nat \<times> nat) option) \<Rightarrow> resource multiset \<Rightarrow> 'w co \<Rightarrow> bool" where
  "server_accepting posted M s \<longleftrightarrow>
     heap s = (\<lambda>_. None) \<and> brk s = 1 \<and> faults s = [] \<and> next_obj s = 2 \<and>
     co_events s = [1 \<mapsto> \<lparr>the_event = \<lparr>ev_signaled = False, ev_data = None, ev_waiter = Some 0\<rparr>, owners = 2\<rparr>] \<and>
     co_handles s = [1 \<mapsto> 1] \<and>
     coroutine s = Some \<lparr>fr_point = ServerAccept, fr_event = 1, fr_data = 0, fr_ep = 0\<rparr> \<and>
     \<not> co_completed s \<and> co_stop s = None \<and> held s = Some M \<and> posted (world s) = None"

definition server_receiving :: "('w \<Rightarrow> (nat \<times> nat) option) \<Rightarrow> nat \<Rightarrow> resource multiset \<Rightarrow> 'w co \<Rightarrow> bool" where
  "server_receiving posted r M s \<longleftrightarrow> (\<exists>ep e.
     heap s = [1 \<mapsto> replicate 8 (Some 0)] \<and> faults s = [] \<and> ev_waiter e = None \<and>
     co_events s = [1 \<mapsto> \<lparr>the_event = e, owners = 1\<rparr>,
       2 \<mapsto> \<lparr>the_event = \<lparr>ev_signaled = False, ev_data = None, ev_waiter = Some 0\<rparr>, owners = 2\<rparr>] \<and>
     co_handles s = [1 \<mapsto> 1, 2 \<mapsto> 2] \<and>
     coroutine s = Some \<lparr>fr_point = ServerRecv, fr_event = 2, fr_data = 1, fr_ep = ep\<rparr> \<and>
     \<not> co_completed s \<and> co_stop s = None \<and>
     held s = Some (add_mset (RRequest r) (add_mset (REp ep) M)) \<and> posted (world s) = Some (1, 2))"

text \<open>The coroutine was ended by an exception that nobody sees.\<close>

definition server_stuck :: "('w \<Rightarrow> (nat \<times> nat) option) \<Rightarrow> 'w co \<Rightarrow> bool" where
  "server_stuck posted s \<longleftrightarrow>
     coroutine s = None \<and> \<not> co_completed s \<and> co_stop s = None \<and> posted (world s) = None"

definition server_done :: "nat \<Rightarrow> byte list \<Rightarrow> resource multiset \<Rightarrow> 'w co \<Rightarrow> bool" where
  "server_done r data M s \<longleftrightarrow> (\<exists>ep e tr.
     heap s = (\<lambda>_. None) \<and> faults s = [] \<and> co_events s = [1 \<mapsto> \<lparr>the_event = e, owners = 1\<rparr>] \<and>
     co_handles s = [1 \<mapsto> 1] \<and> coroutine s = None \<and> co_completed s \<and> co_stop s = None \<and> held s = Some M \<and>
     trace s = tr @ [EvPrint (map (of_nat \<circ> of_char) (dec_digits (le_value data))),
       EvVoid (EpDestroy ep), EvVoid (ReqFree r)])"

lemma le_value_zeros: "le_value (bs @ replicate n 0) = le_value bs"
  by (induction bs) (simp, induction n, simp_all)

lemma server_takes_message:
  fixes s :: "'w co"
  assumes s: "server_receiving posted r M s" and len: "length data \<le> 8"
  shows "server_done r data M
    (fold (co_dispatch E (server_resume E wk)) [CoWrite (1, 0, data), CoRecv r UCS_OK (length data) 2] s)"
proof -
  obtain ep e where k: "heap s = [1 \<mapsto> replicate 8 (Some 0)]" "faults s = []" "ev_waiter e = None"
      "co_events s = [1 \<mapsto> \<lparr>the_event = e, owners = 1\<rparr>,
         2 \<mapsto> \<lparr>the_event = \<lparr>ev_signaled = False, ev_data = None, ev_waiter = Some 0\<rparr>, owners = 2\<rparr>]"
      "co_handles s = [1 \<mapsto> 1, 2 \<mapsto> 2]"
      "coroutine s = Some \<lparr>fr_point = ServerRecv, fr_event = 2, fr_data = 1, fr_ep = ep\<rparr>"
      "\<not> co_completed s" "co_stop s = None" "held s = Some (add_mset (RRequest r) (add_mset (REp ep) M))"
    using s by (auto simp: server_receiving_def)
  define bs where "bs = data @ replicate (8 - length data) 0"
  have bs: "length bs = 8" "le_value bs = le_value data" using len by (simp_all add: bs_def le_value_zeros)
  define s1 where "s1 = s\<lparr>heap := [1 \<mapsto> map Some bs]\<rparr>"
  have "heap s 1 = Some (replicate 8 (Some 0))" using k(1) by simp
  then have "co_dispatch E (server_resume E wk) (CoWrite (1, 0, data)) s = s1"
    using k(1,8) len by (simp add: co_dispatch_def apply_dma_def store_in_block s1_def bs_def)
  moreover have "server_done r data M (co_dispatch E (server_resume E wk) (CoRecv r UCS_OK n 2) s1)" for n
    unfolding server_done_def
    apply (rule exI [of _ ep], rule exI [of _ e], rule exI [of _ "trace s"])
    using k bs
    by (simp add: s1_def co_dispatch_def recv_stream_cb_def set_handle_def set_or_def event_of_def upd_event_def
        server_resume_def server_received_def await_resume_def println_number_def buffer_bytes_def load_def
        unshare_def c_free_def UcpEndPoint_destroy_def delete_handle_def call_void_def Let_def monitor_step_def
        emit_def fun_eq_iff comp_def)
  ultimately show ?thesis by simp
qed

text \<open>The steps of the coroutine from the accept to the receive, with the event of the accept.\<close>

definition accept_state :: "nat \<Rightarrow> nat \<Rightarrow> 'w co \<Rightarrow> 'w co" where
  "accept_state conn n s = s\<lparr>co_events :=
     [1 \<mapsto> \<lparr>the_event = \<lparr>ev_signaled = True, ev_data = Some conn, ev_waiter = Some 0\<rparr>, owners = n\<rparr>]\<rparr>"

lemma server_accept_dispatch:
  assumes "server_accepting posted M (s :: 'w co)"
  shows "co_dispatch E (server_resume E wk) (CoConn conn 1) s =
    upd_event 1 (\<lambda>e. e\<lparr>ev_waiter := None, ev_signaled := False\<rparr>)
      (let (st, s) = call_status E (ConnQuery conn) (accept_state conn 1 s)
       in if st \<noteq> UCS_OK then s\<lparr>coroutine := None\<rparr>
          else let (buf, s) = new_block (replicate 8 (Some 0)) s; (ep, s) = UcpEndPoint_accept E wk conn s
               in case ep of Thrown \<Rightarrow> (c_free buf s)\<lparr>coroutine := None\<rparr>
                  | Value ep \<Rightarrow> let (event, s) = recv_stream E ep buf 8 s
                      in if co_stop s \<noteq> None then s
                         else suspend_at (\<lambda>_. server_received E \<lparr>fr_point = ServerRecv, fr_event = event, fr_data = buf, fr_ep = ep\<rparr>)
                           \<lparr>fr_point = ServerRecv, fr_event = event, fr_data = buf, fr_ep = ep\<rparr> s)"
  using assms
  by (simp add: server_accepting_def co_dispatch_def listener_callback_def set_handle_def set_or_def event_of_def
      upd_event_def server_resume_def server_accepted_def await_resume_def unshare_def accept_state_def Let_def)

lemma server_posts_receive:
  fixes s :: "'w co"
  assumes E: "brings E posted r data"
    and s: "heap s = [1 \<mapsto> replicate 8 (Some 0)]" "faults s = []" "next_obj s = 2" "co_handles s = [1 \<mapsto> 1]"
      "co_events s = [1 \<mapsto> \<lparr>the_event = e, owners = 1\<rparr>]" "\<not> co_completed s" "co_stop s = None"
      "held s = Some (add_mset (REp ep) M)"
  shows "\<exists>t. recv_stream E ep 1 8 s = (2, t) \<and> co_stop t = None \<and>
    server_receiving posted r M (upd_event 1 (\<lambda>e. e\<lparr>ev_waiter := None, ev_signaled := False\<rparr>)
      (suspend_at (\<lambda>_. server_received E \<lparr>fr_point = ServerRecv, fr_event = 2, fr_data = 1, fr_ep = ep\<rparr>)
         \<lparr>fr_point = ServerRecv, fr_event = 2, fr_data = 1, fr_ep = ep\<rparr> t))"
proof -
  obtain w where w: "u_post E (StreamRecv ep (Contig 1 8) False (Some 2)) [] (world s) = ((ReqPtr r, []), w)"
      "posted w = Some (1, 2)"
    using E unfolding brings_def by (metis prod.collapse)
  define t where "t = emit (EvPost (StreamRecv ep (Contig 1 8) False (Some 2)) [] (ReqPtr r))
    (s\<lparr>world := w, co_events := [1 \<mapsto> \<lparr>the_event = e, owners = 1\<rparr>, 2 \<mapsto> \<lparr>the_event = new_event, owners = Suc 1\<rparr>],
       co_handles := [1 \<mapsto> 1, 2 \<mapsto> 2], next_obj := 3\<rparr>)"
  have "recv_stream E ep 1 8 s = (2, t)"
    using s w by (simp add: t_def recv_stream_def new_handle_def call_post_def share_def emit_def fun_upd_idem Let_def)
  moreover have "server_receiving posted r M (upd_event 1 (\<lambda>e. e\<lparr>ev_waiter := None, ev_signaled := False\<rparr>)
      (suspend_at (\<lambda>_. server_received E \<lparr>fr_point = ServerRecv, fr_event = 2, fr_data = 1, fr_ep = ep\<rparr>)
         \<lparr>fr_point = ServerRecv, fr_event = 2, fr_data = 1, fr_ep = ep\<rparr> t))"
    unfolding server_receiving_def
    apply (rule exI [of _ ep], rule exI [of _ "e\<lparr>ev_waiter := None, ev_signaled := False\<rparr>"])
    using s w
    by (simp add: t_def suspend_at_def event_of_def co_await_def await_ready_def await_suspend_def new_event_def
        upd_event_def Let_def monitor_step_def fun_eq_iff)
  ultimately show ?thesis using s by (auto simp: t_def)
qed

text \<open>The connection request that ends the accept.\<close>

definition may_fail :: "('w, 'u, 'e) env_scheme \<Rightarrow> bool" where
  "may_fail E \<longleftrightarrow> (\<exists>c w. fst (u_status E c w) \<noteq> UCS_OK \<or> fst (fst (u_create E c w)) \<noteq> UCS_OK)"

lemma server_accepts:
  fixes s :: "'w co" and conn wk :: nat
  assumes E: "brings E posted r data" and s: "server_accepting posted M s"
  defines "t \<equiv> co_dispatch E (server_resume E wk) (CoConn conn 1) s"
  shows "server_receiving posted r M t \<or>
    server_stuck posted t \<and> may_fail E"
proof -
  define s1 where "s1 = accept_state conn 1 s"
  obtain st w2 where st: "u_status E (ConnQuery conn) (world s1) = (st, w2)" by fastforce
  then have q: "call_status E (ConnQuery conn) s1 = (st, emit (EvStatus (ConnQuery conn) st) (s1\<lparr>world := w2\<rparr>))"
    by (simp add: call_status_def)
  note t = t_def [unfolded server_accept_dispatch [OF s] s1_def [symmetric]]
  have p2: "posted w2 = None" using brings_calls(2) [OF E q] s by (simp add: s1_def accept_state_def server_accepting_def)
  define s3 where "s3 = emit (EvStatus (ConnQuery conn) st) (s1\<lparr>world := w2, heap := [1 \<mapsto> replicate 8 (Some 0)], brk := 2\<rparr>)"
  have nb: "new_block (replicate 8 (Some 0)) (emit (EvStatus (ConnQuery conn) st) (s1\<lparr>world := w2\<rparr>)) = (1, s3)"
    using s by (simp add: new_block_def s3_def s1_def accept_state_def server_accepting_def emit_def)
  obtain st3 ep w4 where st3: "u_create E (EpCreateConn wk conn) (world s3) = ((st3, ep), w4)" by (metis surj_pair)
  then have c: "call_create E (EpCreateConn wk conn) s3 =
      ((st3, ep), emit (EvCreate (EpCreateConn wk conn) st3 ep) (s3\<lparr>world := w4\<rparr>))"
    by (simp add: call_create_def)
  have p4: "posted w4 = None" using brings_calls(3) [OF E c] p2 by (simp add: s3_def)
  consider "st \<noteq> UCS_OK" | "st = UCS_OK" "st3 \<noteq> UCS_OK" | "st = UCS_OK" "st3 = UCS_OK" by blast
  then show ?thesis
  proof cases
    case 1
    with st have "may_fail E" unfolding may_fail_def by (metis fst_conv)
    with 1 show ?thesis
      using s p2 q by (simp add: t server_stuck_def server_accepting_def s1_def accept_state_def upd_event_def)
  next
    case 2
    with st3 have "may_fail E" unfolding may_fail_def by (metis fst_conv)
    with 2 show ?thesis
      using s p4 q nb c
      by (simp add: t server_stuck_def server_accepting_def s1_def s3_def accept_state_def upd_event_def
          UcpEndPoint_accept_def c_free_def)
  next
    case 3
    define s4 where "s4 = emit (EvCreate (EpCreateConn wk conn) UCS_OK ep) (s3\<lparr>world := w4\<rparr>)"
    have "\<exists>t. recv_stream E ep 1 8 s4 = (2, t) \<and> co_stop t = None \<and>
        server_receiving posted r M (upd_event 1 (\<lambda>e. e\<lparr>ev_waiter := None, ev_signaled := False\<rparr>)
          (suspend_at (\<lambda>_. server_received E \<lparr>fr_point = ServerRecv, fr_event = 2, fr_data = 1, fr_ep = ep\<rparr>)
             \<lparr>fr_point = ServerRecv, fr_event = 2, fr_data = 1, fr_ep = ep\<rparr> t))"
      by (rule server_posts_receive [OF E])
        (use s 3 in \<open>simp_all add: s4_def s3_def s1_def accept_state_def server_accepting_def monitor_step_def\<close>)
    then show ?thesis
      using 3 q nb c by (auto simp: t UcpEndPoint_accept_def s4_def [symmetric])
  qed
qed

section \<open>The loop of main\<close>

text \<open>Further connection requests stay in the event of the listener.\<close>

lemma server_receiving_conn:
  assumes "server_receiving posted r M s"
  shows "server_receiving posted r M (co_dispatch E (server_resume E wk) (CoConn conn 1) s)"
proof -
  obtain ep e where e: "ev_waiter e = None" "co_events s = [1 \<mapsto> \<lparr>the_event = e, owners = 1\<rparr>,
      2 \<mapsto> \<lparr>the_event = \<lparr>ev_signaled = False, ev_data = None, ev_waiter = Some 0\<rparr>, owners = 2\<rparr>]"
    using assms unfolding server_receiving_def by blast
  have h: "co_handles s 1 = Some 1" "co_stop s = None" using assms by (auto simp: server_receiving_def)
  show ?thesis
  proof (cases "ev_signaled e")
    case True
    with e h assms show ?thesis
      by (simp add: co_dispatch_def listener_callback_def set_handle_def set_or_def event_of_def)
  next
    case False
    define e' where "e' = e\<lparr>ev_data := Some conn, ev_signaled := True\<rparr>"
    have "co_dispatch E (server_resume E wk) (CoConn conn 1) s =
        s\<lparr>co_events := (co_events s)(1 \<mapsto> \<lparr>the_event = e', owners = 1\<rparr>)\<rparr>"
      using e h False by (simp add: co_dispatch_def listener_callback_def set_handle_def set_or_def event_of_def
          upd_event_def e'_def Let_def)
    moreover have "ev_waiter e' = None" using e by (simp add: e'_def)
    ultimately show ?thesis
      using assms e(2) unfolding server_receiving_def by (fastforce intro!: exI [of _ e'] simp: fun_eq_iff)
  qed
qed

lemma set_handle_over_world:
  "coroutine s = None \<Longrightarrow> world (set_handle (server_resume E wk) h d s) = world s"
  by (simp add: set_handle_def set_or_def Let_def server_resume_def split: option.split)

lemma server_stuck_conn:
  assumes "server_stuck posted s"
  shows "server_stuck posted (co_dispatch E (server_resume E wk) (CoConn conn 1) s)"
  using assms server.set_handle_over [of s E wk 1 conn]
  by (auto simp: server_stuck_def co_dispatch_def listener_callback_def set_handle_over_world)

definition server_phase :: "('w \<Rightarrow> (nat \<times> nat) option) \<Rightarrow> nat \<Rightarrow> byte list \<Rightarrow> resource multiset \<Rightarrow> 'w co \<Rightarrow> bool" where
  "server_phase posted r data M s \<longleftrightarrow>
     server_accepting posted M s \<or> server_receiving posted r M s \<or> server_stuck posted s \<or> server_done r data M s"

lemma server_progress:
  fixes s :: "'w co"
  assumes E: "brings E posted r data" and len: "length data \<le> 8"
    and s: "server_phase posted r data M s" "\<not> co_completed s"
  shows "server_phase posted r data M (snd (ucp_worker_progress E (co_dispatch E (server_resume E wk)) wk s))"
proof -
  obtain n us w where p: "u_progress E wk (world s) = ((n, us), w)" by (metis surj_pair)
  define s1 where "s1 = emit (EvVoid (WorkerProgress wk)) (s\<lparr>world := w\<rparr>)"
  have w: "posted w = posted (world s)"
    and us: "us = [] \<or> (\<exists>conn. us = [CoConn conn 1]) \<or>
      (\<exists>p event. posted w = Some (p, event) \<and> us = [CoWrite (p, 0, data), CoRecv r UCS_OK (length data) event])"
    using E p unfolding brings_def by (metis fst_conv snd_conv)+
  have t: "snd (ucp_worker_progress E (co_dispatch E (server_resume E wk)) wk s) = fold (co_dispatch E (server_resume E wk)) us s1"
    by (simp add: ucp_worker_progress_def p s1_def)
  from s consider (acc) "server_accepting posted M s1" | (rec) "server_receiving posted r M s1" | (stuck) "server_stuck posted s1"
    using w by (auto simp: server_phase_def server_done_def server_accepting_def server_receiving_def server_stuck_def s1_def)
  then show ?thesis
  proof cases
    case acc
    then have "posted w = None" by (simp add: server_accepting_def s1_def)
    with us consider "us = []" | conn where "us = [CoConn conn 1]" by auto
    then show ?thesis
    proof cases
      case (2 conn)
      with server_accepts [OF E acc, of wk conn] show ?thesis by (auto simp: t server_phase_def)
    qed (use acc in \<open>simp add: t server_phase_def\<close>)
  next
    case rec
    then have "posted w = Some (1, 2)" by (auto simp: server_receiving_def s1_def)
    with us consider "us = []" | conn where "us = [CoConn conn 1]"
      | "us = [CoWrite (1, 0, data), CoRecv r UCS_OK (length data) 2]" by auto
    then show ?thesis
    proof cases
      case (2 conn)
      with server_receiving_conn [OF rec, of E wk conn] show ?thesis by (simp add: t server_phase_def)
    next
      case 3
      with server_takes_message [OF rec len, of E wk] show ?thesis by (simp add: t server_phase_def)
    qed (use rec in \<open>simp add: t server_phase_def\<close>)
  next
    case stuck
    then have "posted w = None" by (simp add: server_stuck_def s1_def)
    with us stuck server_stuck_conn [OF stuck] show ?thesis by (auto simp: t server_phase_def)
  qed
qed

lemma server_runs:
  assumes E: "brings E posted r data" and len: "length data \<le> 8"
    and run: "run_until_completed E (server_resume E wk) wk s = Some t" and s: "server_accepting posted M s"
  shows "server_done r data M t"
proof -
  have "server_phase posted r data M t"
    by (rule while_option_rule [where P = "server_phase posted r data M", OF _ run [unfolded run_until_completed_def]])
      (use server_progress [OF E len] s in \<open>auto simp: server_phase_def [of posted r data M s]\<close>)
  moreover have "\<not> (\<not> co_completed t \<and> co_stop t = None)"
    using run unfolding run_until_completed_def by (rule while_option_stop)
  ultimately show ?thesis
    by (auto simp: server_phase_def server_accepting_def server_receiving_def server_stuck_def)
qed

text \<open>The listener, and the start of the coroutine.\<close>

lemma server_starts:
  fixes s :: "'w co"
  assumes E: "brings E posted r data" and s: "no_objects s" "held s = Some M" "posted (world s) = None"
    and run: "UcpListener E wk ip port s = (Value l, t)"
  shows "\<exists>h. l = (h, 1) \<and> server_accepting posted (add_mset (RListener h) M) (cpp_start_server E l wk t)"
proof -
  define s1 where "s1 = s\<lparr>co_events := [1 \<mapsto> \<lparr>the_event = new_event, owners = 1\<rparr>], co_handles := [1 \<mapsto> 1], next_obj := 2\<rparr>"
  define c where "c = ListenerCreate wk (set_sockaddr_in E (Some ip) port)"
  have nh: "new_handle s = (1, s1)" using s(1) by (simp add: new_handle_def no_objects_def s1_def)
  obtain st h w where cw: "u_create E c (world s1) = ((st, h), w)" by (metis surj_pair)
  define s2 where "s2 = emit (EvCreate c st h) (s1\<lparr>world := w\<rparr>)"
  have a: "call_create E c s1 = ((st, h), s2)" by (simp add: call_create_def cw s2_def)
  obtain st2 w2 where qw: "u_status E (ListenerQuery h) (world s2) = (st2, w2)" by fastforce
  define s3 where "s3 = emit (EvStatus (ListenerQuery h) st2) (s2\<lparr>world := w2\<rparr>)"
  have b: "call_status E (ListenerQuery h) s2 = (st2, s3)" by (simp add: call_status_def qw s3_def)
  have st: "st = UCS_OK" "st2 = UCS_OK" and l: "l = (h, 1)" "t = s3"
    using run a b nh by (auto simp: UcpListener_def c_def [symmetric] split: if_splits)
  have "posted w2 = None"
    using brings_calls(2) [OF E b] brings_calls(3) [OF E a] s(3) by (simp add: s1_def s3_def)
  then have "server_accepting posted (add_mset (RListener h) M) (cpp_start_server E (h, 1) wk s3)"
    using s(1,2) st
    by (simp add: server_accepting_def cpp_start_server_def listener_accept_def share_def suspend_at_def event_of_def
        co_await_def await_ready_def await_suspend_def upd_event_def new_event_def no_objects_def s3_def s2_def s1_def
        monitor_step_def c_def Let_def numeral_2_eq_2)
  with l show ?thesis by simp
qed

lemma constructed_posted:
  assumes E: "brings E posted r data"
    and "UcpContext E s = (c, s1)" "UcpWorker E ctx s1 = (k, s2)"
  shows "posted (world s2) = posted (world s)"
  using assms(2,3)
  by (auto simp: UcpContext_def UcpContext_cleanup_def UcpWorker_def UcpWorker_cleanup_def Let_def
      brings_calls(1) [OF E] split: prod.splits if_splits dest!: brings_calls(2,3) [OF E])

section \<open>A run of main\<close>

text \<open>
  C34: When the library brings the server one message of up to eight bytes, a server that ends with
  a code ends with 0 and has given back everything. It prints the number whose little-endian bytes
  the message has, however few they are; then, still inside the callback of the receive, the end of
  the coroutine destroys the endpoint, and only then the callback frees the request of the receive.
\<close>

theorem cpp_server_prints_message:
  assumes E: "brings E posted r data" and len: "length data \<le> 8" and w: "posted w = None"
    and config: "\<And>w. fst (u_status E ConfigRead w) = UCS_OK"
    and run: "server_main E (co_init w) = Some (ExitCode code, t)"
  shows "code = 0 \<and> held t = Some {#} \<and> heap t = (\<lambda>_. None) \<and> co_events t = (\<lambda>_. None) \<and>
    co_handles t = (\<lambda>_. None) \<and> faults t = [] \<and>
    (\<exists>tr ep listener worker context. trace t = tr @
      [EvPrint (map (of_nat \<circ> of_char) (dec_digits (le_value data))), EvVoid (EpDestroy ep), EvVoid (ReqFree r),
       EvVoid (ListenerDestroy listener), EvVoid (WorkerDestroy worker), EvVoid (UcpCleanup context)])"
proof -
  have s0: "no_objects (co_init w)" "held (co_init w) = Some {#}" by (simp_all add: no_objects_def co_init_def)
  obtain c s1 where a: "UcpContext E (co_init w) = (c, s1)" by fastforce
  then obtain ctx where c: "c = Value ctx" using run by (cases c) (auto simp: server_main_def)
  note k1 = constructed(1) [OF s0 a [unfolded c] config]
  obtain k s2 where b: "UcpWorker E ctx s1 = (k, s2)" by fastforce
  then obtain wk where k: "k = Value wk" using run a c by (cases k) (auto simp: server_main_def)
  note k2 = constructed(2) [OF conjunct1 [OF k1] conjunct2 [OF k1] b [unfolded k]]
  have p2: "posted (world s2) = None" using constructed_posted [OF E a b] w by (simp add: co_init_def)
  obtain ip port where e: "getenv_or_throw E ''SERVER_IP'' = Value ip" "env_port E = Value port"
    using run a b c k by (cases "getenv_or_throw E ''SERVER_IP''"; cases "env_port E") (auto simp: server_main_def)
  obtain q s3 where d: "UcpListener E wk ip (ucast port) s2 = (q, s3)" by fastforce
  then obtain l where q: "q = Value l" using run a b c k e by (cases q) (auto simp: server_main_def)
  from run a b c d e k q obtain v where v: "run_until_completed E (server_resume E wk) wk (cpp_start_server E l wk s3) = Some v"
      and t: "(ExitCode code, t) = (case co_stop v of Some st \<Rightarrow> (st, v) | None \<Rightarrow> (ExitCode 0,
         UcpContext_cleanup E ctx (UcpWorker_cleanup E wk (UcpListener_destroy E l v))))"
    by (auto simp: server_main_def bind_eq_Some_conv)
  obtain h where h: "l = (h, 1)" "server_accepting posted (add_mset (RListener h) {#RWorker wk, RContext ctx#}) (cpp_start_server E l wk s3)"
    using server_starts [OF E conjunct1 [OF k2] conjunct2 [OF k2] p2 d [unfolded q]] by blast
  have "server_done r data (add_mset (RListener h) {#RWorker wk, RContext ctx#}) v"
    by (rule server_runs [OF E len v h(2)])
  with t h(1) show ?thesis
    by (auto simp: server_done_def UcpContext_cleanup_def UcpWorker_cleanup_def UcpListener_destroy_def delete_handle_def
        unshare_def call_void_def monitor_step_def fun_eq_iff)
qed

text \<open>A library that brings the bytes a client sent, one connection request and one receive at a time.\<close>

definition bringing_env :: "byte list \<Rightarrow> ((nat \<times> nat) option, co_upcall) co_env" where
  "bringing_env data = env.extend
     \<lparr>alloc_ok = (\<lambda>n w. (True, w)), u_void = (\<lambda>c w. w), u_status = (\<lambda>c w. (UCS_OK, w)),
      u_create = (\<lambda>c w. ((UCS_OK, 1), w)),
      u_post = (\<lambda>c bs w. case c of StreamRecv ep (Contig p n) all (Some event) \<Rightarrow> ((ReqPtr 7, []), Some (p, event))
                                 | _ \<Rightarrow> ((ReqPtr 7, []), w)),
      u_early = (\<lambda>c q w. []),
      u_progress = (\<lambda>wk w. case w of None \<Rightarrow> ((1, [CoConn 9 1]), w)
        | Some (p, event) \<Rightarrow> ((1, [CoWrite (p, 0, data), CoRecv 7 UCS_OK (length data) event]), w)),
      u_check = (\<lambda>r w. UCS_OK), status_code = (\<lambda>st. 0), inet_pton = (\<lambda>af str. None)\<rparr>
     \<lparr>getenv = (\<lambda>key. if key = ''SERVER_IP'' then Some ''10.0.0.1'' else Some ''13337''), address_of = (\<lambda>p. 4096 + 16 * p)\<rparr>"

lemma bringing_env_simps [simp]:
  "u_void (bringing_env data) c w = w" "u_status (bringing_env data) c w = (UCS_OK, w)"
  "u_create (bringing_env data) c w = ((UCS_OK, 1), w)"
  "u_post (bringing_env data) (StreamRecv ep (Contig p n) all (Some event)) bs w = ((ReqPtr 7, []), Some (p, event))"
  "u_progress (bringing_env data) wk None = ((1, [CoConn 9 1]), None)"
  "u_progress (bringing_env data) wk (Some (p, event)) =
     ((1, [CoWrite (p, 0, data), CoRecv 7 UCS_OK (length data) event]), Some (p, event))"
  "getenv (bringing_env data) ''SERVER_IP'' = Some ''10.0.0.1''" "getenv (bringing_env data) ''SERVER_PORT'' = Some ''13337''"
  "inet_pton (bringing_env data) af str = None"
  by (simp_all add: bringing_env_def env.defs)

lemma bringing_env_variables:
  "getenv_or_throw (bringing_env data) ''SERVER_IP'' = Value ''10.0.0.1''" "env_port (bringing_env data) = Value 13337"
  by (simp_all add: env_port_def getenv_or_throw_def stoi_def strtol_converts_def strings_run)

lemma bringing_env_brings: "brings (bringing_env data) (\<lambda>w. w) 7 data"
proof -
  have "snd (u_progress (bringing_env data) wk w) = w \<and>
      (snd (fst (u_progress (bringing_env data) wk w)) = [] \<or>
       (\<exists>conn. snd (fst (u_progress (bringing_env data) wk w)) = [CoConn conn 1]) \<or>
       (\<exists>p event. w = Some (p, event) \<and> snd (fst (u_progress (bringing_env data) wk w)) =
          [CoWrite (p, 0, data), CoRecv 7 UCS_OK (length data) event]))" for wk w
    by (cases w) auto
  then show ?thesis by (simp add: brings_def)
qed

lemma world_same: "world s = w \<Longrightarrow> s\<lparr>world := w\<rparr> = s"
  by simp

lemma bringing_env_ends:
  assumes "length data \<le> 8"
  shows "\<exists>t. server_main (bringing_env data) (co_init None) = Some (ExitCode 0, t)"
proof -
  let ?E = "bringing_env data" and ?M = "{#RListener 1, RWorker 1, RContext 1#}"
  let ?P = "\<lambda>s. snd (ucp_worker_progress ?E (co_dispatch ?E (server_resume ?E 1)) 1 s)"
  note E = bringing_env_brings [of data]
  have s0: "no_objects (co_init None)" "held (co_init None) = Some {#}" by (simp_all add: no_objects_def co_init_def)
  obtain s1 where a: "UcpContext ?E (co_init None) = (Value 1, s1)"
    by (simp add: UcpContext_def call_status_def call_create_def)
  have k1: "no_objects s1 \<and> held s1 = Some {#RContext 1#}" using constructed(1) [OF s0 a] by simp
  obtain s2 where b: "UcpWorker ?E 1 s1 = (Value 1, s2)" by (simp add: UcpWorker_def call_create_def)
  have k2: "no_objects s2" "held s2 = Some {#RWorker 1, RContext 1#}"
    using constructed(2) [OF conjunct1 [OF k1] conjunct2 [OF k1] b] by simp_all
  have p2: "(world s2) = None" using constructed_posted [OF E a b] by (simp add: co_init_def)
  obtain s3 where d: "UcpListener ?E 1 ''10.0.0.1'' 13337 s2 = (Value (1, 1), s3)"
    using k2 by (simp add: UcpListener_def new_handle_def no_objects_def call_create_def call_status_def)
  define s where "s = cpp_start_server ?E (1, 1) 1 s3"
  have acc: "server_accepting (\<lambda>w. w) ?M s" using server_starts [OF E k2 p2 d] by (auto simp: s_def)
  have s1: "server_accepting (\<lambda>w. w) ?M (emit (EvVoid (WorkerProgress 1)) s)" "world s = None"
    using acc by (simp_all add: server_accepting_def)
  have "server_receiving (\<lambda>w. w) 7 ?M (co_dispatch ?E (server_resume ?E 1) (CoConn 9 1) (emit (EvVoid (WorkerProgress 1)) s))"
    using server_accepts [OF E s1(1), of 1 9] by (auto simp: may_fail_def)
  then have rec: "server_receiving (\<lambda>w. w) 7 ?M (?P s)" using s1(2) by (simp add: ucp_worker_progress_def world_same)
  have s2: "server_receiving (\<lambda>w. w) 7 ?M (emit (EvVoid (WorkerProgress 1)) (?P s))" "world (?P s) = Some (1, 2)"
    using rec by (auto simp: server_receiving_def)
  have fin: "server_done 7 data ?M (?P (?P s))"
    using server_takes_message [OF s2(1) assms, of ?E 1] s2(2) by (simp add: ucp_worker_progress_def world_same)
  have "run_until_completed ?E (server_resume ?E 1) 1 s = Some (?P (?P s))"
    unfolding run_until_completed_def
  proof (subst while_option_step)
    show "while_option (\<lambda>s. \<not> co_completed s \<and> co_stop s = None) ?P (?P s) = Some (?P (?P s))"
      by (subst while_option_step) (use rec fin in \<open>auto simp: server_receiving_def server_done_def while_option_done\<close>)
  qed (use acc in \<open>simp add: server_accepting_def\<close>)
  with a b d fin show ?thesis
    by (auto simp: server_main_def bringing_env_variables s_def server_done_def)
qed

text \<open>
  The C++ client sends the address of its variable (4112 in this environment), the server prints it.
\<close>

theorem cpp_server_prints_message_witness:
  "\<exists>t. server_main (bringing_env (le_bytes 8 4112)) (co_init None) = Some (ExitCode 0, t) \<and>
     held t = Some {#} \<and> EvPrint [52, 49, 49, 50] \<in> set (trace t)"
proof -
  obtain t where t: "server_main (bringing_env (le_bytes 8 4112)) (co_init None) = Some (ExitCode 0, t)"
    using bringing_env_ends [of "le_bytes 8 4112"] by auto
  have "le_value (le_bytes 8 4112) = 4112" by (simp add: le_value_le_bytes)
  with cpp_server_prints_message [OF bringing_env_brings _ _ _ t] t show ?thesis
    by (auto simp: dec_digits.simps)
qed

end
