(* ===== verification/Usage.thy ===== *)
theory Usage
  imports Cs_Session Hw_Main
begin

text \<open>
  The help texts of the two C programs as lists of lines, as functions of the static variables they
  print. They go to \<open>stderr\<close> and nothing depends on them, so the command line parsers do not call
  them here.
\<close>

section \<open>The texts\<close>

text \<open>\<open>printf("%d")\<close> and \<open>printf("%ld")\<close>.\<close>

definition printf_d :: "int \<Rightarrow> string" where
  "printf_d i = (if i < 0 then CHR ''-'' # dec_digits (nat (- i)) else dec_digits (nat i))"

definition print_common_help :: "('w, 'b) machine_scheme \<Rightarrow> string list" where
  "print_common_help s =
     [''  -p <port>     Set alternative server port (default:13337)'',
      ''  -6            Use IPv6 address in data exchange'',
      ''  -s <size>     Set test string length (default:16)'',
      ''  -m <mem type> Memory type of messages'',
      ''                host - system memory (default)''] @
     (if check_mem_type_support MEM_CUDA s
      then [''                cuda - NVIDIA GPU memory''] else []) @
     (if check_mem_type_support MEM_CUDA_MANAGED s
      then [''                cuda-managed - NVIDIA GPU managed/unified memory''] else [])"

definition DEFAULT_PORT :: int where "DEFAULT_PORT = 13337"

definition COMM_TYPE_DEFAULT :: string where "COMM_TYPE_DEFAULT = ''STREAM''"

definition usage :: "'w cs \<Rightarrow> string list" where
  "usage s =
     [''Usage: ucp_client_server [parameters]'',
      ''UCP client-server example utility'',
      [],
      ''Parameters are:'',
      ''  -a Set IP address of the server (required for client and should not be specified for the server)'',
      ''  -l Set IP address where server listens (If not specified, server uses INADDR_ANY; Irrelevant at client)'',
      ''  -p Port number to listen/connect to (default = '' @ printf_d DEFAULT_PORT @
        ''). 0 on the server side means select a random port and print it'',
      ''  -c Communication type for the client and server.   Valid values are:'',
      ''      'stream' : Stream API'',
      ''      'tag'    : Tag API'',
      ''      'am'     : AM API'',
      ''     If not specified, '' @ COMM_TYPE_DEFAULT @ '' API will be used.'',
      ''  -i Number of iterations to run. Client and server must have the same value. (default = '' @
        printf_d (sint (num_iterations s)) @ '').'',
      ''  -v Number of buffers in a single data transfer function call. (default = '' @
        printf_d (sint (iov_cnt s)) @ '').''] @
     print_common_help s @ [[]]"

definition print_usage :: "'w hw \<Rightarrow> string list" where
  "print_usage s =
     [''Usage: ucp_hello_world [parameters]'',
      ''UCP hello world client/server example utility'',
      [],
      ''Parameters are:'',
      ''  -w      Select test mode \"wait\" to test ucp_worker_wait function'',
      ''  -f      Select test mode \"event fd\" to test ucp_worker_get_efd function with later poll'',
      ''  -b      Select test mode \"busy polling\" to test ucp_tag_probe_nb and ucp_worker_progress (default)'',
      ''  -n <name> Set node name or IP address of the server (required for client and should be ignored for server)'',
      ''  -e <type> Emulate unexpected failure and handle an error with enabled UCP_ERR_HANDLING_MODE_PEER'',
      ''            send      - send failure on server side before send initiated'',
      ''            recv      - receive failure on client side before receive completed'',
      ''            keepalive - keepalive failure on client side after communication completed'',
      ''  -c      Print UCP configuration''] @
     print_common_help s @ [[]]"

section \<open>What the texts promise\<close>

text \<open>
  The option a line of the text documents: a line that starts with two blanks and a dash. In the
  text of \<open>ucp_hello_world\<close> an argument is shown in angle brackets.
\<close>

fun option_of :: "string \<Rightarrow> char option" where
  "option_of (a # b # c # d # l) = (if [a, b, c] = ''  -'' then Some d else None)"
| "option_of _ = None"

fun argument_of :: "string \<Rightarrow> char option" where
  "argument_of (a # b # c # d # e # f # l) = (if [a, b, c] = ''  -'' \<and> f = CHR ''<'' then Some d else None)"
| "argument_of _ = None"

text \<open>The options of an option string, those with an argument alone if \<open>args\<close>.\<close>

fun options :: "bool \<Rightarrow> string \<Rightarrow> string" where
  "options args (c # d # cs) =
     (if d = CHR '':'' then c # options args cs else (if args then [] else [c]) @ options args (d # cs))"
| "options args [c] = (if args then [] else [c])"
| "options args [] = []"

lemma usage_options: "List.map_filter option_of (usage s) = ''alpcivp6sm''"
  by (simp add: usage_def print_common_help_def List.map_filter_simps)

lemma print_usage_options:
  "List.map_filter option_of (print_usage s) = ''wfbnecp6sm''"
  "List.map_filter argument_of (print_usage s) = ''nepsm''"
  by (simp_all add: print_usage_def print_common_help_def List.map_filter_simps)

text \<open>
  Each program accepts exactly the options its text documents and \<open>-h\<close>, and the text of
  \<open>ucp_hello_world\<close> shows an argument for exactly the options that take one.
\<close>

theorem help_documents_every_option:
  "set (options False cs_optstring) = insert (CHR ''h'') (set (List.map_filter option_of (usage s)))"
  "set (options False hw_optstring) = insert (CHR ''h'') (set (List.map_filter option_of (print_usage t)))"
  "set (List.map_filter argument_of (print_usage t)) = set (options True hw_optstring)"
  unfolding usage_options print_usage_options by (simp_all add: cs_optstring_def hw_optstring_def insert_commute)

text \<open>
  The text of \<open>ucp_client_server\<close> calls the current number of iterations the default: after
  \<open>-i 5\<close> it says that the default is 5. And it lists \<open>cuda\<close> in a build that has no CUDA.
\<close>

theorem usage_shows_current_as_default:
  "''  -i Number of iterations to run. Client and server must have the same value. (default = 1).'' \<in> set (usage (cs_init w))"
  "''  -i Number of iterations to run. Client and server must have the same value. (default = 5).''
     \<in> set (usage (snd (snd (parse_cmd E [''-i'', ''5''] a (cs_init w)))))"
  "''                cuda - NVIDIA GPU memory'' \<in> set (usage (cs_init w))"
proof -
  have "getopt_all cs_optstring [''-i'', ''5''] = ([(CHR ''i'', Some ''5'')], [])"
    by (simp add: getopt_all.simps cs_optstring_def)
  then have p: "num_iterations (snd (snd (parse_cmd E [''-i'', ''5''] a (cs_init w)))) = 5"
    by (simp add: parse_cmd_def parse_opt_def strings_run)
  have d: "printf_d 1 = ''1''" "printf_d 5 = ''5''" by code_simp+
  show "''  -i Number of iterations to run. Client and server must have the same value. (default = 1).'' \<in> set (usage (cs_init w))"
    by (simp add: usage_def d cs_init_def)
  show "''  -i Number of iterations to run. Client and server must have the same value. (default = 5).''
     \<in> set (usage (snd (snd (parse_cmd E [''-i'', ''5''] a (cs_init w)))))"
    unfolding usage_def p by (simp add: d)
  show "''                cuda - NVIDIA GPU memory'' \<in> set (usage (cs_init w))"
    by (simp add: usage_def print_common_help_def check_mem_type_support_def cs_init_def)
qed

end
