(* ===== verification/Spec2Isabelle.thy ===== *)
theory Spec2Isabelle
  imports Cs_Closed Cs_Serve Hw_Scopes Hw_Greet Co_Server Usage
begin

text \<open>
  A model of the programs of the repository and their proofs.

  \<^bold>\<open>The programs.\<close> The repository holds two C programs that use the UCX communication library,
  \<open>ucp_hello_world/ucp_client_server.c\<close> and \<open>ucp_hello_world/ucp_hello_world.c\<close>, which share
  \<open>hello_world_util.h\<close> and \<open>ucp_util.h\<close>, and a C++ coroutine layer over the same library with a
  client and a server of its own (\<open>src/\<close>, \<open>include/helper.hpp\<close>). Each is both sides of a pair: a
  server that waits for a connection, a client that connects, and transfers between them.

  \<^bold>\<open>The environment.\<close> UCX, the sockets, the allocator, \<open>inet_pton\<close> and the variables of the
  process are not part of the repository. They are a record \<open>env\<close> (extended by \<open>net_env\<close>, \<open>hw_env\<close>,
  \<open>co_env\<close>) of functions on a world of any type, the first argument \<open>E\<close> of every operation that
  calls them. Nothing is assumed of them unless a theorem says so. \<open>ucp_worker_progress\<close> runs the
  callbacks the environment chooses, in the order it chooses; so does, before it returns, a receive
  posted with \<open>UCP_OP_ATTR_FLAG_NO_IMM_CMPL\<close> (\<open>early\<close>). The contracts of a library say that such a
  receive never returns \<open>NULL\<close>, as UCX documents it.

  \<^bold>\<open>The state.\<close> A program runs on a record \<open>machine\<close>: the world, a heap of numbered blocks whose
  bytes may be unwritten, a list of faults (an access outside a block, a second free, a use of a
  dead frame or of unwritten bytes), and the trace of calls with their answers. \<open>cs\<close>, \<open>hw\<close> and
  \<open>co\<close> extend it by the static variables and objects of the three programs. Numbers have the width
  they have in C; bytes of numbers are little-endian.

  \<^bold>\<open>Results.\<close> There is no fuel. A loop that may run forever is a \<open>while_option\<close>, and \<open>None\<close> is a
  run that does not return: every wait of the programs is a loop without a time-out. Termination is
  stated as such where it holds (\<open>ep_close_returns_iff\<close>, \<open>ucx_wait_returns_iff_completed\<close>). In
  \<open>ucp_hello_world\<close> the inner \<open>None\<close> is a run that ends because the program kills itself with
  \<open>SIGKILL\<close>, in the C++ programs \<open>co_stop\<close> is an exception nobody catches or a call of \<open>exit\<close>.

  \<^bold>\<open>What is specified.\<close> The monitor \<open>held\<close> replays a trace: the multiset of handles the program
  has to release, or nothing once it released one it did not hold. The inductive grammar \<open>scoped\<close>
  is the abstract client of UCX: handles live in nested scopes and calls use live handles only. A
  session relies on a transfer by the locale \<open>transfer\<close>; a wait relies on the callbacks by
  \<open>frame_relation\<close>, \<open>progress_frame\<close> and \<open>balanced_callbacks\<close>, which are interpreted on the
  dispatchers of both C programs; \<open>over\<close> says what a finished coroutine is for a callback.

  \<^bold>\<open>The theories.\<close>

  \<^item> \<open>Prelude\<close>: C integer types, collections of facts, loops with several exits.
  \<^item> \<open>C_Strings\<close>: the C library on strings (\<open>atoi\<close>, \<open>getopt\<close>, printing and reading numbers).
  \<^item> \<open>Machine\<close>, \<open>Ucx_Calls\<close>: the environment, the state, the calls, the monitor, the contract of
    callbacks.
  \<^item> \<open>Ucp_Util\<close> (\<open>ucp_util.h\<close>): the close of an endpoint and its wait.
  \<^item> \<open>Hello_World_Util\<close> (\<open>hello_world_util.h\<close>): memory types, the test string, sockets, the barrier.
  \<^item> \<open>Scopes\<close>: the grammar of handle scopes, its soundness, and one lemma for each kind of scope.
  \<^item> \<open>Cs_State\<close>, \<open>Cs_Transfer\<close>, \<open>Cs_Address\<close>, \<open>Cs_Session\<close>, \<open>Cs_Scopes\<close> (\<open>ucp_client_server.c\<close>):
    state, buffers and callbacks; one transfer over each API; addresses; sessions, server, client,
    command line and \<open>main\<close>; the grammar. They show that every run gives back what it took and uses
    live handles only, what a transfer posts and prints on either side, when the waits return, how
    errors end a session, and what the command line accepts.
  \<^item> \<open>Cs_Exchange\<close>, \<open>Cs_Run\<close>, \<open>Cs_Serve\<close>: the contract \<open>carries\<close> of a library that delivers messages, at
    once or later, in any order with calls of the error handler; over it every transfer of each API,
    every session on either side, and the client from its command line to its end return and
    succeed, and both sides send and print the same; a server serves every client and never ends.
  \<^item> \<open>Cs_Closed\<close>: the callbacks a library has run (\<open>records\<close>), and that a session the server reports as
    successful has been told of the end of the connection since it began.
  \<^item> \<open>Hw_State\<close>, \<open>Hw_Run\<close>, \<open>Hw_Main\<close>, \<open>Hw_Session\<close>, \<open>Hw_Scopes\<close> (\<open>ucp_hello_world.c\<close>): state,
    callbacks, \<open>struct msg\<close> and the waits; client and server; command line, exchange of addresses and
    \<open>main\<close>; what holds of them; the grammar. They show what a run leaves behind, what is sent, the
    reads outside a message, and the emulated failures.
    UCX keeps requests in a pool and calls \<open>request_init\<close> once for each, so their contents persist.
  \<^item> \<open>Hw_Exchange\<close>, \<open>Hw_Greet\<close>: the contracts \<open>relays\<close> of a library that delivers the message of the
    peer, at once or later, and \<open>connects\<close> of a network that carries its bytes; over them both
    programs, from their command lines to their ends, return 0 and each shows others exactly what
    the other was to receive, in a fixed order, in any of the three ways of waiting. The bytes either
    side sends over any library are received as what was sent: the two round trips.
  \<^item> \<open>Co_Event\<close> (\<open>src/async\<close>): the event a coroutine awaits, refined to a place for one value.
  \<^item> \<open>Co_State\<close>, \<open>Co_Wrappers\<close>: owners of events, \<open>send_stream\<close> and \<open>recv_stream\<close>, callbacks; the
    classes that own a UCX object, the helpers.
  \<^item> \<open>Co_Programs\<close>, \<open>Co_Server\<close> (\<open>src/client.cpp\<close>, \<open>src/server.cpp\<close>): the coroutines, cut at each
    \<open>co_await\<close>, and the loops that drive them; whole runs of both.
  \<^item> \<open>Usage\<close>: the help texts of the C programs and the options they document.

  \<^bold>\<open>Not modelled.\<close> Status lines and error messages, which go to a terminal and are read by nobody;
  the print of the UCX configuration; the text of an exception; the code between
  \<open>#ifdef HAVE_CUDA\<close> and \<open>#endif\<close>, which no build file enables; \<open>sleep(5)\<close> before an emulated
  failure; the limit of the stack for \<open>alloca\<close> and the wrap of its size \<open>iov_cnt * sizeof(*iov)\<close>
  (from \<open>2 ^ 60\<close> buffers on); callbacks out of \<open>ucp_ep_destroy\<close>; and \<open>recv_stream\<close> for a single
  object, which no program uses and whose declared type does not match its result.
\<close>

end
